(* ===== verification/Prelude.thy ===== *)
theory Prelude
  imports Main "HOL-Library.Word"
begin

text \<open>
  Shared vocabulary of the development: the fixed-width C types as words, the checked
  arithmetic helpers that \<^verbatim>\<open>elf.c\<close>, \<^verbatim>\<open>reloc.c\<close>, \<^verbatim>\<open>memory_map.c\<close> and
  \<^verbatim>\<open>main.c\<close> of the loader each carry as \<^verbatim>\<open>static\<close> copies (identical bodies, one
  definition here), little-endian decoding of byte runs, and a byte-addressed memory whose
  unmapped cells make an access fail.  The lemmas translate word arithmetic to \<open>nat\<close>;
  the collection \<open>word_nat\<close> holds the conversions the component theories rewrite with.
\<close>

unbundle bit_operations_syntax

subsection \<open>Fixed-width types and checked arithmetic\<close>

type_synonym u8 = "8 word"
type_synonym u16 = "16 word"
type_synonym u32 = "32 word"
type_synonym u64 = "64 word"

definition UINT64_MAX :: u64 where
  "UINT64_MAX = 0xFFFFFFFFFFFFFFFF"

text \<open>\<^verbatim>\<open>add_ok\<close> and \<^verbatim>\<open>mul_ok\<close> return a flag and write through a pointer; \<open>None\<close> is the flag 0.\<close>

definition add_ok :: "u64 \<Rightarrow> u64 \<Rightarrow> u64 option" where
  "add_ok a b = (if a > UINT64_MAX - b then None else Some (a + b))"

definition mul_ok :: "u64 \<Rightarrow> u64 \<Rightarrow> u64 option" where
  "mul_ok a b = (if a \<noteq> 0 \<and> b > UINT64_MAX div a then None else Some (a * b))"

named_theorems word_nat
  \<open>comparisons and arithmetic of machine words read as natural numbers\<close>

declare word_less_nat_alt [word_nat] word_le_nat_alt [word_nat] unat_word_ariths [word_nat]

lemma unat_u64_less: "unat (x :: u64) < 2 ^ 64"
  using unsigned_less [of x, where ?'a = nat] by simp

lemma unat_u32_less: "unat (x :: u32) < 2 ^ 32"
  using unsigned_less [of x, where ?'a = nat] by simp

lemma unat_u16_less: "unat (x :: u16) < 2 ^ 16"
  using unsigned_less [of x, where ?'a = nat] by simp

lemma unat_u8_less: "unat (x :: u8) < 256"
  using unsigned_less [of x, where ?'a = nat] by simp

lemma unat_UINT64_MAX: "unat UINT64_MAX = 2 ^ 64 - 1"
  by (simp add: UINT64_MAX_def)

lemma add_ok_Some_iff:
  "add_ok a b = Some c \<longleftrightarrow> unat a + unat b < 2 ^ 64 \<and> unat c = unat a + unat b"
proof -
  have b: "unat b \<le> 2 ^ 64 - 1" using unsigned_less [of b, where ?'a = nat] by simp
  then have le: "b \<le> UINT64_MAX" by (simp add: word_le_nat_alt unat_UINT64_MAX)
  have "a > UINT64_MAX - b \<longleftrightarrow> unat a > 2 ^ 64 - 1 - unat b"
    using le by (simp add: word_less_nat_alt unat_sub unat_UINT64_MAX)
  then show ?thesis
    using b by (auto simp add: add_ok_def word_unat_eq_iff unat_word_ariths)
qed

lemma add_ok_None_iff: "add_ok a b = None \<longleftrightarrow> 2 ^ 64 \<le> unat a + unat b"
proof -
  have "add_ok a b \<noteq> None \<longleftrightarrow> unat a + unat b < 2 ^ 64"
  proof
    assume "add_ok a b \<noteq> None"
    then show "unat a + unat b < 2 ^ 64" by (auto simp: add_ok_Some_iff)
  next
    assume *: "unat a + unat b < 2 ^ 64"
    then have "add_ok a b = Some (a + b)"
      by (simp add: add_ok_Some_iff unat_word_ariths)
    then show "add_ok a b \<noteq> None" by simp
  qed
  then show ?thesis by (auto simp: not_less)
qed

lemma mul_ok_Some_iff:
  "mul_ok a b = Some c \<longleftrightarrow> unat a * unat b < 2 ^ 64 \<and> unat c = unat a * unat b"
proof (cases "a = 0")
  case True
  then show ?thesis by (auto simp: mul_ok_def unat_eq_zero)
next
  case False
  then have a0: "0 < unat a" by (simp add: unat_gt_0)
  have "b > UINT64_MAX div a \<longleftrightarrow> unat b > (2 ^ 64 - 1) div unat a"
    by (simp add: word_less_nat_alt unat_div unat_UINT64_MAX)
  also have "\<dots> \<longleftrightarrow> 2 ^ 64 \<le> unat a * unat b"
  proof -
    have "unat b \<le> (2 ^ 64 - 1) div unat a \<longleftrightarrow> unat b * unat a \<le> 2 ^ 64 - 1"
      using a0 by (simp add: less_eq_div_iff_mult_less_eq)
    then show ?thesis by (auto simp: mult.commute)
  qed
  finally show ?thesis
    using False by (auto simp add: mul_ok_def word_unat_eq_iff unat_word_ariths)
qed

lemma add_ok_eq: "add_ok a b = (if unat a + unat b < 2 ^ 64 then Some (a + b) else None)"
proof (cases "unat a + unat b < 2 ^ 64")
  case True
  then have "add_ok a b = Some (a + b)" by (simp add: add_ok_Some_iff unat_word_ariths)
  with True show ?thesis by simp
next
  case False
  then show ?thesis by (simp add: add_ok_None_iff)
qed

subsection \<open>Bits, pages and powers of two\<close>

lemma unat_and_4095: "unat (x AND 4095) = unat (x :: u64) mod 4096"
proof -
  have "x AND 4095 = take_bit 12 x"
    by (simp add: take_bit_eq_mask mask_eq_exp_minus_1)
  then have "x AND 4095 = x mod 4096" by (simp add: take_bit_eq_mod)
  then show ?thesis by (simp add: unat_mod_distrib)
qed

lemma and_not_plus_and: "(x AND NOT w) + (x AND w) = (x :: 'a::len word)"
proof -
  have "(x AND NOT w) + (x AND w) = (x AND NOT w) OR (x AND w)"
    by (rule disjunctive_add) (auto simp: bit_simps)
  also have "\<dots> = x" by (rule bit_word_eqI) (auto simp: bit_simps)
  finally show ?thesis .
qed

lemma unat_and_not_4095: "unat (x AND NOT 4095) = unat (x :: u64) div 4096 * 4096"
proof -
  have "x AND NOT 4095 = x - (x AND 4095)"
    using and_not_plus_and [of x 4095] by (simp add: eq_diff_eq)
  moreover have "x AND 4095 \<le> x"
    by (simp add: word_le_nat_alt unat_and_4095)
  ultimately have "unat (x AND NOT 4095) = unat x - unat x mod 4096"
    by (simp add: unat_sub unat_and_4095)
  then show ?thesis by (simp add: minus_mod_eq_div_mult)
qed

lemma nat_and_pred_eq_0_iff:
  assumes "0 < (n::nat)"
  shows "n AND (n - 1) = 0 \<longleftrightarrow> (\<exists>k. n = 2 ^ k)"
proof
  assume eq: "n AND (n - 1) = 0"
  obtain k where k: "2 ^ k \<le> n" "n < 2 ^ Suc k"
    using assms ex_power_ivl1 [of 2 n] by auto
  have "n = 2 ^ k"
  proof (rule ccontr)
    assume "n \<noteq> 2 ^ k"
    with k have "n div 2 ^ k = 1" "(n - 1) div 2 ^ k = 1"
      by (auto intro!: div_nat_eqI)
    then have "bit n k" and "bit (n - 1) k" by (simp_all add: bit_iff_odd)
    then have "bit (n AND (n - 1)) k" by (simp only: bit_and_iff)
    with eq show False by simp
  qed
  then show "\<exists>k. n = 2 ^ k" by blast
next
  assume "\<exists>k. n = 2 ^ k"
  then obtain k where "n = 2 ^ k" by blast
  then have "n AND (n - 1) = take_bit k (2 ^ k)"
    by (simp only: mask_eq_exp_minus_1 [symmetric] take_bit_eq_mask)
  then show "n AND (n - 1) = 0" by (simp add: take_bit_eq_mod)
qed

lemma unat_ucast_16_64: "unat (ucast (w :: u16) :: u64) = unat w"
proof -
  have "uint (ucast w :: u64) = uint w" by (rule uint_up_ucast) (simp add: is_up)
  then show ?thesis by (simp only: unat_eq_nat_uint)
qed

subsection \<open>Extremal elements of folds\<close>

lemma foldl_max_Max: "foldl max (a :: 'a::linorder) xs = Max (set (a # xs))"
proof (induction xs arbitrary: a)
  case (Cons x xs)
  have "foldl max a (x # xs) = Max (set (max a x # xs))" using Cons [of "max a x"] by simp
  also have "\<dots> = Max (set (a # x # xs))" by (cases "xs = []") (simp_all add: max.assoc)
  finally show ?case .
qed simp

lemma foldl_min_Min: "foldl min (a :: 'a::linorder) xs = Min (set (a # xs))"
proof (induction xs arbitrary: a)
  case (Cons x xs)
  have "foldl min a (x # xs) = Min (set (min a x # xs))" using Cons [of "min a x"] by simp
  also have "\<dots> = Min (set (a # x # xs))" by (cases "xs = []") (simp_all add: min.assoc)
  finally show ?case .
qed simp

lemma Max_le_Min_plus_iff:
  assumes "finite (A :: nat set)" "A \<noteq> {}" "finite B" "B \<noteq> {}"
  shows "Max A \<le> Min B + c \<longleftrightarrow> (\<forall>a\<in>A. \<forall>b\<in>B. a \<le> b + c)"
proof
  assume "Max A \<le> Min B + c"
  with assms show "\<forall>a\<in>A. \<forall>b\<in>B. a \<le> b + c"
    by (meson Max_ge Min_le add_le_mono1 le_trans)
next
  assume "\<forall>a\<in>A. \<forall>b\<in>B. a \<le> b + c"
  with assms show "Max A \<le> Min B + c" by (meson Max_in Min_in)
qed

subsection \<open>Little-endian byte runs\<close>

fun le_val :: "u8 list \<Rightarrow> nat" where
  "le_val [] = 0"
| "le_val (b # bs) = unat b + 256 * le_val bs"

fun le_bytes :: "nat \<Rightarrow> nat \<Rightarrow> u8 list" where
  "le_bytes 0 v = []"
| "le_bytes (Suc n) v = of_nat v # le_bytes n (v div 256)"

definition field_at :: "u8 list \<Rightarrow> nat \<Rightarrow> nat \<Rightarrow> nat" where
  "field_at bs off n = le_val (take n (drop off bs))"

definition byte_slice :: "u8 list \<Rightarrow> nat \<Rightarrow> nat \<Rightarrow> u8 list option" where
  "byte_slice bs off n = (if off + n \<le> length bs then Some (take n (drop off bs)) else None)"

lemma length_le_bytes [simp]: "length (le_bytes n v) = n"
  by (induction n arbitrary: v) auto

lemma le_val_less: "le_val bs < 256 ^ length bs"
proof (induction bs)
  case (Cons b bs)
  have "unat b < 256" using unsigned_less [of b, where ?'a = nat] by simp
  with Cons show ?case by simp
qed simp

lemma le_val_le_bytes: "le_val (le_bytes n v) = v mod 256 ^ n"
proof (induction n arbitrary: v)
  case (Suc n)
  have "unat (of_nat v :: u8) = v mod 256" by (simp add: unat_of_nat)
  with Suc show ?case by (simp add: mod_mult2_eq)
qed simp

lemma le_bytes_le_val: "le_bytes (length bs) (le_val bs) = bs"
proof (induction bs)
  case (Cons b bs)
  have b: "unat b < 256" using unsigned_less [of b, where ?'a = nat] by simp
  have "(256 :: u8) = 0" by simp
  then have "(of_nat (unat b + 256 * le_val bs) :: u8) = b"
    by (simp only: of_nat_add of_nat_mult of_nat_numeral mult_zero_left add_0_right) simp
  with b Cons show ?case by simp
qed simp

lemma byte_slice_Some_iff:
  "byte_slice bs off n = Some xs \<longleftrightarrow> off + n \<le> length bs \<and> xs = take n (drop off bs)"
  by (auto simp: byte_slice_def)

subsection \<open>A byte-addressed memory\<close>

text \<open>
  \<open>None\<close> is an address that is not mapped: loading or storing there fails, so a theorem that a
  routine succeeds on a memory mapped only on its own region bounds what the routine touches.
\<close>

type_synonym memory = "u64 \<Rightarrow> u8 option"

fun load_bytes :: "memory \<Rightarrow> u64 \<Rightarrow> nat \<Rightarrow> u8 list option" where
  "load_bytes m a 0 = Some []"
| "load_bytes m a (Suc n) =
     (case m a of None \<Rightarrow> None | Some b \<Rightarrow> map_option ((#) b) (load_bytes m (a + 1) n))"

fun store_bytes :: "memory \<Rightarrow> u64 \<Rightarrow> u8 list \<Rightarrow> memory option" where
  "store_bytes m a [] = Some m"
| "store_bytes m a (b # bs) =
     (case m a of None \<Rightarrow> None | Some _ \<Rightarrow> store_bytes (m(a \<mapsto> b)) (a + 1) bs)"

definition in_region :: "u64 \<Rightarrow> u64 \<Rightarrow> nat \<Rightarrow> bool" where
  "in_region x a n \<longleftrightarrow> unat (x - a) < n"

definition mapped :: "memory \<Rightarrow> u64 \<Rightarrow> nat \<Rightarrow> bool" where
  "mapped m a n \<longleftrightarrow> (\<forall>i<n. m (a + of_nat i) \<noteq> None)"

lemma mapped_0 [simp]: "mapped m a 0"
  by (simp add: mapped_def)

lemma mapped_Suc: "mapped m a (Suc n) \<longleftrightarrow> m a \<noteq> None \<and> mapped m (a + 1) n"
  by (auto simp: mapped_def All_less_Suc2 ac_simps)

lemma mapped_dom: "mapped m a n \<Longrightarrow> dom m \<subseteq> dom m' \<Longrightarrow> mapped m' a n"
  by (force simp: mapped_def)

lemma load_bytes_mapped: "mapped m a n \<Longrightarrow> \<exists>bs. load_bytes m a n = Some bs \<and> length bs = n"
proof (induction n arbitrary: a)
  case (Suc n)
  then show ?case by (fastforce simp: mapped_Suc)
qed simp

lemma load_bytes_eq:
  "mapped m a n \<Longrightarrow> load_bytes m a n = Some (map (\<lambda>i. the (m (a + of_nat i))) [0..<n])"
proof (induction n arbitrary: a)
  case (Suc n)
  then show ?case
    by (auto simp: mapped_Suc ac_simps map_upt_Suc simp del: upt_Suc)
qed simp

lemma length_load_bytes: "load_bytes m a n = Some bs \<Longrightarrow> length bs = n"
  by (induction n arbitrary: a bs) (auto split: option.splits)

lemma store_bytes_mapped: "mapped m a (length bs) \<Longrightarrow> \<exists>m'. store_bytes m a bs = Some m'"
proof (induction bs arbitrary: m a)
  case (Cons b bs)
  then have "m a \<noteq> None" and "mapped m (a + 1) (length bs)"
    by (auto simp: mapped_Suc)
  moreover from this(2) have "mapped (m(a \<mapsto> b)) (a + 1) (length bs)"
    by (rule mapped_dom) auto
  ultimately show ?case using Cons.IH by fastforce
qed simp

lemma store_bytes_frame:
  "store_bytes m a bs = Some m' \<Longrightarrow> \<not> in_region x a (length bs) \<Longrightarrow> m' x = m x"
proof (induction bs arbitrary: m a)
  case (Cons b bs)
  have "x \<noteq> a" using Cons.prems(2) by (auto simp: in_region_def)
  moreover have "\<not> in_region x (a + 1) (length bs)"
  proof -
    have "unat (x - a) = Suc (unat (x - a - 1))"
      using \<open>x \<noteq> a\<close> by (simp add: unat_minus_one unat_gt_0)
    with Cons.prems(2) show ?thesis by (simp add: in_region_def diff_diff_eq)
  qed
  ultimately show ?case using Cons.prems(1) Cons.IH by (fastforce split: option.splits)
qed simp

lemma store_bytes_dom: "store_bytes m a bs = Some m' \<Longrightarrow> dom m' = dom m"
proof (induction bs arbitrary: m a)
  case (Cons b bs)
  then obtain c where "m a = Some c" and "store_bytes (m(a \<mapsto> b)) (a + 1) bs = Some m'"
    by (auto split: option.splits)
  then show ?case using Cons.IH by fastforce
qed simp

end
