(* ===== verification/Elf.thy ===== *)
theory Elf
  imports Prelude
begin

text \<open>
  The loader's ELF64 validator, \<^verbatim>\<open>bootloader/uefi/elf.h\<close> and \<^verbatim>\<open>elf.c\<close>.

  The kernel file is a byte list; \<^verbatim>\<open>*(Elf64_Ehdr *)p\<close> is \<open>decode_ehdr\<close> of the 64 bytes at
  \<open>p\<close>, fetched with \<open>byte_slice\<close>, which is \<open>None\<close> when the struct is not inside the file.  So
  \<open>elf_plan_load\<close> returns \<open>None\<close> for an access outside the file, \<open>Some (Inl status)\<close> for an early
  \<^verbatim>\<open>return ELF_ERR_*\<close> and \<open>Some (Inr plan)\<close> for \<^verbatim>\<open>ELF_OK\<close>.  The array \<^verbatim>\<open>plan->segs[0..nsegs)\<close>
  is the list \<open>segs\<close>, \<^verbatim>\<open>nsegs\<close> its length.

  The lemmas relate the word-level checks to a specification over natural numbers
  (\<open>valid_kernel_image\<close>): the validator accepts exactly the valid images, it never reads outside
  the file, and every accepted plan satisfies \<open>plan_wf\<close>, the contract the memory-map translator
  and the loader rely on.
\<close>

unbundle bit_operations_syntax

subsection \<open>Constants and on-disk structures (elf.h)\<close>

definition ELF_MAGIC :: u32 where "ELF_MAGIC = 0x464C457F"
definition ELFCLASS64 :: u8 where "ELFCLASS64 = 2"
definition ELFDATA2LSB :: u8 where "ELFDATA2LSB = 1"
definition EV_CURRENT :: "'a::len word" where "EV_CURRENT = 1"
definition ET_EXEC :: u16 where "ET_EXEC = 2"
definition EM_X86_64 :: u16 where "EM_X86_64 = 62"
definition PT_LOAD :: u32 where "PT_LOAD = 1"
definition PF_X :: u32 where "PF_X = 1"
definition PF_W :: u32 where "PF_W = 2"
definition PF_R :: u32 where "PF_R = 4"

record Elf64_Ehdr =
  e_magic :: u32
  e_class :: u8
  e_data :: u8
  e_iversion :: u8
  e_osabi :: u8
  e_abiversion :: u8
  e_pad :: "u8 list"
  e_type :: u16
  e_machine :: u16
  e_version :: u32
  e_entry :: u64
  e_phoff :: u64
  e_shoff :: u64
  e_flags :: u32
  e_ehsize :: u16
  e_phentsize :: u16
  e_phnum :: u16
  e_shentsize :: u16
  e_shnum :: u16
  e_shstrndx :: u16

record Elf64_Phdr =
  p_type :: u32
  p_flags :: u32
  p_offset :: u64
  p_vaddr :: u64
  p_paddr :: u64
  p_filesz :: u64
  p_memsz :: u64
  p_align :: u64

definition decode_ehdr :: "u8 list \<Rightarrow> Elf64_Ehdr" where
  "decode_ehdr bs = \<lparr>
     e_magic = of_nat (field_at bs 0 4),
     e_class = of_nat (field_at bs 4 1),
     e_data = of_nat (field_at bs 5 1),
     e_iversion = of_nat (field_at bs 6 1),
     e_osabi = of_nat (field_at bs 7 1),
     e_abiversion = of_nat (field_at bs 8 1),
     e_pad = take 7 (drop 9 bs),
     e_type = of_nat (field_at bs 16 2),
     e_machine = of_nat (field_at bs 18 2),
     e_version = of_nat (field_at bs 20 4),
     e_entry = of_nat (field_at bs 24 8),
     e_phoff = of_nat (field_at bs 32 8),
     e_shoff = of_nat (field_at bs 40 8),
     e_flags = of_nat (field_at bs 48 4),
     e_ehsize = of_nat (field_at bs 52 2),
     e_phentsize = of_nat (field_at bs 54 2),
     e_phnum = of_nat (field_at bs 56 2),
     e_shentsize = of_nat (field_at bs 58 2),
     e_shnum = of_nat (field_at bs 60 2),
     e_shstrndx = of_nat (field_at bs 62 2) \<rparr>"

definition decode_phdr :: "u8 list \<Rightarrow> Elf64_Phdr" where
  "decode_phdr bs = \<lparr>
     p_type = of_nat (field_at bs 0 4),
     p_flags = of_nat (field_at bs 4 4),
     p_offset = of_nat (field_at bs 8 8),
     p_vaddr = of_nat (field_at bs 16 8),
     p_paddr = of_nat (field_at bs 24 8),
     p_filesz = of_nat (field_at bs 32 8),
     p_memsz = of_nat (field_at bs 40 8),
     p_align = of_nat (field_at bs 48 8) \<rparr>"

text \<open>\<^verbatim>\<open>sizeof(Elf64_Ehdr)\<close> and \<^verbatim>\<open>sizeof(Elf64_Phdr)\<close>.\<close>

definition sizeof_Ehdr :: nat where "sizeof_Ehdr = 64"
definition sizeof_Phdr :: nat where "sizeof_Phdr = 56"

definition ELF_MAX_SEGMENTS :: nat where "ELF_MAX_SEGMENTS = 16"
definition SYPAS_MAX_KERNEL_FILE :: u64 where "SYPAS_MAX_KERNEL_FILE = 64 * 1024 * 1024"
definition ELF_MAX_KERNEL_SPAN :: u64 where "ELF_MAX_KERNEL_SPAN = 256 * 1024 * 1024"
definition ELF_PAGE_MASK :: u64 where "ELF_PAGE_MASK = 4096 - 1"

subsection \<open>The load plan (elf.h)\<close>

record elf_segment =
  seg_paddr :: u64
  seg_page_base :: u64
  seg_page_end :: u64
  seg_offset :: u64
  seg_filesz :: u64
  seg_memsz :: u64
  seg_flags :: u32

record elf_load_plan =
  plan_entry :: u64
  phys_base :: u64
  phys_end :: u64
  segs :: "elf_segment list"

datatype elf_status =
    ELF_OK
  | ELF_ERR_TRUNCATED
  | ELF_ERR_MAGIC
  | ELF_ERR_CLASS
  | ELF_ERR_ENDIAN
  | ELF_ERR_VERSION
  | ELF_ERR_MACHINE
  | ELF_ERR_TYPE
  | ELF_ERR_EHSIZE
  | ELF_ERR_PHENTSIZE
  | ELF_ERR_PHDR_BOUNDS
  | ELF_ERR_SEG_BOUNDS
  | ELF_ERR_SEG_SIZES
  | ELF_ERR_SEG_ALIGN
  | ELF_ERR_SEG_VADDR
  | ELF_ERR_SEG_FLAGS
  | ELF_ERR_SEG_OVERFLOW
  | ELF_ERR_SEG_OVERLAP
  | ELF_ERR_TOO_MANY_SEGS
  | ELF_ERR_NO_SEGMENTS
  | ELF_ERR_TOO_BIG
  | ELF_ERR_ENTRY

subsection \<open>The validator (elf.c)\<close>

definition power_of_two :: "u64 \<Rightarrow> bool" where
  "power_of_two n \<longleftrightarrow> n \<noteq> 0 \<and> n AND (n - 1) = 0"

text \<open>The page-granular overlap test of the inner loop.\<close>

definition pages_overlap :: "elf_segment \<Rightarrow> elf_segment \<Rightarrow> bool" where
  "pages_overlap s t \<longleftrightarrow>
     seg_page_base s < seg_page_end t \<and> seg_page_base t < seg_page_end s"

definition plan_add :: "elf_load_plan \<Rightarrow> elf_segment \<Rightarrow> elf_load_plan" where
  "plan_add plan seg = plan\<lparr>
     segs := segs plan @ [seg],
     phys_base := (if seg_page_base seg < phys_base plan
                   then seg_page_base seg else phys_base plan),
     phys_end := (if seg_page_end seg > phys_end plan
                  then seg_page_end seg else phys_end plan) \<rparr>"

text \<open>
  One iteration of the PT_LOAD loop: \<open>Inl\<close> is a \<^verbatim>\<open>return\<close>, an unchanged plan is a \<^verbatim>\<open>continue\<close>.
\<close>

definition plan_phdr :: "u64 \<Rightarrow> elf_load_plan \<Rightarrow> Elf64_Phdr \<Rightarrow> elf_status + elf_load_plan" where
  "plan_phdr fsize plan ph =
    (if p_type ph \<noteq> PT_LOAD then Inr plan
     else if p_filesz ph > p_memsz ph then Inl ELF_ERR_SEG_SIZES
     else if p_align ph > 1 \<and>
       (\<not> power_of_two (p_align ph) \<or>
        (p_vaddr ph - p_offset ph) AND (p_align ph - 1) \<noteq> 0) then Inl ELF_ERR_SEG_ALIGN
     else if p_vaddr ph \<noteq> p_paddr ph then Inl ELF_ERR_SEG_VADDR
     else if p_flags ph AND NOT (PF_R OR PF_W OR PF_X) \<noteq> 0 \<or>
       p_flags ph AND (PF_W OR PF_X) = (PF_W OR PF_X) then Inl ELF_ERR_SEG_FLAGS
     else if p_memsz ph = 0 then Inr plan
     else if length (segs plan) = ELF_MAX_SEGMENTS then Inl ELF_ERR_TOO_MANY_SEGS
     else case add_ok (p_offset ph) (p_filesz ph) of
       None \<Rightarrow> Inl ELF_ERR_SEG_OVERFLOW
     | Some file_end \<Rightarrow>
       if file_end > fsize then Inl ELF_ERR_SEG_BOUNDS
       else case add_ok (p_paddr ph) (p_memsz ph) of
         None \<Rightarrow> Inl ELF_ERR_SEG_OVERFLOW
       | Some mem_end \<Rightarrow>
         case add_ok mem_end ELF_PAGE_MASK of
           None \<Rightarrow> Inl ELF_ERR_SEG_OVERFLOW
         | Some rounded \<Rightarrow>
           let seg = \<lparr>
             seg_paddr = p_paddr ph,
             seg_page_base = p_paddr ph AND NOT ELF_PAGE_MASK,
             seg_page_end = rounded AND NOT ELF_PAGE_MASK,
             seg_offset = p_offset ph,
             seg_filesz = p_filesz ph,
             seg_memsz = p_memsz ph,
             seg_flags = p_flags ph \<rparr>
           in if list_ex (pages_overlap seg) (segs plan) then Inl ELF_ERR_SEG_OVERLAP
              else Inr (plan_add plan seg))"

definition read_phdr :: "u8 list \<Rightarrow> u64 \<Rightarrow> nat \<Rightarrow> Elf64_Phdr option" where
  "read_phdr file phoff i =
     map_option decode_phdr (byte_slice file (unat phoff + i * sizeof_Phdr) sizeof_Phdr)"

fun plan_phdrs :: "u8 list \<Rightarrow> u64 \<Rightarrow> u64 \<Rightarrow> nat \<Rightarrow> nat \<Rightarrow> elf_load_plan
    \<Rightarrow> (elf_status + elf_load_plan) option" where
  "plan_phdrs file fsize phoff i 0 plan = Some (Inr plan)"
| "plan_phdrs file fsize phoff i (Suc n) plan =
     (case read_phdr file phoff i of
        None \<Rightarrow> None
      | Some ph \<Rightarrow>
        (case plan_phdr fsize plan ph of
           Inl err \<Rightarrow> Some (Inl err)
         | Inr plan' \<Rightarrow> plan_phdrs file fsize phoff (Suc i) n plan'))"

text \<open>The entry-point loop after all segments are planned.\<close>

fun check_entry :: "u64 \<Rightarrow> elf_segment list \<Rightarrow> elf_status" where
  "check_entry entry [] = ELF_ERR_ENTRY"
| "check_entry entry (s # ss) =
     (case add_ok (seg_paddr s) (seg_filesz s) of
        None \<Rightarrow> ELF_ERR_SEG_OVERFLOW
      | Some file_end \<Rightarrow>
        if seg_flags s AND PF_X \<noteq> 0 \<and> entry \<ge> seg_paddr s \<and> entry < file_end
        then ELF_OK else check_entry entry ss)"

definition plan_init :: elf_load_plan where
  "plan_init = \<lparr> plan_entry = 0, phys_base = UINT64_MAX, phys_end = 0, segs = [] \<rparr>"

text \<open>The header and program-header-table checks, in source order.\<close>

definition check_ehdr :: "u64 \<Rightarrow> Elf64_Ehdr \<Rightarrow> elf_status" where
  "check_ehdr fsize eh =
    (if e_magic eh \<noteq> ELF_MAGIC then ELF_ERR_MAGIC
     else if e_class eh \<noteq> ELFCLASS64 then ELF_ERR_CLASS
     else if e_data eh \<noteq> ELFDATA2LSB then ELF_ERR_ENDIAN
     else if e_iversion eh \<noteq> EV_CURRENT \<or> e_version eh \<noteq> EV_CURRENT then ELF_ERR_VERSION
     else if e_machine eh \<noteq> EM_X86_64 then ELF_ERR_MACHINE
     else if e_type eh \<noteq> ET_EXEC then ELF_ERR_TYPE
     else if unat (e_ehsize eh) \<noteq> sizeof_Ehdr then ELF_ERR_EHSIZE
     else if unat (e_phentsize eh) \<noteq> sizeof_Phdr then ELF_ERR_PHENTSIZE
     else if e_phnum eh = 0 then ELF_ERR_NO_SEGMENTS
     else case add_ok (e_phoff eh) (ucast (e_phnum eh) * of_nat sizeof_Phdr) of
       None \<Rightarrow> ELF_ERR_PHDR_BOUNDS
     | Some pht_end \<Rightarrow> if pht_end > fsize then ELF_ERR_PHDR_BOUNDS else ELF_OK)"

definition elf_plan_load :: "u8 list \<Rightarrow> u64 \<Rightarrow> (elf_status + elf_load_plan) option" where
  "elf_plan_load file fsize =
    (if fsize < of_nat sizeof_Ehdr then Some (Inl ELF_ERR_TRUNCATED)
     else case byte_slice file 0 sizeof_Ehdr of
       None \<Rightarrow> None
     | Some hdr \<Rightarrow>
       let eh = decode_ehdr hdr; st = check_ehdr fsize eh in
       if st \<noteq> ELF_OK then Some (Inl st)
       else case plan_phdrs file fsize (e_phoff eh) 0 (unat (e_phnum eh)) plan_init of
         None \<Rightarrow> None
       | Some (Inl err) \<Rightarrow> Some (Inl err)
       | Some (Inr plan) \<Rightarrow>
         if segs plan = [] then Some (Inl ELF_ERR_NO_SEGMENTS)
         else if phys_end plan - phys_base plan > ELF_MAX_KERNEL_SPAN
         then Some (Inl ELF_ERR_TOO_BIG)
         else let st' = check_entry (e_entry eh) (segs plan) in
           if st' = ELF_OK then Some (Inr (plan\<lparr>plan_entry := e_entry eh\<rparr>))
           else Some (Inl st'))"

fun elf_status_str :: "elf_status \<Rightarrow> string" where
  "elf_status_str ELF_OK = ''ok''"
| "elf_status_str ELF_ERR_TRUNCATED = ''file truncated''"
| "elf_status_str ELF_ERR_MAGIC = ''not an ELF image''"
| "elf_status_str ELF_ERR_CLASS = ''not ELF64''"
| "elf_status_str ELF_ERR_ENDIAN = ''not little-endian''"
| "elf_status_str ELF_ERR_VERSION = ''bad ELF version''"
| "elf_status_str ELF_ERR_MACHINE = ''not x86_64''"
| "elf_status_str ELF_ERR_TYPE = ''not ET_EXEC''"
| "elf_status_str ELF_ERR_EHSIZE = ''bad e_ehsize''"
| "elf_status_str ELF_ERR_PHENTSIZE = ''bad e_phentsize''"
| "elf_status_str ELF_ERR_PHDR_BOUNDS = ''program headers outside file''"
| "elf_status_str ELF_ERR_SEG_BOUNDS = ''segment data outside file''"
| "elf_status_str ELF_ERR_SEG_SIZES = ''p_filesz > p_memsz''"
| "elf_status_str ELF_ERR_SEG_ALIGN = ''bad PT_LOAD alignment''"
| "elf_status_str ELF_ERR_SEG_VADDR = ''vaddr is not identity-mapped''"
| "elf_status_str ELF_ERR_SEG_FLAGS = ''unsafe PT_LOAD permissions''"
| "elf_status_str ELF_ERR_SEG_OVERFLOW = ''address arithmetic overflow''"
| "elf_status_str ELF_ERR_SEG_OVERLAP = ''PT_LOAD segments overlap''"
| "elf_status_str ELF_ERR_TOO_MANY_SEGS = ''too many PT_LOAD segments''"
| "elf_status_str ELF_ERR_NO_SEGMENTS = ''no loadable segments''"
| "elf_status_str ELF_ERR_TOO_BIG = ''kernel span too large''"
| "elf_status_str ELF_ERR_ENTRY = ''entry not executable file data''"

subsection \<open>Specification over natural numbers\<close>

text \<open>
  The policy every PT_LOAD header must meet, the file and address ranges a loadable one must fit
  in, and the plan entry it yields.
\<close>

definition phdr_policy :: "Elf64_Phdr \<Rightarrow> bool" where
  "phdr_policy ph \<longleftrightarrow>
     unat (p_filesz ph) \<le> unat (p_memsz ph) \<and>
     (unat (p_align ph) \<le> 1 \<or>
      (\<exists>k<64. unat (p_align ph) = 2 ^ k \<and>
         unat (p_vaddr ph) mod 2 ^ k = unat (p_offset ph) mod 2 ^ k)) \<and>
     p_vaddr ph = p_paddr ph \<and>
     unat (p_flags ph) < 8 \<and> \<not> (bit (p_flags ph) 0 \<and> bit (p_flags ph) 1)"

definition phdr_loadable :: "Elf64_Phdr \<Rightarrow> bool" where
  "phdr_loadable ph \<longleftrightarrow> p_type ph = PT_LOAD \<and> p_memsz ph \<noteq> 0"

definition phdr_fits :: "nat \<Rightarrow> Elf64_Phdr \<Rightarrow> bool" where
  "phdr_fits fsz ph \<longleftrightarrow>
     unat (p_offset ph) + unat (p_filesz ph) \<le> fsz \<and>
     unat (p_paddr ph) + unat (p_memsz ph) + 4095 < 2 ^ 64"

definition segment_of :: "Elf64_Phdr \<Rightarrow> elf_segment" where
  "segment_of ph = \<lparr>
     seg_paddr = p_paddr ph,
     seg_page_base = p_paddr ph AND NOT ELF_PAGE_MASK,
     seg_page_end = (p_paddr ph + p_memsz ph + ELF_PAGE_MASK) AND NOT ELF_PAGE_MASK,
     seg_offset = p_offset ph,
     seg_filesz = p_filesz ph,
     seg_memsz = p_memsz ph,
     seg_flags = p_flags ph \<rparr>"

definition phdr_table :: "u8 list \<Rightarrow> u64 \<Rightarrow> nat \<Rightarrow> nat \<Rightarrow> Elf64_Phdr list" where
  "phdr_table bs phoff i n =
     map (\<lambda>k. decode_phdr (take sizeof_Phdr (drop (unat phoff + k * sizeof_Phdr) bs))) [i..<i + n]"

definition image_header :: "u8 list \<Rightarrow> Elf64_Ehdr" where
  "image_header bs = decode_ehdr (take sizeof_Ehdr bs)"

definition image_phdrs :: "u8 list \<Rightarrow> Elf64_Phdr list" where
  "image_phdrs bs = phdr_table bs (e_phoff (image_header bs)) 0 (unat (e_phnum (image_header bs)))"

definition load_phdrs :: "u8 list \<Rightarrow> Elf64_Phdr list" where
  "load_phdrs bs = filter phdr_loadable (image_phdrs bs)"

definition page_lo :: "Elf64_Phdr \<Rightarrow> nat" where
  "page_lo ph = unat (p_paddr ph) div 4096"

definition page_hi :: "Elf64_Phdr \<Rightarrow> nat" where
  "page_hi ph = (unat (p_paddr ph) + unat (p_memsz ph) + 4095) div 4096"

definition pages_apart :: "Elf64_Phdr \<Rightarrow> Elf64_Phdr \<Rightarrow> bool" where
  "pages_apart p q \<longleftrightarrow> page_hi p \<le> page_lo q \<or> page_hi q \<le> page_lo p"

definition header_ok :: "nat \<Rightarrow> Elf64_Ehdr \<Rightarrow> bool" where
  "header_ok fsz eh \<longleftrightarrow>
     e_magic eh = ELF_MAGIC \<and> e_class eh = ELFCLASS64 \<and> e_data eh = ELFDATA2LSB \<and>
     e_iversion eh = EV_CURRENT \<and> e_version eh = EV_CURRENT \<and>
     e_machine eh = EM_X86_64 \<and> e_type eh = ET_EXEC \<and>
     unat (e_ehsize eh) = 64 \<and> unat (e_phentsize eh) = 56 \<and> 0 < unat (e_phnum eh) \<and>
     unat (e_phoff eh) + unat (e_phnum eh) * 56 \<le> fsz"

definition valid_kernel_image :: "u8 list \<Rightarrow> bool" where
  "valid_kernel_image bs \<longleftrightarrow>
     64 \<le> length bs \<and> header_ok (length bs) (image_header bs) \<and>
     (\<forall>ph\<in>set (image_phdrs bs). p_type ph = PT_LOAD \<longrightarrow> phdr_policy ph) \<and>
     load_phdrs bs \<noteq> [] \<and> length (load_phdrs bs) \<le> 16 \<and>
     (\<forall>ph\<in>set (load_phdrs bs). phdr_fits (length bs) ph) \<and>
     sorted_wrt pages_apart (load_phdrs bs) \<and>
     (\<forall>p\<in>set (load_phdrs bs). \<forall>q\<in>set (load_phdrs bs).
        page_hi p * 4096 \<le> page_lo q * 4096 + 256 * 1024 * 1024) \<and>
     (\<exists>p\<in>set (load_phdrs bs). bit (p_flags p) 0 \<and>
        unat (p_paddr p) \<le> unat (e_entry (image_header bs)) \<and>
        unat (e_entry (image_header bs)) < unat (p_paddr p) + unat (p_filesz p))"

definition image_plan :: "u8 list \<Rightarrow> elf_load_plan" where
  "image_plan bs = (foldl plan_add plan_init (map segment_of (load_phdrs bs)))
     \<lparr>plan_entry := e_entry (image_header bs)\<rparr>"

text \<open>What an accepted plan guarantees to the loader and to the memory-map translator.\<close>

definition segment_wf :: "nat \<Rightarrow> elf_segment \<Rightarrow> bool" where
  "segment_wf fsz s \<longleftrightarrow>
     unat (seg_page_base s) mod 4096 = 0 \<and> unat (seg_page_end s) mod 4096 = 0 \<and>
     unat (seg_page_base s) \<le> unat (seg_paddr s) \<and>
     0 < unat (seg_memsz s) \<and> unat (seg_filesz s) \<le> unat (seg_memsz s) \<and>
     unat (seg_paddr s) + unat (seg_memsz s) \<le> unat (seg_page_end s) \<and>
     unat (seg_offset s) + unat (seg_filesz s) \<le> fsz \<and>
     unat (seg_flags s) < 8 \<and> \<not> (bit (seg_flags s) 0 \<and> bit (seg_flags s) 1)"

definition segs_disjoint :: "elf_segment list \<Rightarrow> bool" where
  "segs_disjoint ss \<longleftrightarrow> sorted_wrt (\<lambda>s t. \<not> pages_overlap s t) ss"

definition plan_wf :: "nat \<Rightarrow> elf_load_plan \<Rightarrow> bool" where
  "plan_wf fsz plan \<longleftrightarrow>
     segs plan \<noteq> [] \<and> length (segs plan) \<le> 16 \<and>
     (\<forall>s\<in>set (segs plan). segment_wf fsz s) \<and> segs_disjoint (segs plan) \<and>
     (\<forall>s\<in>set (segs plan). phys_base plan \<le> seg_page_base s \<and> seg_page_end s \<le> phys_end plan) \<and>
     unat (phys_end plan) \<le> unat (phys_base plan) + 256 * 1024 * 1024 \<and>
     (\<exists>s\<in>set (segs plan). bit (seg_flags s) 0 \<and> unat (seg_paddr s) \<le> unat (plan_entry plan) \<and>
        unat (plan_entry plan) < unat (seg_paddr s) + unat (seg_filesz s))"

text \<open>What each error status claims about the file.\<close>

fun elf_cause :: "u8 list \<Rightarrow> elf_status \<Rightarrow> bool" where
  "elf_cause bs ELF_OK = False"
| "elf_cause bs ELF_ERR_TRUNCATED = (length bs < 64)"
| "elf_cause bs ELF_ERR_MAGIC = (e_magic (image_header bs) \<noteq> ELF_MAGIC)"
| "elf_cause bs ELF_ERR_CLASS = (e_class (image_header bs) \<noteq> ELFCLASS64)"
| "elf_cause bs ELF_ERR_ENDIAN = (e_data (image_header bs) \<noteq> ELFDATA2LSB)"
| "elf_cause bs ELF_ERR_VERSION =
     (\<not> (e_iversion (image_header bs) = EV_CURRENT \<and> e_version (image_header bs) = EV_CURRENT))"
| "elf_cause bs ELF_ERR_MACHINE = (e_machine (image_header bs) \<noteq> EM_X86_64)"
| "elf_cause bs ELF_ERR_TYPE = (e_type (image_header bs) \<noteq> ET_EXEC)"
| "elf_cause bs ELF_ERR_EHSIZE = (unat (e_ehsize (image_header bs)) \<noteq> 64)"
| "elf_cause bs ELF_ERR_PHENTSIZE = (unat (e_phentsize (image_header bs)) \<noteq> 56)"
| "elf_cause bs ELF_ERR_PHDR_BOUNDS =
     (length bs < unat (e_phoff (image_header bs)) + unat (e_phnum (image_header bs)) * 56)"
| "elf_cause bs ELF_ERR_SEG_BOUNDS =
     (\<exists>ph\<in>set (load_phdrs bs). length bs < unat (p_offset ph) + unat (p_filesz ph))"
| "elf_cause bs ELF_ERR_SEG_SIZES =
     (\<exists>ph\<in>set (image_phdrs bs). p_type ph = PT_LOAD \<and> unat (p_memsz ph) < unat (p_filesz ph))"
| "elf_cause bs ELF_ERR_SEG_ALIGN =
     (\<exists>ph\<in>set (image_phdrs bs). p_type ph = PT_LOAD \<and> 1 < unat (p_align ph) \<and>
        (\<forall>k<64. unat (p_align ph) = 2 ^ k \<longrightarrow>
           unat (p_vaddr ph) mod 2 ^ k \<noteq> unat (p_offset ph) mod 2 ^ k))"
| "elf_cause bs ELF_ERR_SEG_VADDR =
     (\<exists>ph\<in>set (image_phdrs bs). p_type ph = PT_LOAD \<and> p_vaddr ph \<noteq> p_paddr ph)"
| "elf_cause bs ELF_ERR_SEG_FLAGS =
     (\<exists>ph\<in>set (image_phdrs bs). p_type ph = PT_LOAD \<and>
        (8 \<le> unat (p_flags ph) \<or> bit (p_flags ph) 0 \<and> bit (p_flags ph) 1))"
| "elf_cause bs ELF_ERR_SEG_OVERFLOW =
     (\<exists>ph\<in>set (load_phdrs bs). 2 ^ 64 \<le> unat (p_offset ph) + unat (p_filesz ph) \<or>
        2 ^ 64 \<le> unat (p_paddr ph) + unat (p_memsz ph) + 4095)"
| "elf_cause bs ELF_ERR_SEG_OVERLAP = (\<not> sorted_wrt pages_apart (load_phdrs bs))"
| "elf_cause bs ELF_ERR_TOO_MANY_SEGS = (16 < length (load_phdrs bs))"
| "elf_cause bs ELF_ERR_NO_SEGMENTS = (load_phdrs bs = [])"
| "elf_cause bs ELF_ERR_TOO_BIG =
     (\<exists>p\<in>set (load_phdrs bs). \<exists>q\<in>set (load_phdrs bs).
        page_lo q * 4096 + 256 * 1024 * 1024 < page_hi p * 4096)"
| "elf_cause bs ELF_ERR_ENTRY =
     (\<forall>p\<in>set (load_phdrs bs). bit (p_flags p) 0 \<longrightarrow>
        \<not> (unat (p_paddr p) \<le> unat (e_entry (image_header bs)) \<and>
           unat (e_entry (image_header bs)) < unat (p_paddr p) + unat (p_filesz p)))"

subsection \<open>From word checks to the specification\<close>

lemma power_of_two_iff: "power_of_two n \<longleftrightarrow> (\<exists>k<64. unat n = 2 ^ k)"
proof (cases "n = 0")
  case False
  then have n: "0 < unat n" by (simp add: unat_gt_0)
  have lt: "unat n < 2 ^ 64" by (rule unat_u64_less)
  have "unat (n AND (n - 1)) = unat n AND (unat n - 1)"
    using False by (simp add: unsigned_and_eq unat_minus_one)
  then have "n AND (n - 1) = 0 \<longleftrightarrow> unat n AND (unat n - 1) = 0"
    by (simp add: unat_eq_0 [symmetric])
  also have "\<dots> \<longleftrightarrow> (\<exists>k. unat n = 2 ^ k)" by (rule nat_and_pred_eq_0_iff [OF n])
  also have "\<dots> \<longleftrightarrow> (\<exists>k<64. unat n = 2 ^ k)"
    using lt by (metis power_strict_increasing_iff one_less_numeral_iff semiring_norm(76))
  finally show ?thesis using False by (simp add: power_of_two_def)
qed (simp add: power_of_two_def)

lemma and_pred_power_eq_0_iff:
  assumes "unat a = 2 ^ k" and "k < 64"
  shows "(v - w) AND (a - 1) = (0 :: u64) \<longleftrightarrow> unat v mod 2 ^ k = unat w mod 2 ^ k"
proof -
  have "a = of_nat (unat a)" by simp
  then have a: "a = 2 ^ k" by (simp only: assms(1) of_nat_power of_nat_numeral)
  have uint_mod: "uint x mod 2 ^ k = int (unat x mod 2 ^ k)" for x :: u64
    by (simp only: uint_nat zmod_int of_nat_power of_nat_numeral)
  have dvd: "(2::int) ^ k dvd 2 ^ 64" by (rule le_imp_power_dvd) (use assms(2) in simp)
  have "(v - w) AND (a - 1) = take_bit k (v - w)"
    by (simp add: a take_bit_eq_mask mask_eq_exp_minus_1)
  also have "\<dots> = 0 \<longleftrightarrow> take_bit k (uint (v - w)) = 0"
    by (simp add: word_uint_eq_iff unsigned_take_bit_eq)
  also have "\<dots> \<longleftrightarrow> (uint v - uint w) mod 2 ^ 64 mod 2 ^ k = 0"
    by (simp add: take_bit_eq_mod uint_word_ariths)
  also have "\<dots> \<longleftrightarrow> uint v mod 2 ^ k = uint w mod 2 ^ k"
    by (simp only: mod_mod_cancel [OF dvd] mod_eq_dvd_iff dvd_eq_mod_eq_0)
  also have "\<dots> \<longleftrightarrow> unat v mod 2 ^ k = unat w mod 2 ^ k"
    by (simp only: uint_mod of_nat_eq_iff)
  finally show ?thesis .
qed

lemma flags_known_iff:
  "f AND NOT (PF_R OR PF_W OR PF_X) = 0 \<longleftrightarrow> unat (f :: u32) < 8"
proof -
  have m: "PF_R OR PF_W OR PF_X = mask 3"
    by (simp add: PF_R_def PF_W_def PF_X_def mask_eq_exp_minus_1)
  have "f AND NOT (mask 3) = 0 \<longleftrightarrow> f AND mask 3 = f"
    using and_not_plus_and [of f "mask 3"] by (metis add_0_left add_cancel_left_left)
  also have "\<dots> \<longleftrightarrow> unat f mod 8 = unat f"
    by (simp add: take_bit_eq_mask [symmetric] word_unat_eq_iff take_bit_eq_mod unat_mod_distrib)
  also have "\<dots> \<longleftrightarrow> unat f < 8" by (metis mod_less mod_less_divisor zero_less_numeral)
  finally show ?thesis by (simp only: m)
qed

lemma flags_wx_iff:
  "f AND (PF_W OR PF_X) = (PF_W OR PF_X) \<longleftrightarrow> bit f 0 \<and> bit (f :: u32) 1"
proof
  assume eq: "f AND (PF_W OR PF_X) = (PF_W OR PF_X)"
  have "bit (f AND (PF_W OR PF_X)) 0" and "bit (f AND (PF_W OR PF_X)) 1"
    unfolding eq by (simp_all add: PF_W_def PF_X_def)
  then show "bit f 0 \<and> bit f 1" by (simp add: bit_simps)
next
  assume b: "bit f 0 \<and> bit f 1"
  have m: "PF_W OR PF_X = mask 2" by (simp add: PF_W_def PF_X_def mask_eq_exp_minus_1)
  show "f AND (PF_W OR PF_X) = (PF_W OR PF_X)"
    unfolding m using b by (intro bit_word_eqI) (auto simp: bit_simps less_2_cases_iff)
qed

lemma flags_x_iff: "f AND PF_X \<noteq> 0 \<longleftrightarrow> bit (f :: u32) 0"
  by (simp add: PF_X_def and_one_eq odd_iff_mod_2_eq_one bit_0)


lemma unat_elf_page_floor: "unat (x AND NOT ELF_PAGE_MASK) = unat x div 4096 * 4096"
proof -
  have mask: "ELF_PAGE_MASK = 4095" by (simp add: ELF_PAGE_MASK_def)
  show ?thesis unfolding mask by (rule unat_and_not_4095)
qed

lemma unat_ELF_PAGE_MASK: "unat ELF_PAGE_MASK = 4095"
  by (simp add: ELF_PAGE_MASK_def)

lemma unat_seg_page_base:
  "unat (seg_page_base (segment_of ph)) = unat (p_paddr ph) div 4096 * 4096"
  by (simp add: segment_of_def unat_elf_page_floor)

lemma unat_seg_page_end:
  assumes "phdr_fits fsz ph"
  shows "unat (seg_page_end (segment_of ph)) =
    (unat (p_paddr ph) + unat (p_memsz ph) + 4095) div 4096 * 4096"
  using assms
  by (simp add: segment_of_def unat_elf_page_floor unat_ELF_PAGE_MASK phdr_fits_def unat_word_ariths)

lemma phdr_policy_word:
  "phdr_policy ph \<longleftrightarrow>
     \<not> p_filesz ph > p_memsz ph \<and>
     \<not> (p_align ph > 1 \<and> (\<not> power_of_two (p_align ph) \<or>
        (p_vaddr ph - p_offset ph) AND (p_align ph - 1) \<noteq> 0)) \<and>
     \<not> p_vaddr ph \<noteq> p_paddr ph \<and>
     \<not> (p_flags ph AND NOT (PF_R OR PF_W OR PF_X) \<noteq> 0 \<or>
        p_flags ph AND (PF_W OR PF_X) = (PF_W OR PF_X))"
proof -
  have "\<not> (p_align ph > 1 \<and> (\<not> power_of_two (p_align ph) \<or>
        (p_vaddr ph - p_offset ph) AND (p_align ph - 1) \<noteq> 0)) \<longleftrightarrow>
      unat (p_align ph) \<le> 1 \<or> (\<exists>k<64. unat (p_align ph) = 2 ^ k \<and>
         unat (p_vaddr ph) mod 2 ^ k = unat (p_offset ph) mod 2 ^ k)"
    by (auto simp: power_of_two_iff and_pred_power_eq_0_iff word_less_nat_alt not_less)
  then show ?thesis
    unfolding phdr_policy_def flags_known_iff flags_wx_iff
    by (auto simp: word_less_nat_alt not_less)
qed

lemma plan_phdr_policy:
  assumes "p_type ph = PT_LOAD" and "phdr_policy ph"
  shows "plan_phdr fsize plan ph =
    (if p_memsz ph = 0 then Inr plan
     else if length (segs plan) = ELF_MAX_SEGMENTS then Inl ELF_ERR_TOO_MANY_SEGS
     else case add_ok (p_offset ph) (p_filesz ph) of
       None \<Rightarrow> Inl ELF_ERR_SEG_OVERFLOW
     | Some file_end \<Rightarrow>
       if file_end > fsize then Inl ELF_ERR_SEG_BOUNDS
       else case add_ok (p_paddr ph) (p_memsz ph) of
         None \<Rightarrow> Inl ELF_ERR_SEG_OVERFLOW
       | Some mem_end \<Rightarrow>
         case add_ok mem_end ELF_PAGE_MASK of
           None \<Rightarrow> Inl ELF_ERR_SEG_OVERFLOW
         | Some rounded \<Rightarrow>
           let seg = (segment_of ph)\<lparr>seg_page_end := rounded AND NOT ELF_PAGE_MASK\<rparr>
           in if list_ex (pages_overlap seg) (segs plan) then Inl ELF_ERR_SEG_OVERLAP
              else Inr (plan_add plan seg))"
proof -
  note 1 = assms(2) [unfolded phdr_policy_word, THEN conjunct1]
  note 2 = assms(2) [unfolded phdr_policy_word, THEN conjunct2, THEN conjunct1]
  note 3 = assms(2) [unfolded phdr_policy_word, THEN conjunct2, THEN conjunct2, THEN conjunct1]
  note 4 = assms(2) [unfolded phdr_policy_word, THEN conjunct2, THEN conjunct2, THEN conjunct2]
  have seg: "\<lparr>seg_paddr = p_paddr ph, seg_page_base = p_paddr ph AND NOT ELF_PAGE_MASK,
      seg_page_end = e, seg_offset = p_offset ph, seg_filesz = p_filesz ph,
      seg_memsz = p_memsz ph, seg_flags = p_flags ph\<rparr> = (segment_of ph)\<lparr>seg_page_end := e\<rparr>" for e
    by (simp add: segment_of_def)
  show ?thesis
    unfolding plan_phdr_def if_not_P [OF 1] if_not_P [OF 2] if_not_P [OF 3] if_not_P [OF 4] seg
    using assms(1) by (simp only: simp_thms if_False)
qed

lemma first_failing_check:
  "\<not> (\<not> c1 \<and> \<not> c2 \<and> \<not> c3 \<and> \<not> c4) \<Longrightarrow>
   \<exists>err. (if c1 then Inl e1 else if c2 then Inl e2 else if c3 then Inl e3
          else if c4 then Inl e4 else r) = Inl err"
  by auto

lemma plan_phdr_no_policy:
  assumes "p_type ph = PT_LOAD" and "\<not> phdr_policy ph"
  shows "\<exists>err. plan_phdr fsize plan ph = Inl err"
proof -
  have load: "(p_type ph \<noteq> PT_LOAD) = False" using assms(1) by simp
  show ?thesis
    unfolding plan_phdr_def load if_False
    by (rule first_failing_check [OF assms(2) [unfolded phdr_policy_word]])
qed

lemma plan_phdr_fits:
  assumes "p_type ph = PT_LOAD" and "phdr_policy ph" and "p_memsz ph \<noteq> 0"
    and "phdr_fits (unat fsize) ph"
  shows "plan_phdr fsize plan ph =
    (if length (segs plan) = ELF_MAX_SEGMENTS then Inl ELF_ERR_TOO_MANY_SEGS
     else if list_ex (pages_overlap (segment_of ph)) (segs plan) then Inl ELF_ERR_SEG_OVERLAP
     else Inr (plan_add plan (segment_of ph)))"
proof -
  have fsz: "unat fsize < 2 ^ 64" by (rule unat_u64_less)
  have off: "add_ok (p_offset ph) (p_filesz ph) = Some (p_offset ph + p_filesz ph)"
    and mem: "add_ok (p_paddr ph) (p_memsz ph) = Some (p_paddr ph + p_memsz ph)"
    using assms(4) fsz by (auto simp: phdr_fits_def add_ok_eq)
  have bound: "\<not> p_offset ph + p_filesz ph > fsize"
    and page: "add_ok (p_paddr ph + p_memsz ph) ELF_PAGE_MASK =
      Some (p_paddr ph + p_memsz ph + ELF_PAGE_MASK)"
    using assms(4) fsz
    by (auto simp: phdr_fits_def add_ok_eq word_less_nat_alt unat_word_ariths unat_ELF_PAGE_MASK)
  have seg: "(segment_of ph)\<lparr>seg_page_end :=
      (p_paddr ph + p_memsz ph + ELF_PAGE_MASK) AND NOT ELF_PAGE_MASK\<rparr> = segment_of ph"
    by (simp add: segment_of_def)
  show ?thesis
    unfolding plan_phdr_policy [OF assms(1,2)] off mem option.case if_not_P [OF bound] page
      Let_def seg if_not_P [OF assms(3)] ..
qed

lemma plan_phdr_no_fit:
  assumes "p_type ph = PT_LOAD" and "phdr_policy ph" and "p_memsz ph \<noteq> 0"
    and "\<not> phdr_fits (unat fsize) ph"
  shows "\<exists>err. plan_phdr fsize plan ph = Inl err"
  using assms(3,4) unfolding plan_phdr_policy [OF assms(1,2)] phdr_fits_def add_ok_eq
  by (auto simp: word_less_nat_alt unat_word_ariths unat_ELF_PAGE_MASK not_le not_less)

lemma plan_phdr_Inr_iff:
  "plan_phdr fsize plan ph = Inr plan' \<longleftrightarrow>
     (p_type ph = PT_LOAD \<longrightarrow> phdr_policy ph) \<and>
     (if phdr_loadable ph
      then length (segs plan) \<noteq> ELF_MAX_SEGMENTS \<and> phdr_fits (unat fsize) ph \<and>
        (\<forall>s\<in>set (segs plan). \<not> pages_overlap (segment_of ph) s) \<and>
        plan' = plan_add plan (segment_of ph)
      else plan' = plan)"
proof (cases "p_type ph = PT_LOAD")
  case False
  then show ?thesis by (auto simp: plan_phdr_def phdr_loadable_def)
next
  case load: True
  show ?thesis
  proof (cases "phdr_policy ph")
    case False
    with load plan_phdr_no_policy [of ph fsize plan] show ?thesis by auto
  next
    case True
    show ?thesis
    proof (cases "p_memsz ph = 0")
      case True
      with load \<open>phdr_policy ph\<close> show ?thesis
        by (auto simp: plan_phdr_policy phdr_loadable_def)
    next
      case mem: False
      show ?thesis
      proof (cases "phdr_fits (unat fsize) ph")
        case True
        with load mem \<open>phdr_policy ph\<close> show ?thesis
          by (auto simp: plan_phdr_fits phdr_loadable_def list_ex_iff)
      next
        case False
        with load mem \<open>phdr_policy ph\<close> plan_phdr_no_fit [of ph fsize plan] show ?thesis
          by (auto simp: phdr_loadable_def)
      qed
    qed
  qed
qed

subsection \<open>The program-header loop\<close>

fun plan_list :: "u64 \<Rightarrow> elf_load_plan \<Rightarrow> Elf64_Phdr list \<Rightarrow> elf_status + elf_load_plan" where
  "plan_list fsize plan [] = Inr plan"
| "plan_list fsize plan (ph # phs) =
     (case plan_phdr fsize plan ph of Inl err \<Rightarrow> Inl err
      | Inr plan' \<Rightarrow> plan_list fsize plan' phs)"

lemma phdr_table_Suc:
  "phdr_table bs phoff i (Suc n) =
     decode_phdr (take sizeof_Phdr (drop (unat phoff + i * sizeof_Phdr) bs)) #
     phdr_table bs phoff (Suc i) n"
  by (simp add: phdr_table_def upt_conv_Cons del: upt_Suc)

lemma plan_phdrs_in_file:
  "unat phoff + (i + n) * sizeof_Phdr \<le> length bs \<Longrightarrow>
   plan_phdrs bs fsize phoff i n plan = Some (plan_list fsize plan (phdr_table bs phoff i n))"
proof (induction n arbitrary: i plan)
  case 0
  then show ?case by (simp add: phdr_table_def)
next
  case (Suc n)
  have "unat phoff + i * sizeof_Phdr + sizeof_Phdr \<le> length bs"
    using Suc.prems by (simp add: algebra_simps)
  then have "read_phdr bs phoff i =
      Some (decode_phdr (take sizeof_Phdr (drop (unat phoff + i * sizeof_Phdr) bs)))"
    by (simp add: read_phdr_def byte_slice_def)
  moreover have "unat phoff + (Suc i + n) * sizeof_Phdr \<le> length bs"
    using Suc.prems by simp
  ultimately show ?case
    by (simp add: phdr_table_Suc Suc.IH split: sum.split)
qed

lemma pages_overlap_sym: "pages_overlap s t \<longleftrightarrow> pages_overlap t s"
  by (auto simp: pages_overlap_def)

lemma segs_disjoint_snoc:
  "segs_disjoint (ss @ [s]) \<longleftrightarrow> segs_disjoint ss \<and> (\<forall>t\<in>set ss. \<not> pages_overlap s t)"
  by (auto simp: segs_disjoint_def sorted_wrt_append pages_overlap_sym [of s])

lemma segs_disjoint_prefix: "segs_disjoint (ss @ ts) \<Longrightarrow> segs_disjoint ss"
  by (simp add: segs_disjoint_def sorted_wrt_append)

lemma segs_plan_add [simp]: "segs (plan_add plan s) = segs plan @ [s]"
  by (simp add: plan_add_def)

lemma segs_foldl_plan_add [simp]: "segs (foldl plan_add plan ss) = segs plan @ ss"
  by (induction ss arbitrary: plan) simp_all

lemma plan_list_Inr_iff:
  assumes "length (segs plan) \<le> ELF_MAX_SEGMENTS" and "segs_disjoint (segs plan)"
  shows "plan_list fsize plan phs = Inr plan' \<longleftrightarrow>
    (\<forall>ph\<in>set phs. p_type ph = PT_LOAD \<longrightarrow> phdr_policy ph) \<and>
    (\<forall>ph\<in>set (filter phdr_loadable phs). phdr_fits (unat fsize) ph) \<and>
    length (segs plan) + length (filter phdr_loadable phs) \<le> ELF_MAX_SEGMENTS \<and>
    segs_disjoint (segs plan @ map segment_of (filter phdr_loadable phs)) \<and>
    plan' = foldl plan_add plan (map segment_of (filter phdr_loadable phs))"
  using assms
proof (induction phs arbitrary: plan)
  case Nil
  then show ?case by auto
next
  case (Cons ph phs)
  show ?case
  proof (cases "phdr_loadable ph")
    case False
    show ?thesis
    proof (cases "p_type ph = PT_LOAD \<longrightarrow> phdr_policy ph")
      case True
      with False have "plan_phdr fsize plan ph = Inr plan" by (simp add: plan_phdr_Inr_iff)
      with Cons.IH [OF Cons.prems] True False show ?thesis by auto
    next
      case bad: False
      then have "plan_phdr fsize plan ph \<noteq> Inr plan1" for plan1
        by (simp add: plan_phdr_Inr_iff)
      then obtain err where "plan_phdr fsize plan ph = Inl err"
        by (cases "plan_phdr fsize plan ph") auto
      with bad show ?thesis by auto
    qed
  next
    case load: True
    let ?plan = "plan_add plan (segment_of ph)"
    have rest: "length (segs plan) + length (filter phdr_loadable (ph # phs)) \<le> ELF_MAX_SEGMENTS \<Longrightarrow>
      length (segs plan) \<noteq> ELF_MAX_SEGMENTS" using load by auto
    show ?thesis
    proof (cases "plan_phdr fsize plan ph")
      case (Inl err)
      then have "plan_phdr fsize plan ph \<noteq> Inr ?plan" by simp
      then have "\<not> ((p_type ph = PT_LOAD \<longrightarrow> phdr_policy ph) \<and>
          length (segs plan) \<noteq> ELF_MAX_SEGMENTS \<and> phdr_fits (unat fsize) ph \<and>
          segs_disjoint (segs plan @ [segment_of ph]))"
        using load Cons.prems(2) unfolding plan_phdr_Inr_iff segs_disjoint_snoc by simp
      moreover have "segs_disjoint (segs plan @ map segment_of (filter phdr_loadable (ph # phs))) \<Longrightarrow>
          segs_disjoint (segs plan @ [segment_of ph])"
        using load segs_disjoint_prefix [of "segs plan @ [segment_of ph]"] by simp
      ultimately show ?thesis using Inl rest load by auto
    next
      case (Inr plan1)
      then have ok: "p_type ph = PT_LOAD \<longrightarrow> phdr_policy ph"
        "length (segs plan) \<noteq> ELF_MAX_SEGMENTS" "phdr_fits (unat fsize) ph"
        "\<forall>s\<in>set (segs plan). \<not> pages_overlap (segment_of ph) s" "plan1 = ?plan"
        using load by (simp_all add: plan_phdr_Inr_iff)
      have "length (segs ?plan) \<le> ELF_MAX_SEGMENTS" and "segs_disjoint (segs ?plan)"
        using ok Cons.prems by (auto simp: segs_disjoint_snoc)
      from Cons.IH [OF this] Inr ok load show ?thesis by auto
    qed
  qed
qed

subsection \<open>Header, entry and span checks\<close>

lemma check_ehdr_OK_iff:
  "check_ehdr fsize eh = ELF_OK \<longleftrightarrow> header_ok (unat fsize) eh"
proof -
  have fsz: "unat fsize < 2 ^ 64" by (rule unat_u64_less)
  have num: "unat (e_phnum eh) < 2 ^ 16" by (rule unat_u16_less)
  then have mul: "unat (ucast (e_phnum eh) * of_nat sizeof_Phdr :: u64) = unat (e_phnum eh) * 56"
    by (simp add: sizeof_Phdr_def unat_word_ariths unat_ucast_16_64)
  show ?thesis
  proof (cases "unat (e_phoff eh) + unat (e_phnum eh) * 56 < 2 ^ 64")
    case True
    then have "add_ok (e_phoff eh) (ucast (e_phnum eh) * of_nat sizeof_Phdr) =
        Some (e_phoff eh + ucast (e_phnum eh) * of_nat sizeof_Phdr)"
      by (simp only: add_ok_eq mul if_True)
    moreover have "unat (e_phoff eh + ucast (e_phnum eh) * of_nat sizeof_Phdr) =
        unat (e_phoff eh) + unat (e_phnum eh) * 56"
      using True by (subst unat_word_ariths) (simp add: mul)
    ultimately show ?thesis
      by (auto simp: check_ehdr_def header_ok_def sizeof_Ehdr_def sizeof_Phdr_def word_less_nat_alt
          not_less unat_gt_0)
  next
    case False
    then have "add_ok (e_phoff eh) (ucast (e_phnum eh) * of_nat sizeof_Phdr) = None"
      by (simp only: add_ok_None_iff mul not_less)
    with False fsz show ?thesis
      by (auto simp: check_ehdr_def header_ok_def)
  qed
qed

lemma check_entry_OK_iff:
  assumes "\<forall>s\<in>set ss. unat (seg_paddr s) + unat (seg_filesz s) < 2 ^ 64"
  shows "check_entry entry ss = ELF_OK \<longleftrightarrow>
    (\<exists>s\<in>set ss. bit (seg_flags s) 0 \<and> unat (seg_paddr s) \<le> unat entry \<and>
       unat entry < unat (seg_paddr s) + unat (seg_filesz s))"
  using assms
proof (induction ss)
  case (Cons s ss)
  then have "add_ok (seg_paddr s) (seg_filesz s) = Some (seg_paddr s + seg_filesz s)"
    and "unat (seg_paddr s + seg_filesz s) = unat (seg_paddr s) + unat (seg_filesz s)"
    by (simp_all add: add_ok_eq unat_word_ariths)
  with Cons show ?case by (auto simp: flags_x_iff word_less_nat_alt word_le_nat_alt)
qed simp

lemma phys_end_foldl: "phys_end (foldl plan_add plan ss) =
    foldl max (phys_end plan) (map seg_page_end ss)"
  by (induction ss arbitrary: plan) (auto simp: plan_add_def max_def)

lemma phys_base_foldl: "phys_base (foldl plan_add plan ss) =
    foldl min (phys_base plan) (map seg_page_base ss)"
  by (induction ss arbitrary: plan) (auto simp: plan_add_def min_def)

lemma plan_phys_end: "ss \<noteq> [] \<Longrightarrow>
  phys_end (foldl plan_add plan_init ss) = Max (seg_page_end ` set ss)"
  by (simp add: phys_end_foldl foldl_max_Max plan_init_def)

lemma plan_phys_base: "ss \<noteq> [] \<Longrightarrow>
  phys_base (foldl plan_add plan_init ss) = Min (seg_page_base ` set ss)"
proof -
  assume "ss \<noteq> []"
  have "x \<le> UINT64_MAX" for x
    using unat_u64_less [of x] by (simp add: word_le_nat_alt unat_UINT64_MAX)
  with \<open>ss \<noteq> []\<close> show ?thesis
    by (simp add: phys_base_foldl foldl_min_Min plan_init_def min_absorb2)
qed

lemma plan_span_iff:
  assumes "phs \<noteq> []" and "\<forall>ph\<in>set phs. phdr_fits fsz ph"
  shows "phys_end (foldl plan_add plan_init (map segment_of phs)) -
      phys_base (foldl plan_add plan_init (map segment_of phs)) > ELF_MAX_KERNEL_SPAN \<longleftrightarrow>
    \<not> (\<forall>p\<in>set phs. \<forall>q\<in>set phs. page_hi p * 4096 \<le> page_lo q * 4096 + 256 * 1024 * 1024)"
proof -
  let ?E = "(\<lambda>ph. seg_page_end (segment_of ph)) ` set phs"
  let ?B = "(\<lambda>ph. seg_page_base (segment_of ph)) ` set phs"
  let ?plan = "foldl plan_add plan_init (map segment_of phs)"
  have mono: "mono (unat :: u64 \<Rightarrow> nat)" by (simp add: mono_def word_le_nat_alt)
  have e: "phys_end ?plan = Max ?E" and b: "phys_base ?plan = Min ?B"
    using assms(1) plan_phys_end [of "map segment_of phs"] plan_phys_base [of "map segment_of phs"]
    by (simp_all add: image_image)
  have ue: "unat (Max ?E) = Max (unat ` ?E)" and ub: "unat (Min ?B) = Min (unat ` ?B)"
    using assms(1) mono by (simp_all add: mono_Max_commute mono_Min_commute)
  have E: "unat ` ?E = (\<lambda>ph. page_hi ph * 4096) ` set phs"
    using assms(2) by (force simp: image_image page_hi_def unat_seg_page_end)
  have B: "unat ` ?B = (\<lambda>ph. page_lo ph * 4096) ` set phs"
    by (simp add: image_image page_lo_def unat_seg_page_base)
  obtain ph where ph: "ph \<in> set phs" using assms(1) by (cases phs) auto
  have "Min (unat ` ?B) \<le> page_lo ph * 4096" unfolding B using ph by simp
  also have "\<dots> \<le> page_hi ph * 4096" by (simp add: page_lo_def page_hi_def div_le_mono)
  also have "\<dots> \<le> Max (unat ` ?E)" unfolding E using ph by simp
  finally have "Min (unat ` ?B) \<le> Max (unat ` ?E)" .
  then have "unat (phys_end ?plan - phys_base ?plan) = Max (unat ` ?E) - Min (unat ` ?B)"
    by (simp add: e b unat_sub word_le_nat_alt ue ub)
  then have "phys_end ?plan - phys_base ?plan > ELF_MAX_KERNEL_SPAN \<longleftrightarrow>
      \<not> Max (unat ` ?E) \<le> Min (unat ` ?B) + 256 * 1024 * 1024"
    by (simp add: word_less_nat_alt ELF_MAX_KERNEL_SPAN_def) arith
  also have "Max (unat ` ?E) \<le> Min (unat ` ?B) + 256 * 1024 * 1024 \<longleftrightarrow>
      (\<forall>a\<in>unat ` ?E. \<forall>b\<in>unat ` ?B. a \<le> b + 256 * 1024 * 1024)"
    using assms(1) by (intro Max_le_Min_plus_iff) auto
  finally show ?thesis unfolding E B by auto
qed

lemma segs_disjoint_map_iff:
  assumes "\<forall>ph\<in>set phs. phdr_fits fsz ph"
  shows "segs_disjoint (map segment_of phs) \<longleftrightarrow> sorted_wrt pages_apart phs"
proof -
  have apart: "\<not> pages_overlap (segment_of p) (segment_of q) \<longleftrightarrow> pages_apart p q"
    if "p \<in> set phs" "q \<in> set phs" for p q
  proof -
    have "phdr_fits fsz p" and "phdr_fits fsz q" using that assms by auto
    then show ?thesis
      by (simp add: pages_overlap_def pages_apart_def word_less_nat_alt unat_seg_page_base
          unat_seg_page_end [of fsz] page_lo_def page_hi_def not_less) blast
  qed
  show ?thesis
    unfolding segs_disjoint_def sorted_wrt_map
  proof
    show "sorted_wrt pages_apart phs"
      if "sorted_wrt (\<lambda>p q. \<not> pages_overlap (segment_of p) (segment_of q)) phs"
      using that by (rule sorted_wrt_mono_rel [rotated]) (simp add: apart)
    show "sorted_wrt (\<lambda>p q. \<not> pages_overlap (segment_of p) (segment_of q)) phs"
      if "sorted_wrt pages_apart phs"
      using that by (rule sorted_wrt_mono_rel [rotated]) (simp add: apart)
  qed
qed

subsection \<open>A small image\<close>

text \<open>
  One R+X segment of four file bytes (\<^verbatim>\<open>cli; cld; hlt; hlt\<close>) at 4 MiB with a page of memory,
  built as \<^verbatim>\<open>tests/unit/test_elf.c\<close> builds its images.
\<close>

definition example_ehdr_bytes :: "u8 list" where
  "example_ehdr_bytes =
     [0x7f, 0x45, 0x4c, 0x46, 2, 1, 1, 0, 0, 0, 0, 0, 0, 0, 0, 0,
      2, 0, 62, 0, 1, 0, 0, 0,
      0, 0, 0x40, 0, 0, 0, 0, 0, 
      64, 0, 0, 0, 0, 0, 0, 0,
      0, 0, 0, 0, 0, 0, 0, 0,
      0, 0, 0, 0, 64, 0, 56, 0, 1, 0, 0, 0, 0, 0, 0, 0]"

definition example_phdr_bytes :: "u8 list" where
  "example_phdr_bytes =
     [1, 0, 0, 0, 5, 0, 0, 0,
      120, 0, 0, 0, 0, 0, 0, 0,
      0, 0, 0x40, 0, 0, 0, 0, 0,
      0, 0, 0x40, 0, 0, 0, 0, 0,
      4, 0, 0, 0, 0, 0, 0, 0,
      0, 0x10, 0, 0, 0, 0, 0, 0,
      1, 0, 0, 0, 0, 0, 0, 0]"

definition example_image :: "u8 list" where
  "example_image = example_ehdr_bytes @ example_phdr_bytes @ [0xfa, 0xfc, 0xf4, 0xf4]"

lemma example_ehdr: "decode_ehdr example_ehdr_bytes = \<lparr>
     e_magic = ELF_MAGIC, e_class = 2, e_data = 1, e_iversion = 1, e_osabi = 0, e_abiversion = 0, 
     e_pad = [0, 0, 0, 0, 0, 0, 0], e_type = 2, e_machine = 62, e_version = 1, e_entry = 0x400000,
     e_phoff = 64, e_shoff = 0, e_flags = 0, e_ehsize = 64, e_phentsize = 56, e_phnum = 1,
     e_shentsize = 0, e_shnum = 0, e_shstrndx = 0\<rparr>"
  by (simp add: decode_ehdr_def example_ehdr_bytes_def field_at_def ELF_MAGIC_def)

lemma example_phdr: "decode_phdr example_phdr_bytes = \<lparr>
     p_type = 1, p_flags = 5, p_offset = 120, p_vaddr = 0x400000, p_paddr = 0x400000,
     p_filesz = 4, p_memsz = 0x1000, p_align = 1\<rparr>"
  by (simp add: decode_phdr_def example_phdr_bytes_def field_at_def)


lemma example_header: "image_header example_image = decode_ehdr example_ehdr_bytes"
  by (simp add: image_header_def example_image_def sizeof_Ehdr_def example_ehdr_bytes_def)

lemma example_phdrs: "image_phdrs example_image = [decode_phdr example_phdr_bytes]"
proof -
  have "take 56 (drop 64 example_image) = example_phdr_bytes"
    by (simp add: example_image_def example_ehdr_bytes_def example_phdr_bytes_def)
  then show ?thesis
    by (simp add: image_phdrs_def example_header example_ehdr phdr_table_def sizeof_Phdr_def)
qed

lemma example_valid: "valid_kernel_image example_image"
proof -
  have L: "load_phdrs example_image = [decode_phdr example_phdr_bytes]"
    by (simp add: load_phdrs_def example_phdrs phdr_loadable_def example_phdr PT_LOAD_def)
  have pol: "phdr_policy (decode_phdr example_phdr_bytes)"
    by (simp add: phdr_policy_def example_phdr bit_1_iff bit_numeral_rec)
  have len: "length example_image = 124"
    by (simp add: example_image_def example_ehdr_bytes_def example_phdr_bytes_def)
  show ?thesis
    unfolding valid_kernel_image_def L
    using pol
    by (simp add: len header_ok_def example_header example_ehdr example_phdrs example_phdr phdr_fits_def
        page_hi_def page_lo_def ELFCLASS64_def ELFDATA2LSB_def EV_CURRENT_def EM_X86_64_def ET_EXEC_def
        bit_1_iff bit_numeral_rec)
qed

lemma example_length: "length example_image = 124"
  by (simp add: example_image_def example_ehdr_bytes_def example_phdr_bytes_def)

subsection \<open>Properties of the validator\<close>

lemma elf_plan_load_after_header:
  assumes "length bs = unat fsize" and "64 \<le> length bs"
    and "check_ehdr fsize (image_header bs) = ELF_OK"
  shows "elf_plan_load bs fsize =
    (case plan_list fsize plan_init (image_phdrs bs) of
       Inl err \<Rightarrow> Some (Inl err)
     | Inr plan \<Rightarrow>
       if segs plan = [] then Some (Inl ELF_ERR_NO_SEGMENTS)
       else if phys_end plan - phys_base plan > ELF_MAX_KERNEL_SPAN then Some (Inl ELF_ERR_TOO_BIG)
       else let st = check_entry (e_entry (image_header bs)) (segs plan) in
         if st = ELF_OK then Some (Inr (plan\<lparr>plan_entry := e_entry (image_header bs)\<rparr>))
         else Some (Inl st))"
proof -
  let ?eh = "image_header bs"
  have len: "\<not> fsize < of_nat sizeof_Ehdr"
    and hdr: "byte_slice bs 0 sizeof_Ehdr = Some (take sizeof_Ehdr bs)"
    using assms by (simp_all add: word_less_nat_alt sizeof_Ehdr_def byte_slice_def)
  have "plan_phdrs bs fsize (e_phoff ?eh) 0 (unat (e_phnum ?eh)) plan_init =
      Some (plan_list fsize plan_init (image_phdrs bs))"
    unfolding image_phdrs_def using assms
    by (intro plan_phdrs_in_file) (simp add: check_ehdr_OK_iff header_ok_def sizeof_Phdr_def)
  then show ?thesis
    unfolding elf_plan_load_def using len assms(3)
    by (simp add: hdr Let_def image_header_def [symmetric] del: check_entry.simps split: sum.split)
qed

lemma elf_plan_load_accepts:
  assumes "length bs = unat fsize"
  shows "elf_plan_load bs fsize = Some (Inr plan) \<longleftrightarrow>
    valid_kernel_image bs \<and> plan = image_plan bs"
proof (cases "64 \<le> length bs \<and> header_ok (length bs) (image_header bs)")
  case False
  then show ?thesis
    using assms
    by (auto simp: elf_plan_load_def valid_kernel_image_def byte_slice_def sizeof_Ehdr_def
        word_less_nat_alt check_ehdr_OK_iff image_header_def Let_def split: if_splits)
next
  case True
  let ?eh = "image_header bs"
  let ?phs = "image_phdrs bs"
  let ?L = "load_phdrs bs"
  let ?plan = "foldl plan_add plan_init (map segment_of ?L)"
  let ?rest = "case plan_list fsize plan_init ?phs of
       Inl err \<Rightarrow> Some (Inl err)
     | Inr plan \<Rightarrow>
       if segs plan = [] then Some (Inl ELF_ERR_NO_SEGMENTS)
       else if phys_end plan - phys_base plan > ELF_MAX_KERNEL_SPAN then Some (Inl ELF_ERR_TOO_BIG)
       else let st = check_entry (e_entry ?eh) (segs plan) in
         if st = ELF_OK then Some (Inr (plan\<lparr>plan_entry := e_entry ?eh\<rparr>))
         else Some (Inl st)"
  have "elf_plan_load bs fsize = ?rest"
    using True assms by (intro elf_plan_load_after_header) (simp_all add: check_ehdr_OK_iff)
  also have "?rest = Some (Inr plan) \<longleftrightarrow>
      (\<exists>p. plan_list fsize plan_init ?phs = Inr p \<and> segs p \<noteq> [] \<and>
        \<not> phys_end p - phys_base p > ELF_MAX_KERNEL_SPAN \<and>
        check_entry (e_entry ?eh) (segs p) = ELF_OK \<and>
        plan = p\<lparr>plan_entry := e_entry ?eh\<rparr>)"
    by (auto simp: Let_def split: sum.splits if_splits)
  also have "\<dots> \<longleftrightarrow> valid_kernel_image bs \<and> plan = image_plan bs"
  proof -
    have pl: "plan_list fsize plan_init ?phs = Inr p \<longleftrightarrow>
        (\<forall>ph\<in>set ?phs. p_type ph = PT_LOAD \<longrightarrow> phdr_policy ph) \<and>
        (\<forall>ph\<in>set ?L. phdr_fits (length bs) ph) \<and> length ?L \<le> 16 \<and>
        segs_disjoint (map segment_of ?L) \<and> p = ?plan" for p
      by (subst plan_list_Inr_iff)
         (simp_all add: plan_init_def load_phdrs_def assms ELF_MAX_SEGMENTS_def segs_disjoint_def)
    have fin: "segs ?plan \<noteq> [] \<and> \<not> phys_end ?plan - phys_base ?plan > ELF_MAX_KERNEL_SPAN \<and>
        check_entry (e_entry ?eh) (segs ?plan) = ELF_OK \<longleftrightarrow>
        ?L \<noteq> [] \<and>
        (\<forall>p\<in>set ?L. \<forall>q\<in>set ?L. page_hi p * 4096 \<le> page_lo q * 4096 + 256 * 1024 * 1024) \<and>
        (\<exists>p\<in>set ?L. bit (p_flags p) 0 \<and> unat (p_paddr p) \<le> unat (e_entry ?eh) \<and>
          unat (e_entry ?eh) < unat (p_paddr p) + unat (p_filesz p))"
      if fits: "\<forall>ph\<in>set ?L. phdr_fits (length bs) ph" and pol: "\<forall>ph\<in>set ?phs. p_type ph = PT_LOAD \<longrightarrow> phdr_policy ph"
    proof (cases "?L = []")
      case False
      have "unat (p_paddr ph) + unat (p_filesz ph) < 2 ^ 64" if "ph \<in> set ?L" for ph
      proof -
        have "phdr_fits (length bs) ph" using that fits by blast
        moreover have "phdr_policy ph"
          using that pol by (auto simp: load_phdrs_def phdr_loadable_def)
        ultimately show ?thesis by (auto simp: phdr_fits_def phdr_policy_def)
      qed
      then have "check_entry (e_entry ?eh) (map segment_of ?L) = ELF_OK \<longleftrightarrow>
         (\<exists>p\<in>set ?L. bit (p_flags p) 0 \<and> unat (p_paddr p) \<le> unat (e_entry ?eh) \<and>
          unat (e_entry ?eh) < unat (p_paddr p) + unat (p_filesz p))"
        by (subst check_entry_OK_iff) (auto simp: segment_of_def)
      with False plan_span_iff [OF False fits] show ?thesis by (simp add: plan_init_def)
    qed (simp add: plan_init_def)
    show ?thesis
      using True fin segs_disjoint_map_iff [of ?L "length bs"]
      unfolding pl valid_kernel_image_def image_plan_def by blast
  qed
  finally show ?thesis .
qed

text \<open>
  C6: The validator decides its specification.  On a file of \<open>fsize\<close> bytes, \<open>elf_plan_load\<close> returns
  \<^verbatim>\<open>ELF_OK\<close> exactly when every header field, program-header policy, file range, page-rounded
  physical range (with no 64-bit wrap), pairwise page disjointness, the 256 MiB span and the
  file-backed executable entry of \<open>valid_kernel_image\<close> hold, and the plan is then the one those
  headers determine.
\<close>

theorem elf_plan_load_iff:
  assumes "length bs = unat fsize"
  shows "elf_plan_load bs fsize = Some (Inr plan) \<longleftrightarrow>
    valid_kernel_image bs \<and> plan = image_plan bs"
  using assms by (rule elf_plan_load_accepts)

theorem elf_plan_load_iff_witness:
  "elf_plan_load example_image 124 = Some (Inr (image_plan example_image))"
proof -
  have "length example_image = unat (124 :: u64)" by (simp add: example_length)
  from elf_plan_load_iff [OF this, of "image_plan example_image"] example_valid
  show ?thesis by simp
qed

lemma elf_plan_load_in_file_aux:
  assumes "length bs = unat fsize"
  shows "elf_plan_load bs fsize \<noteq> None"
proof (cases "64 \<le> length bs \<and> check_ehdr fsize (image_header bs) = ELF_OK")
  case True
  with elf_plan_load_after_header [OF assms] show ?thesis
    by (simp add: Let_def del: check_entry.simps split: sum.split)
next
  case False
  with assms show ?thesis
    by (auto simp: elf_plan_load_def byte_slice_def Let_def image_header_def sizeof_Ehdr_def
        word_less_nat_alt)
qed

text \<open>
  C22: Reads stay inside \<^verbatim>\<open>[file, file + fsize)\<close>.  Whatever the bytes, no header read and no
  program-header read of the validator falls outside the file.
\<close>

theorem elf_plan_load_in_file:
  assumes "length bs = unat fsize"
  shows "\<exists>res. elf_plan_load bs fsize = Some res"
  using elf_plan_load_in_file_aux [OF assms] by simp

theorem elf_plan_load_in_file_witness:
  "\<exists>res. elf_plan_load [0x7f, 0x45, 0x4c] 3 = Some res"
  by (rule elf_plan_load_in_file) simp

lemma segment_wf_of:
  assumes "phdr_fits fsz ph" and "phdr_policy ph" and "p_memsz ph \<noteq> 0"
  shows "segment_wf fsz (segment_of ph)"
proof -
  have "unat (p_paddr ph) + unat (p_memsz ph) \<le>
      (unat (p_paddr ph) + unat (p_memsz ph) + 4095) div 4096 * 4096" by arith
  then show ?thesis
    using assms unfolding segment_wf_def unat_seg_page_base unat_seg_page_end [OF assms(1)]
    by (simp add: segment_of_def phdr_policy_def phdr_fits_def unat_gt_0)
qed

lemma image_plan_wf_aux:
  assumes "valid_kernel_image bs"
  shows "plan_wf (length bs) (image_plan bs)"
proof -
  let ?L = "load_phdrs bs"
  let ?plan = "foldl plan_add plan_init (map segment_of ?L)"
  have L: "?L \<noteq> []" and fits: "\<forall>ph\<in>set ?L. phdr_fits (length bs) ph"
    using assms by (auto simp: valid_kernel_image_def)
  have segs: "segs (image_plan bs) = map segment_of ?L"
    by (simp add: image_plan_def plan_init_def)
  have "\<forall>ph\<in>set ?L. segment_wf (length bs) (segment_of ph)"
  proof
    fix ph assume ph: "ph \<in> set ?L"
    then have "phdr_policy ph" and "p_memsz ph \<noteq> 0"
      using assms by (auto simp: valid_kernel_image_def load_phdrs_def phdr_loadable_def)
    with ph fits show "segment_wf (length bs) (segment_of ph)" by (blast intro: segment_wf_of)
  qed
  moreover have "segs_disjoint (map segment_of ?L)"
    using assms segs_disjoint_map_iff [OF fits] by (simp add: valid_kernel_image_def)
  moreover have span: "\<forall>ph\<in>set ?L. phys_base ?plan \<le> seg_page_base (segment_of ph) \<and>
      seg_page_end (segment_of ph) \<le> phys_end ?plan"
    using L by (auto simp: plan_phys_end plan_phys_base)
  moreover have "unat (phys_end ?plan) \<le> unat (phys_base ?plan) + 256 * 1024 * 1024"
  proof -
    have "\<not> phys_end ?plan - phys_base ?plan > ELF_MAX_KERNEL_SPAN"
      using assms plan_span_iff [OF L fits] by (simp add: valid_kernel_image_def)
    then have le: "unat (phys_end ?plan - phys_base ?plan) \<le> 256 * 1024 * 1024"
      by (simp add: word_less_nat_alt ELF_MAX_KERNEL_SPAN_def not_less)
    then show ?thesis by (cases "phys_base ?plan \<le> phys_end ?plan")
      (auto simp: word_le_nat_alt unat_sub)
  qed
  moreover have "\<exists>ph\<in>set ?L. bit (seg_flags (segment_of ph)) 0 \<and>
      unat (seg_paddr (segment_of ph)) \<le> unat (e_entry (image_header bs)) \<and>
      unat (e_entry (image_header bs)) <
        unat (seg_paddr (segment_of ph)) + unat (seg_filesz (segment_of ph))"
    using assms by (auto simp: valid_kernel_image_def segment_of_def)
  ultimately show ?thesis
    using assms unfolding plan_wf_def segs by (auto simp: image_plan_def valid_kernel_image_def)
qed

text \<open>
  C7: Every accepted plan is well formed: 1 to 16 segments, each page-rounded outward around its
  non-empty memory range, its file range inside the file, never writable and executable, no two
  sharing a page, all inside \<^verbatim>\<open>[phys_base, phys_end)\<close> of at most 256 MiB, and the entry in
  file-backed bytes of an executable segment.
\<close>

theorem elf_plan_load_wf:
  assumes "length bs = unat fsize" and "elf_plan_load bs fsize = Some (Inr plan)"
  shows "plan_wf (length bs) plan"
  using elf_plan_load_accepts [OF assms(1), of plan] assms(2) image_plan_wf_aux [of bs] by simp

theorem elf_plan_load_wf_witness:
  "plan_wf 124 (image_plan example_image)"
proof -
  have len: "length example_image = unat (124 :: u64)" by (simp add: example_length)
  from elf_plan_load_wf [OF len] elf_plan_load_accepts [OF len] example_valid
  show ?thesis by (simp add: example_length)
qed

subsection \<open>Rejections name a true cause\<close>

lemma plan_list_Inl_split:
  "plan_list fsize plan phs = Inl st \<Longrightarrow>
   \<exists>pre ph post plan1. phs = pre @ ph # post \<and> plan_list fsize plan pre = Inr plan1 \<and>
     plan_phdr fsize plan1 ph = Inl st"
proof (induction phs arbitrary: plan)
  case (Cons ph phs)
  show ?case
  proof (cases "plan_phdr fsize plan ph")
    case (Inl e)
    with Cons.prems have "ph # phs = [] @ ph # phs \<and> plan_list fsize plan [] = Inr plan \<and>
        plan_phdr fsize plan ph = Inl st" by simp
    then show ?thesis by blast
  next
    case (Inr plan2)
    with Cons.prems have "plan_list fsize plan2 phs = Inl st" by simp
    from Cons.IH [OF this] obtain pre p post plan1 where
      "phs = pre @ p # post" "plan_list fsize plan2 pre = Inr plan1" "plan_phdr fsize plan1 p = Inl st"
      by blast
    with Inr have "ph # phs = (ph # pre) @ p # post \<and> plan_list fsize plan (ph # pre) = Inr plan1 \<and>
        plan_phdr fsize plan1 p = Inl st" by simp
    then show ?thesis by blast
  qed
qed simp

lemma plan_phdr_policy_cause:
  assumes "plan_phdr fsize plan ph = Inl st" and "p_type ph = PT_LOAD" and "\<not> phdr_policy ph"
  shows "st = ELF_ERR_SEG_SIZES \<and> unat (p_memsz ph) < unat (p_filesz ph) \<or>
    st = ELF_ERR_SEG_ALIGN \<and> 1 < unat (p_align ph) \<and> (\<forall>k<64. unat (p_align ph) = 2 ^ k \<longrightarrow>
      unat (p_vaddr ph) mod 2 ^ k \<noteq> unat (p_offset ph) mod 2 ^ k) \<or>
    st = ELF_ERR_SEG_VADDR \<and> p_vaddr ph \<noteq> p_paddr ph \<or>
    st = ELF_ERR_SEG_FLAGS \<and> (8 \<le> unat (p_flags ph) \<or> bit (p_flags ph) 0 \<and> bit (p_flags ph) 1)"
proof -
  have align: "p_align ph > 1 \<and> (\<not> power_of_two (p_align ph) \<or>
        (p_vaddr ph - p_offset ph) AND (p_align ph - 1) \<noteq> 0) \<longleftrightarrow>
      1 < unat (p_align ph) \<and> (\<forall>k<64. unat (p_align ph) = 2 ^ k \<longrightarrow>
         unat (p_vaddr ph) mod 2 ^ k \<noteq> unat (p_offset ph) mod 2 ^ k)"
    by (auto simp: power_of_two_iff and_pred_power_eq_0_iff word_less_nat_alt)
  have flags: "p_flags ph AND NOT (PF_R OR PF_W OR PF_X) \<noteq> 0 \<or>
       p_flags ph AND (PF_W OR PF_X) = (PF_W OR PF_X) \<longleftrightarrow>
     8 \<le> unat (p_flags ph) \<or> bit (p_flags ph) 0 \<and> bit (p_flags ph) 1"
    unfolding flags_known_iff flags_wx_iff by auto
  have load: "(p_type ph \<noteq> PT_LOAD) = False" using assms(2) by simp
  show ?thesis
    using assms(1,3) unfolding phdr_policy_word plan_phdr_def align flags load if_False
    by (simp only: word_less_nat_alt split: if_splits) blast+
qed

lemma plan_phdr_place_cause:
  assumes "plan_phdr fsize plan ph = Inl st" and "p_type ph = PT_LOAD" and "phdr_policy ph"
  shows "phdr_loadable ph \<and>
   (st = ELF_ERR_TOO_MANY_SEGS \<and> length (segs plan) = ELF_MAX_SEGMENTS \<or>
    st = ELF_ERR_SEG_OVERFLOW \<and> (2 ^ 64 \<le> unat (p_offset ph) + unat (p_filesz ph) \<or>
        2 ^ 64 \<le> unat (p_paddr ph) + unat (p_memsz ph) + 4095) \<or>
    st = ELF_ERR_SEG_BOUNDS \<and> unat fsize < unat (p_offset ph) + unat (p_filesz ph) \<or>
    st = ELF_ERR_SEG_OVERLAP \<and> phdr_fits (unat fsize) ph \<and>
      (\<exists>s\<in>set (segs plan). pages_overlap (segment_of ph) s))"
proof -
  have mem: "p_memsz ph \<noteq> 0"
    using assms by (auto simp: plan_phdr_policy)
  then have load: "phdr_loadable ph" using assms(2) by (simp add: phdr_loadable_def)
  show ?thesis
  proof (cases "phdr_fits (unat fsize) ph")
    case True
    with assms mem load show ?thesis
      by (auto simp: plan_phdr_fits list_ex_iff split: if_splits)
  next
    case False
    with assms(1) mem load show ?thesis
      unfolding plan_phdr_policy [OF assms(2,3)] phdr_fits_def add_ok_eq
      by (auto simp: word_less_nat_alt unat_word_ariths unat_ELF_PAGE_MASK not_le not_less
          split: if_splits)
  qed
qed

lemma plan_list_cause:
  assumes "plan_list fsize plan_init (image_phdrs bs) = Inl st" and "length bs = unat fsize"
  shows "elf_cause bs st"
proof -
  obtain pre ph post plan where split: "image_phdrs bs = pre @ ph # post"
    and pre: "plan_list fsize plan_init pre = Inr plan" and ph: "plan_phdr fsize plan ph = Inl st"
    using plan_list_Inl_split [OF assms(1)] by blast
  let ?L = "filter phdr_loadable pre"
  have fits: "\<forall>p\<in>set ?L. phdr_fits (length bs) p" and segs: "segs plan = map segment_of ?L"
    using pre by (subst (asm) plan_list_Inr_iff; simp add: plan_init_def segs_disjoint_def assms(2))+
  have type: "p_type ph = PT_LOAD"
    using ph by (auto simp: plan_phdr_def split: if_splits)
  have mem: "ph \<in> set (image_phdrs bs)" using split by simp
  show ?thesis
  proof (cases "phdr_policy ph")
    case False
    from plan_phdr_policy_cause [OF ph type this] mem type show ?thesis
      by (elim disjE) auto
  next
    case True
    from plan_phdr_place_cause [OF ph type True] have load: "phdr_loadable ph" by blast
    then have L: "load_phdrs bs = ?L @ ph # filter phdr_loadable post"
      by (simp add: load_phdrs_def split)
    have overlap: "\<not> sorted_wrt pages_apart (load_phdrs bs)"
      if "phdr_fits (length bs) ph" "\<exists>s\<in>set (segs plan). pages_overlap (segment_of ph) s"
    proof
      assume "sorted_wrt pages_apart (load_phdrs bs)"
      then have "sorted_wrt pages_apart (?L @ [ph])" by (simp add: L sorted_wrt_append)
      then have "segs_disjoint (map segment_of (?L @ [ph]))"
        using fits that(1) by (subst segs_disjoint_map_iff [where fsz = "length bs"]) auto
      then show False using that(2) by (simp add: segs_disjoint_snoc segs)
    qed
    have in_L: "ph \<in> set (load_phdrs bs)" by (simp add: L)
    from plan_phdr_place_cause [OF ph type True] consider
        "st = ELF_ERR_TOO_MANY_SEGS" "length (segs plan) = ELF_MAX_SEGMENTS"
      | "st = ELF_ERR_SEG_OVERFLOW" "2 ^ 64 \<le> unat (p_offset ph) + unat (p_filesz ph) \<or>
          2 ^ 64 \<le> unat (p_paddr ph) + unat (p_memsz ph) + 4095"
      | "st = ELF_ERR_SEG_BOUNDS" "unat fsize < unat (p_offset ph) + unat (p_filesz ph)"
      | "st = ELF_ERR_SEG_OVERLAP" "phdr_fits (unat fsize) ph"
          "\<exists>s\<in>set (segs plan). pages_overlap (segment_of ph) s"
      by blast
    then show ?thesis
    proof cases
      case 4
      then have "\<not> sorted_wrt pages_apart (load_phdrs bs)" using assms(2) by (intro overlap) simp_all
      with 4 show ?thesis by simp
    qed (use in_L assms(2) in \<open>auto simp: segs L ELF_MAX_SEGMENTS_def\<close>)
  qed
qed

lemma check_ehdr_cause:
  assumes "check_ehdr fsize (image_header bs) = st" and "st \<noteq> ELF_OK" and "length bs = unat fsize"
  shows "elf_cause bs st"
proof (cases "e_phnum (image_header bs) = 0")
  case True
  then have "load_phdrs bs = []"
    by (simp add: load_phdrs_def image_phdrs_def phdr_table_def)
  with True assms(1,2) show ?thesis
    by (auto simp: check_ehdr_def sizeof_Ehdr_def sizeof_Phdr_def split: if_splits option.splits)
next
  case False
  have num: "unat (e_phnum (image_header bs)) < 2 ^ 16" by (rule unat_u16_less)
  then have mul: "unat (ucast (e_phnum (image_header bs)) * of_nat sizeof_Phdr :: u64) =
      unat (e_phnum (image_header bs)) * 56"
    by (simp add: sizeof_Phdr_def unat_word_ariths unat_ucast_16_64)
  let ?q = "ucast (e_phnum (image_header bs)) * of_nat sizeof_Phdr :: u64"
  let ?last = "unat (e_phoff (image_header bs)) + unat (e_phnum (image_header bs)) * 56"
  have add: "add_ok (e_phoff (image_header bs)) ?q =
      (if ?last < 2 ^ 64 then Some (e_phoff (image_header bs) + ?q) else None)"
    by (simp only: add_ok_eq mul)
  have sum: "unat (e_phoff (image_header bs) + ?q) = ?last" if "?last < 2 ^ 64"
    using that by (subst unat_word_ariths) (simp add: mul)
  show ?thesis
  proof (cases "?last \<le> unat fsize")
    case True
    then have "?last < 2 ^ 64" using unat_u64_less [of fsize] by simp
    with True sum have "add_ok (e_phoff (image_header bs)) ?q = Some (e_phoff (image_header bs) + ?q)"
      and "\<not> e_phoff (image_header bs) + ?q > fsize"
      by (simp_all add: add word_less_nat_alt del: unat_word_ariths)
    with assms(1,2) False show ?thesis
      by (auto simp: check_ehdr_def sizeof_Ehdr_def sizeof_Phdr_def split: if_splits)
  next
    case past: False
    with assms False show ?thesis
      by (auto simp: check_ehdr_def sizeof_Ehdr_def sizeof_Phdr_def split: if_splits option.splits)
  qed
qed

lemma check_entry_cause:
  assumes "check_entry entry (map segment_of phs) = st" and "st \<noteq> ELF_OK"
    and "\<forall>ph\<in>set phs. unat (p_paddr ph) + unat (p_filesz ph) < 2 ^ 64"
  shows "st = ELF_ERR_ENTRY"
  using assms
proof (induction phs)
  case (Cons ph phs)
  then show ?case
    by (auto simp: segment_of_def add_ok_eq split: if_splits)
qed simp

text \<open>
  C23: A rejection names a true cause: for every error status the validator returns, the file has
  the defect that status stands for (the header field, the program header, the pair of segments
  or the entry that breaks its rule).  In particular \<^verbatim>\<open>ELF_ERR_SEG_OVERFLOW\<close> never comes from the
  defensive repeat in the entry loop.
\<close>

theorem elf_reject_truthful:
  assumes "length bs = unat fsize" and "elf_plan_load bs fsize = Some (Inl st)"
  shows "elf_cause bs st"
proof (cases "64 \<le> length bs \<and> check_ehdr fsize (image_header bs) = ELF_OK")
  case False
  with assms check_ehdr_cause [OF refl, of fsize bs] show ?thesis
    by (auto simp: elf_plan_load_def byte_slice_def sizeof_Ehdr_def word_less_nat_alt
        image_header_def Let_def split: if_splits)
next
  case True
  let ?L = "load_phdrs bs"
  show ?thesis
  proof (cases "plan_list fsize plan_init (image_phdrs bs)")
    case (Inl e)
    with True assms elf_plan_load_after_header [OF assms(1)] have "e = st" by simp
    with Inl assms(1) show ?thesis by (auto intro: plan_list_cause)
  next
    case (Inr plan)
    then have fits: "\<forall>ph\<in>set ?L. phdr_fits (length bs) ph"
      and pol: "\<forall>ph\<in>set (image_phdrs bs). p_type ph = PT_LOAD \<longrightarrow> phdr_policy ph"
      and plan: "plan = foldl plan_add plan_init (map segment_of ?L)"
      by (subst (asm) plan_list_Inr_iff;
          simp add: plan_init_def segs_disjoint_def assms(1) load_phdrs_def)+
    have segs: "segs plan = map segment_of ?L" by (simp add: plan plan_init_def)
    have sum: "\<forall>ph\<in>set ?L. unat (p_paddr ph) + unat (p_filesz ph) < 2 ^ 64"
    proof
      fix ph assume "ph \<in> set ?L"
      then have "phdr_fits (length bs) ph" and "phdr_policy ph"
        using fits pol by (auto simp: load_phdrs_def phdr_loadable_def)
      then show "unat (p_paddr ph) + unat (p_filesz ph) < 2 ^ 64"
        by (auto simp: phdr_fits_def phdr_policy_def)
    qed
    have entry: "check_entry e (segs plan) = ELF_OK \<longleftrightarrow>
        (\<exists>p\<in>set ?L. bit (p_flags p) 0 \<and> unat (p_paddr p) \<le> unat e \<and>
          unat e < unat (p_paddr p) + unat (p_filesz p))" for e
      unfolding segs using sum by (subst check_entry_OK_iff) (auto simp: segment_of_def)
    consider "?L = []" "st = ELF_ERR_NO_SEGMENTS"
      | "?L \<noteq> []" "phys_end plan - phys_base plan > ELF_MAX_KERNEL_SPAN" "st = ELF_ERR_TOO_BIG"
      | "check_entry (e_entry (image_header bs)) (segs plan) = st" "st \<noteq> ELF_OK"
      using assms(2) True elf_plan_load_after_header [OF assms(1)] Inr segs
      by (auto simp: Let_def split: if_splits)
    then show ?thesis
    proof cases
      case 2
      with plan_span_iff [OF 2(1) fits] show ?thesis by (auto simp: plan not_le)
    next
      case 3
      have "st = ELF_ERR_ENTRY" by (rule check_entry_cause [OF 3(1) [unfolded segs] 3(2) sum])
      with 3 entry [of "e_entry (image_header bs)"] show ?thesis by auto
    qed simp
  qed
qed

text \<open>
  For the witness: the example image with a segment that is writable as well as executable (flags 7
  instead of 5), and the first three bytes of an image.
\<close>

definition writable_image :: "u8 list" where
  "writable_image = example_image[68 := 7]"

theorem elf_reject_truthful_witness:
  "elf_plan_load writable_image 124 = Some (Inl ELF_ERR_SEG_FLAGS) \<and>
   elf_cause writable_image ELF_ERR_SEG_FLAGS \<and>
   elf_plan_load [0x7f, 0x45, 0x4c] 3 = Some (Inl ELF_ERR_TRUNCATED) \<and>
   elf_cause [0x7f, 0x45, 0x4c] ELF_ERR_TRUNCATED"
proof -
  have len: "length writable_image = unat (124 :: u64)" by (simp add: writable_image_def example_length)
  have hdr: "image_header writable_image = decode_ehdr example_ehdr_bytes"
    by (simp add: image_header_def writable_image_def example_image_def sizeof_Ehdr_def example_ehdr_bytes_def)
  have "take 56 (drop 64 writable_image) = example_phdr_bytes[4 := 7]"
    by (simp add: writable_image_def example_image_def example_ehdr_bytes_def example_phdr_bytes_def)
  then have phs: "image_phdrs writable_image = [decode_phdr (example_phdr_bytes[4 := 7])]"
    by (simp add: image_phdrs_def hdr example_ehdr phdr_table_def sizeof_Phdr_def)
  have ph: "decode_phdr (example_phdr_bytes[4 := 7]) = \<lparr>p_type = 1, p_flags = 7, p_offset = 120,
      p_vaddr = 0x400000, p_paddr = 0x400000, p_filesz = 4, p_memsz = 0x1000, p_align = 1\<rparr>"
    by (simp add: decode_phdr_def example_phdr_bytes_def field_at_def)
  have "check_ehdr 124 (image_header writable_image) = ELF_OK"
    by (simp add: check_ehdr_def hdr example_ehdr ELFCLASS64_def ELFDATA2LSB_def EV_CURRENT_def EM_X86_64_def
        ET_EXEC_def sizeof_Ehdr_def sizeof_Phdr_def add_ok_eq unat_word_ariths)
  from elf_plan_load_after_header [OF len _ this]
  have flags: "elf_plan_load writable_image 124 = Some (Inl ELF_ERR_SEG_FLAGS)"
    by (simp add: phs ph plan_phdr_def PT_LOAD_def PF_W_def PF_X_def PF_R_def len)
  have three: "length [0x7f, 0x45, 0x4c :: u8] = unat (3 :: u64)"
    "elf_plan_load [0x7f, 0x45, 0x4c] 3 = Some (Inl ELF_ERR_TRUNCATED)"
    by (simp_all add: elf_plan_load_def sizeof_Ehdr_def)
  from flags three(2) elf_reject_truthful [OF len flags] elf_reject_truthful [OF three]
  show ?thesis by blast
qed

lemma elf_status_str_inj: "elf_status_str s = elf_status_str t \<longleftrightarrow> s = t"
  by (cases s; cases t) simp_all

end
