(* ===== verification/BootProto.thy ===== *)
theory BootProto
  imports Prelude
begin

text \<open>
  SYPAS Boot Protocol v1, \<^verbatim>\<open>bootloader/protocols/sypas_bootproto.h\<close>: the constants, the memory-map
  entry and the boot information structure shared by loader and kernel, their byte layout (the
  offsets the header asserts with \<^verbatim>\<open>_Static_assert\<close>), and the \<^verbatim>\<open>SYPAS_BI_HAS\<close> probe.  The check that
  \<^verbatim>\<open>kmain\<close> makes of the structure before it uses it is in \<open>Kmain\<close>.  \<open>decode_bootinfo\<close> is what
  reading the members off the bytes of a structure in memory yields; the loader writes it member by
  member (\<open>bi_store\<close> in \<open>Loader\<close>), and \<open>bootinfo_members_agree\<close> in \<open>Staging\<close> relates the two.
\<close>

unbundle bit_operations_syntax

subsection \<open>Constants and types\<close>

definition SYPAS_BOOT_MAGIC :: u64 where "SYPAS_BOOT_MAGIC = 0x3150425341505953"
definition SYPAS_BOOT_VERSION_MAJOR :: u16 where "SYPAS_BOOT_VERSION_MAJOR = 1"
definition SYPAS_BOOT_VERSION_MINOR :: u16 where "SYPAS_BOOT_VERSION_MINOR = 0"

definition SYPAS_MEM_USABLE :: u32 where "SYPAS_MEM_USABLE = 1"
definition SYPAS_MEM_RESERVED :: u32 where "SYPAS_MEM_RESERVED = 2"
definition SYPAS_MEM_ACPI_RECLAIM :: u32 where "SYPAS_MEM_ACPI_RECLAIM = 3"
definition SYPAS_MEM_ACPI_NVS :: u32 where "SYPAS_MEM_ACPI_NVS = 4"
definition SYPAS_MEM_MMIO :: u32 where "SYPAS_MEM_MMIO = 5"
definition SYPAS_MEM_LOADER :: u32 where "SYPAS_MEM_LOADER = 6"
definition SYPAS_MEM_KERNEL :: u32 where "SYPAS_MEM_KERNEL = 7"
definition SYPAS_MEM_FIRMWARE :: u32 where "SYPAS_MEM_FIRMWARE = 8"

lemmas sypas_mem_defs =
  SYPAS_MEM_USABLE_def SYPAS_MEM_RESERVED_def SYPAS_MEM_ACPI_RECLAIM_def SYPAS_MEM_ACPI_NVS_def
  SYPAS_MEM_MMIO_def SYPAS_MEM_LOADER_def SYPAS_MEM_KERNEL_def SYPAS_MEM_FIRMWARE_def

record sypas_memmap_entry =
  mm_base :: u64
  mm_length :: u64
  mm_type :: u32
  mm_reserved :: u32

definition SYPAS_FB_NONE :: u32 where "SYPAS_FB_NONE = 0"
definition SYPAS_FB_XRGB8888 :: u32 where "SYPAS_FB_XRGB8888 = 1"
definition SYPAS_FB_XBGR8888 :: u32 where "SYPAS_FB_XBGR8888 = 2"

record sypas_bootinfo =
  bi_magic :: u64
  bi_version_major :: u16
  bi_version_minor :: u16
  bi_size :: u32
  bi_memmap :: u64
  bi_memmap_count :: u64
  bi_fb_base :: u64
  bi_fb_width :: u32
  bi_fb_height :: u32
  bi_fb_pitch :: u32
  bi_fb_format :: u32
  bi_acpi_rsdp :: u64
  bi_efi_system_table :: u64
  bi_kernel_phys_base :: u64
  bi_kernel_size :: u64
  bi_stack_base :: u64
  bi_stack_size :: u64
  bi_cmdline :: "u8 list"

definition SYPAS_BOOTINFO_V1_0_SIZE :: nat where "SYPAS_BOOTINFO_V1_0_SIZE = 360"

subsection \<open>Layout\<close>

text \<open>
  The structure's members in declaration order with their sizes and alignments (an array has the
  alignment of its elements); \<open>offsets_from\<close> is the C layout rule, each member at the next multiple
  of its alignment.
\<close>

datatype bi_field =
    BI_magic | BI_version_major | BI_version_minor | BI_size | BI_memmap | BI_memmap_count
  | BI_fb_base | BI_fb_width | BI_fb_height | BI_fb_pitch | BI_fb_format | BI_acpi_rsdp
  | BI_efi_system_table | BI_kernel_phys_base | BI_kernel_size | BI_stack_base | BI_stack_size
  | BI_cmdline

definition bi_members :: "(bi_field \<times> nat \<times> nat) list" where
  "bi_members =
     [(BI_magic, 8, 8), (BI_version_major, 2, 2), (BI_version_minor, 2, 2), (BI_size, 4, 4),
      (BI_memmap, 8, 8), (BI_memmap_count, 8, 8), (BI_fb_base, 8, 8), (BI_fb_width, 4, 4),
      (BI_fb_height, 4, 4), (BI_fb_pitch, 4, 4), (BI_fb_format, 4, 4), (BI_acpi_rsdp, 8, 8),
      (BI_efi_system_table, 8, 8), (BI_kernel_phys_base, 8, 8), (BI_kernel_size, 8, 8),
      (BI_stack_base, 8, 8), (BI_stack_size, 8, 8), (BI_cmdline, 256, 1)]"

fun offsets_from :: "nat \<Rightarrow> ('f \<times> nat \<times> nat) list \<Rightarrow> ('f \<times> nat) list" where
  "offsets_from off [] = []"
| "offsets_from off ((f, sz, al) # ms) =
     (let start = (off + (al - 1)) div al * al in (f, start) # offsets_from (start + sz) ms)"

definition bi_offset :: "bi_field \<Rightarrow> nat" where
  "bi_offset f = the (map_of (offsets_from 0 bi_members) f)"

definition bi_sizeof :: "bi_field \<Rightarrow> nat" where
  "bi_sizeof f = fst (the (map_of bi_members f))"

text \<open>\<^verbatim>\<open>SYPAS_BI_HAS(bi, field)\<close>, evaluated on 64-bit values as the macro does.\<close>

definition SYPAS_BI_HAS :: "sypas_bootinfo \<Rightarrow> bi_field \<Rightarrow> bool" where
  "SYPAS_BI_HAS bi f \<longleftrightarrow> of_nat (bi_offset f + bi_sizeof f) \<le> (ucast (bi_size bi) :: u64)"

text \<open>
  The bytes of a whole structure.  No code writes it at once; the examples use it to lay out a
  machine's memory.
\<close>

definition encode_bootinfo :: "sypas_bootinfo \<Rightarrow> u8 list" where
  "encode_bootinfo bi =
     le_bytes 8 (unat (bi_magic bi)) @ le_bytes 2 (unat (bi_version_major bi)) @
     le_bytes 2 (unat (bi_version_minor bi)) @ le_bytes 4 (unat (bi_size bi)) @
     le_bytes 8 (unat (bi_memmap bi)) @ le_bytes 8 (unat (bi_memmap_count bi)) @
     le_bytes 8 (unat (bi_fb_base bi)) @ le_bytes 4 (unat (bi_fb_width bi)) @
     le_bytes 4 (unat (bi_fb_height bi)) @ le_bytes 4 (unat (bi_fb_pitch bi)) @
     le_bytes 4 (unat (bi_fb_format bi)) @ le_bytes 8 (unat (bi_acpi_rsdp bi)) @
     le_bytes 8 (unat (bi_efi_system_table bi)) @ le_bytes 8 (unat (bi_kernel_phys_base bi)) @
     le_bytes 8 (unat (bi_kernel_size bi)) @ le_bytes 8 (unat (bi_stack_base bi)) @
     le_bytes 8 (unat (bi_stack_size bi)) @ bi_cmdline bi"

definition bi_value :: "u8 list \<Rightarrow> bi_field \<Rightarrow> nat" where
  "bi_value bs f = field_at bs (bi_offset f) (bi_sizeof f)"

definition decode_bootinfo :: "u8 list \<Rightarrow> sypas_bootinfo" where
  "decode_bootinfo bs = \<lparr>
     bi_magic = of_nat (bi_value bs BI_magic),
     bi_version_major = of_nat (bi_value bs BI_version_major),
     bi_version_minor = of_nat (bi_value bs BI_version_minor),
     bi_size = of_nat (bi_value bs BI_size),
     bi_memmap = of_nat (bi_value bs BI_memmap),
     bi_memmap_count = of_nat (bi_value bs BI_memmap_count),
     bi_fb_base = of_nat (bi_value bs BI_fb_base),
     bi_fb_width = of_nat (bi_value bs BI_fb_width),
     bi_fb_height = of_nat (bi_value bs BI_fb_height),
     bi_fb_pitch = of_nat (bi_value bs BI_fb_pitch),
     bi_fb_format = of_nat (bi_value bs BI_fb_format),
     bi_acpi_rsdp = of_nat (bi_value bs BI_acpi_rsdp),
     bi_efi_system_table = of_nat (bi_value bs BI_efi_system_table),
     bi_kernel_phys_base = of_nat (bi_value bs BI_kernel_phys_base),
     bi_kernel_size = of_nat (bi_value bs BI_kernel_size),
     bi_stack_base = of_nat (bi_value bs BI_stack_base),
     bi_stack_size = of_nat (bi_value bs BI_stack_size),
     bi_cmdline = take (bi_sizeof BI_cmdline) (drop (bi_offset BI_cmdline) bs) \<rparr>"

lemma bi_layout: "offsets_from 0 bi_members =
  [(BI_magic, 0), (BI_version_major, 8), (BI_version_minor, 10), (BI_size, 12), (BI_memmap, 16),
   (BI_memmap_count, 24), (BI_fb_base, 32), (BI_fb_width, 40), (BI_fb_height, 44),
   (BI_fb_pitch, 48), (BI_fb_format, 52), (BI_acpi_rsdp, 56), (BI_efi_system_table, 64),
   (BI_kernel_phys_base, 72), (BI_kernel_size, 80), (BI_stack_base, 88), (BI_stack_size, 96),
   (BI_cmdline, 104)]"
  by code_simp

lemma bi_offset_values:
  "bi_offset BI_magic = 0" "bi_offset BI_version_major = 8" "bi_offset BI_version_minor = 10"
  "bi_offset BI_size = 12" "bi_offset BI_memmap = 16" "bi_offset BI_memmap_count = 24"
  "bi_offset BI_fb_base = 32" "bi_offset BI_fb_width = 40" "bi_offset BI_fb_height = 44"
  "bi_offset BI_fb_pitch = 48" "bi_offset BI_fb_format = 52" "bi_offset BI_acpi_rsdp = 56"
  "bi_offset BI_efi_system_table = 64" "bi_offset BI_kernel_phys_base = 72"
  "bi_offset BI_kernel_size = 80" "bi_offset BI_stack_base = 88" "bi_offset BI_stack_size = 96"
  "bi_offset BI_cmdline = 104"
  by (simp_all add: bi_offset_def bi_layout)

lemma bi_sizeof_values:
  "bi_sizeof BI_magic = 8" "bi_sizeof BI_version_major = 2" "bi_sizeof BI_version_minor = 2"
  "bi_sizeof BI_size = 4" "bi_sizeof BI_memmap = 8" "bi_sizeof BI_memmap_count = 8"
  "bi_sizeof BI_fb_base = 8" "bi_sizeof BI_fb_width = 4" "bi_sizeof BI_fb_height = 4"
  "bi_sizeof BI_fb_pitch = 4" "bi_sizeof BI_fb_format = 4" "bi_sizeof BI_acpi_rsdp = 8"
  "bi_sizeof BI_efi_system_table = 8" "bi_sizeof BI_kernel_phys_base = 8"
  "bi_sizeof BI_kernel_size = 8" "bi_sizeof BI_stack_base = 8" "bi_sizeof BI_stack_size = 8"
  "bi_sizeof BI_cmdline = 256"
  by (simp_all add: bi_sizeof_def bi_members_def)

lemma field_at_skip: "length xs = k \<Longrightarrow> k \<le> off \<Longrightarrow> field_at (xs @ ys) off n = field_at ys (off - k) n"
  by (simp add: field_at_def)

lemma field_at_here: "length xs = n \<Longrightarrow> field_at (xs @ ys) 0 n = le_val xs"
  by (simp add: field_at_def)

text \<open>The members as a run of fields: reading one skips the encodings before it.\<close>

definition run_fields :: "sypas_bootinfo \<Rightarrow> (nat \<times> nat) list" where
  "run_fields bi =
     [(8, unat (bi_magic bi)),
      (2, unat (bi_version_major bi)),
      (2, unat (bi_version_minor bi)),
      (4, unat (bi_size bi)),
      (8, unat (bi_memmap bi)),
      (8, unat (bi_memmap_count bi)),
      (8, unat (bi_fb_base bi)),
      (4, unat (bi_fb_width bi)),
      (4, unat (bi_fb_height bi)),
      (4, unat (bi_fb_pitch bi)),
      (4, unat (bi_fb_format bi)),
      (8, unat (bi_acpi_rsdp bi)),
      (8, unat (bi_efi_system_table bi)),
      (8, unat (bi_kernel_phys_base bi)),
      (8, unat (bi_kernel_size bi)),
      (8, unat (bi_stack_base bi)),
      (8, unat (bi_stack_size bi))]"

fun run_bytes :: "(nat \<times> nat) list \<Rightarrow> u8 list" where
  "run_bytes [] = []"
| "run_bytes ((n, v) # fs) = le_bytes n v @ run_bytes fs"

fun run_at :: "(nat \<times> nat) list \<Rightarrow> nat \<Rightarrow> nat \<Rightarrow> nat option" where
  "run_at [] off n = None"
| "run_at ((k, v) # fs) off n =
     (if off = 0 then (if k = n then Some (v mod 256 ^ n) else None)
      else if k \<le> off then run_at fs (off - k) n else None)"

lemma encode_bootinfo_run: "encode_bootinfo bi = run_bytes (run_fields bi) @ bi_cmdline bi"
  by (simp add: encode_bootinfo_def run_fields_def)

lemma run_at_field: "run_at fs off n = Some v \<Longrightarrow> field_at (run_bytes fs @ tail) off n = v"
  by (induction fs off n rule: run_at.induct)
    (auto simp: field_at_skip field_at_here le_val_le_bytes split: if_splits)

lemma bi_value_encode:
  "run_at (run_fields bi) (bi_offset f) (bi_sizeof f) = Some v \<Longrightarrow> bi_value (encode_bootinfo bi) f = v"
  by (simp add: bi_value_def encode_bootinfo_run run_at_field)

lemma unat_mod_self:
  "unat (w16 :: u16) mod 65536 = unat w16" "unat (w32 :: u32) mod 4294967296 = unat w32"
  "unat (w64 :: u64) mod 18446744073709551616 = unat w64"
  using unat_u16_less [of w16] unat_u32_less [of w32] unat_u64_less [of w64] by simp_all

lemma bi_value_members:
  "bi_value (encode_bootinfo bi) BI_magic = unat (bi_magic bi)"
  "bi_value (encode_bootinfo bi) BI_version_major = unat (bi_version_major bi)"
  "bi_value (encode_bootinfo bi) BI_version_minor = unat (bi_version_minor bi)"
  "bi_value (encode_bootinfo bi) BI_size = unat (bi_size bi)"
  "bi_value (encode_bootinfo bi) BI_memmap = unat (bi_memmap bi)"
  "bi_value (encode_bootinfo bi) BI_memmap_count = unat (bi_memmap_count bi)"
  "bi_value (encode_bootinfo bi) BI_fb_base = unat (bi_fb_base bi)"
  "bi_value (encode_bootinfo bi) BI_fb_width = unat (bi_fb_width bi)"
  "bi_value (encode_bootinfo bi) BI_fb_height = unat (bi_fb_height bi)"
  "bi_value (encode_bootinfo bi) BI_fb_pitch = unat (bi_fb_pitch bi)"
  "bi_value (encode_bootinfo bi) BI_fb_format = unat (bi_fb_format bi)"
  "bi_value (encode_bootinfo bi) BI_acpi_rsdp = unat (bi_acpi_rsdp bi)"
  "bi_value (encode_bootinfo bi) BI_efi_system_table = unat (bi_efi_system_table bi)"
  "bi_value (encode_bootinfo bi) BI_kernel_phys_base = unat (bi_kernel_phys_base bi)"
  "bi_value (encode_bootinfo bi) BI_kernel_size = unat (bi_kernel_size bi)"
  "bi_value (encode_bootinfo bi) BI_stack_base = unat (bi_stack_base bi)"
  "bi_value (encode_bootinfo bi) BI_stack_size = unat (bi_stack_size bi)"
  by (rule bi_value_encode, simp add: run_fields_def bi_offset_values bi_sizeof_values unat_mod_self)+

lemma bi_cmdline_encode:
  "length (bi_cmdline bi) = 256 \<Longrightarrow>
   take (bi_sizeof BI_cmdline) (drop (bi_offset BI_cmdline) (encode_bootinfo bi)) = bi_cmdline bi"
proof -
  assume l: "length (bi_cmdline bi) = 256"
  have "length (run_bytes (run_fields bi)) = 104" by (simp add: run_fields_def)
  then show ?thesis using l by (simp add: encode_bootinfo_run bi_offset_values bi_sizeof_values)
qed

lemma decode_encode_bootinfo_aux:
  "length (bi_cmdline bi) = 256 \<Longrightarrow> decode_bootinfo (encode_bootinfo bi) = bi"
  by (simp add: decode_bootinfo_def bi_value_members bi_cmdline_encode)

lemma length_encode_bootinfo: "length (bi_cmdline bi) = 256 \<Longrightarrow> length (encode_bootinfo bi) = 360"
  by (simp add: encode_bootinfo_def)

definition blank_bootinfo :: sypas_bootinfo where
  "blank_bootinfo = \<lparr>bi_magic = SYPAS_BOOT_MAGIC, bi_version_major = SYPAS_BOOT_VERSION_MAJOR,
     bi_version_minor = SYPAS_BOOT_VERSION_MINOR, bi_size = of_nat SYPAS_BOOTINFO_V1_0_SIZE,
     bi_memmap = 0, bi_memmap_count = 0, bi_fb_base = 0, bi_fb_width = 0, bi_fb_height = 0,
     bi_fb_pitch = 0, bi_fb_format = SYPAS_FB_NONE, bi_acpi_rsdp = 0, bi_efi_system_table = 0,
     bi_kernel_phys_base = 0, bi_kernel_size = 0, bi_stack_base = 0, bi_stack_size = 0,
     bi_cmdline = replicate 256 0\<rparr>"

text \<open>
  A structure whose \<^verbatim>\<open>size\<close> covers v1.0 passes the presence probe for every member, and a shorter
  one fails it for the last member: the kernel's single size test stands for all the probes.
\<close>

theorem bi_has_all_iff:
  "(\<forall>f. SYPAS_BI_HAS bi f) \<longleftrightarrow> SYPAS_BOOTINFO_V1_0_SIZE \<le> unat (bi_size bi)"
proof -
  have u: "unat (ucast (bi_size bi) :: u64) = unat (bi_size bi)"
    by (simp add: unsigned_ucast_eq take_bit_nat_eq_self unat_u32_less [THEN less_trans])
  have b: "unat (of_nat (bi_offset f + bi_sizeof f) :: u64) = bi_offset f + bi_sizeof f \<and>
      bi_offset f + bi_sizeof f \<le> 360" for f
    by (cases f) (simp_all add: bi_offset_values bi_sizeof_values)
  then have "SYPAS_BI_HAS bi f \<longleftrightarrow> bi_offset f + bi_sizeof f \<le> unat (bi_size bi)" for f
    by (simp add: SYPAS_BI_HAS_def word_le_nat_alt u)
  moreover have "bi_offset BI_cmdline + bi_sizeof BI_cmdline = 360"
    by (simp add: bi_offset_values bi_sizeof_values)
  ultimately show ?thesis
    using b by (metis SYPAS_BOOTINFO_V1_0_SIZE_def le_trans)
qed

end
