(* ===== verification/MapSort.thy ===== *)
theory MapSort
  imports Prelude "HOL-Library.Multiset"
begin

text \<open>
  The raw UEFI memory map and its in-place canonicalisation: the memory types and
  \<^verbatim>\<open>EFI_MEMORY_DESCRIPTOR\<close> of \<^verbatim>\<open>bootloader/uefi/efi.h\<close>, and \<^verbatim>\<open>copy_bytes\<close> and
  \<^verbatim>\<open>sort_descriptors\<close> of \<^verbatim>\<open>bootloader/uefi/memory_map.c\<close>.

  The insertion sort is modelled on bytes, as the code does it: \<open>sort_mem\<close> holds the map buffer
  and the 4096-byte temporary, a \<open>byte_ptr\<close> points into one of them, \<open>copy_bytes\<close> moves one byte at
  a time, and an access outside either buffer is \<open>None\<close>.  The lemmas lift it to a list of
  equally long chunks: the copies never leave the buffers, one \<open>sort_step\<close> inserts a chunk behind
  the chunks with an equal or smaller \<^verbatim>\<open>PhysicalStart\<close>, and the whole loop is the library's stable
  \<open>sort_key\<close> on chunks, extension bytes included.
\<close>

unbundle bit_operations_syntax

subsection \<open>Firmware descriptors (efi.h)\<close>

definition EfiReservedMemoryType :: u32 where "EfiReservedMemoryType = 0"
definition EfiLoaderCode :: u32 where "EfiLoaderCode = 1"
definition EfiLoaderData :: u32 where "EfiLoaderData = 2"
definition EfiBootServicesCode :: u32 where "EfiBootServicesCode = 3"
definition EfiBootServicesData :: u32 where "EfiBootServicesData = 4"
definition EfiRuntimeServicesCode :: u32 where "EfiRuntimeServicesCode = 5"
definition EfiRuntimeServicesData :: u32 where "EfiRuntimeServicesData = 6"
definition EfiConventionalMemory :: u32 where "EfiConventionalMemory = 7"
definition EfiUnusableMemory :: u32 where "EfiUnusableMemory = 8"
definition EfiACPIReclaimMemory :: u32 where "EfiACPIReclaimMemory = 9"
definition EfiACPIMemoryNVS :: u32 where "EfiACPIMemoryNVS = 10"
definition EfiMemoryMappedIO :: u32 where "EfiMemoryMappedIO = 11"
definition EfiMemoryMappedIOPortSpace :: u32 where "EfiMemoryMappedIOPortSpace = 12"
definition EfiPalCode :: u32 where "EfiPalCode = 13"
definition EfiPersistentMemory :: u32 where "EfiPersistentMemory = 14"
definition EfiUnacceptedMemoryType :: u32 where "EfiUnacceptedMemoryType = 15"

lemmas efi_type_defs =
  EfiReservedMemoryType_def EfiLoaderCode_def EfiLoaderData_def EfiBootServicesCode_def
  EfiBootServicesData_def EfiRuntimeServicesCode_def EfiRuntimeServicesData_def
  EfiConventionalMemory_def EfiUnusableMemory_def EfiACPIReclaimMemory_def EfiACPIMemoryNVS_def
  EfiMemoryMappedIO_def EfiMemoryMappedIOPortSpace_def EfiPalCode_def EfiPersistentMemory_def
  EfiUnacceptedMemoryType_def

record EFI_MEMORY_DESCRIPTOR =
  ed_Type :: u32
  ed_PhysicalStart :: u64
  ed_VirtualStart :: u64
  ed_NumberOfPages :: u64
  ed_Attribute :: u64

definition sizeof_descriptor :: nat where "sizeof_descriptor = 40"

definition decode_descriptor :: "u8 list \<Rightarrow> EFI_MEMORY_DESCRIPTOR" where
  "decode_descriptor bs = \<lparr>
     ed_Type = of_nat (field_at bs 0 4),
     ed_PhysicalStart = of_nat (field_at bs 8 8),
     ed_VirtualStart = of_nat (field_at bs 16 8),
     ed_NumberOfPages = of_nat (field_at bs 24 8),
     ed_Attribute = of_nat (field_at bs 32 8) \<rparr>"

subsection \<open>Sorting the raw descriptors (memory\_map.c)\<close>

definition MAX_EFI_DESCRIPTOR_SIZE :: nat where "MAX_EFI_DESCRIPTOR_SIZE = 4096"

record sort_mem =
  map_bytes :: "u8 list"
  tmp_bytes :: "u8 list"

datatype byte_ptr = InMap nat | InTmp nat

fun ptr_add :: "byte_ptr \<Rightarrow> nat \<Rightarrow> byte_ptr" where
  "ptr_add (InMap i) n = InMap (i + n)"
| "ptr_add (InTmp i) n = InTmp (i + n)"

fun read_byte :: "sort_mem \<Rightarrow> byte_ptr \<Rightarrow> u8 option" where
  "read_byte m (InMap i) = (if i < length (map_bytes m) then Some (map_bytes m ! i) else None)"
| "read_byte m (InTmp i) = (if i < length (tmp_bytes m) then Some (tmp_bytes m ! i) else None)"

fun write_byte :: "sort_mem \<Rightarrow> byte_ptr \<Rightarrow> u8 \<Rightarrow> sort_mem option" where
  "write_byte m (InMap i) b =
     (if i < length (map_bytes m) then Some (m\<lparr>map_bytes := (map_bytes m)[i := b]\<rparr>) else None)"
| "write_byte m (InTmp i) b =
     (if i < length (tmp_bytes m) then Some (m\<lparr>tmp_bytes := (tmp_bytes m)[i := b]\<rparr>) else None)"

fun copy_bytes :: "sort_mem \<Rightarrow> byte_ptr \<Rightarrow> byte_ptr \<Rightarrow> nat \<Rightarrow> sort_mem option" where
  "copy_bytes m dst src 0 = Some m"
| "copy_bytes m dst src (Suc n) =
     (case read_byte m src of
        None \<Rightarrow> None
      | Some b \<Rightarrow>
        (case write_byte m dst b of
           None \<Rightarrow> None
         | Some m' \<Rightarrow> copy_bytes m' (ptr_add dst 1) (ptr_add src 1) n))"

fun physical_start_at :: "sort_mem \<Rightarrow> byte_ptr \<Rightarrow> u64 option" where
  "physical_start_at m (InMap i) =
     map_option (\<lambda>raw. of_nat (le_val raw)) (byte_slice (map_bytes m) (i + 8) 8)"
| "physical_start_at m (InTmp i) =
     map_option (\<lambda>raw. of_nat (le_val raw)) (byte_slice (tmp_bytes m) (i + 8) 8)"

fun shift_loop :: "sort_mem \<Rightarrow> nat \<Rightarrow> u64 \<Rightarrow> nat \<Rightarrow> (sort_mem \<times> nat) option" where
  "shift_loop m ds key 0 = Some (m, 0)"
| "shift_loop m ds key (Suc j) =
     (case physical_start_at m (InMap (j * ds)) of
        None \<Rightarrow> None
      | Some start \<Rightarrow>
        if start \<le> key then Some (m, Suc j)
        else (case copy_bytes m (InMap (Suc j * ds)) (InMap (j * ds)) ds of
                None \<Rightarrow> None
              | Some m' \<Rightarrow> shift_loop m' ds key j))"

definition sort_step :: "sort_mem \<Rightarrow> nat \<Rightarrow> nat \<Rightarrow> sort_mem option" where
  "sort_step m ds i =
     (case copy_bytes m (InTmp 0) (InMap (i * ds)) ds of
        None \<Rightarrow> None
      | Some m1 \<Rightarrow>
        (case physical_start_at m1 (InTmp 0) of
           None \<Rightarrow> None
         | Some key \<Rightarrow>
           (case shift_loop m1 ds key i of
              None \<Rightarrow> None
            | Some (m2, j) \<Rightarrow> copy_bytes m2 (InMap (j * ds)) (InTmp 0) ds)))"

fun sort_loop :: "sort_mem \<Rightarrow> nat \<Rightarrow> nat \<Rightarrow> nat \<Rightarrow> sort_mem option" where
  "sort_loop m ds i 0 = Some m"
| "sort_loop m ds i (Suc n) =
     (case sort_step m ds i of None \<Rightarrow> None | Some m' \<Rightarrow> sort_loop m' ds (Suc i) n)"

definition sort_descriptors :: "u8 list \<Rightarrow> nat \<Rightarrow> nat \<Rightarrow> u8 list option" where
  "sort_descriptors bs n ds =
     map_option map_bytes
       (sort_loop \<lparr>map_bytes = bs, tmp_bytes = replicate MAX_EFI_DESCRIPTOR_SIZE 0\<rparr> ds 1 (n - 1))"


subsection \<open>The byte copies as splices\<close>

definition splice_at :: "'a list \<Rightarrow> nat \<Rightarrow> 'a list \<Rightarrow> 'a list" where
  "splice_at xs d ys = take d xs @ ys @ drop (d + length ys) xs"

lemma length_splice_at: "d + length ys \<le> length xs \<Longrightarrow> length (splice_at xs d ys) = length xs"
  by (simp add: splice_at_def)

lemma splice_at_Nil [simp]: "splice_at xs d [] = xs"
  by (simp add: splice_at_def)

lemma splice_at_Cons:
  "d < length xs \<Longrightarrow> splice_at (xs[d := y]) (Suc d) ys = splice_at xs d (y # ys)"
  by (simp add: splice_at_def upd_conv_take_nth_drop take_Suc_conv_app_nth add.commute)

lemma take_drop_Suc:
  "s < length xs \<Longrightarrow> take (Suc n) (drop s xs) = xs ! s # take n (drop (Suc s) xs)"
  by (simp add: Cons_nth_drop_Suc [symmetric])

lemma copy_to_tmp:
  "d + n \<le> length (tmp_bytes m) \<Longrightarrow> s + n \<le> length (map_bytes m) \<Longrightarrow>
   copy_bytes m (InTmp d) (InMap s) n =
     Some (m\<lparr>tmp_bytes := splice_at (tmp_bytes m) d (take n (drop s (map_bytes m)))\<rparr>)"
proof (induction n arbitrary: m d s)
  case (Suc n)
  let ?m = "m\<lparr>tmp_bytes := (tmp_bytes m)[d := map_bytes m ! s]\<rparr>"
  have "copy_bytes ?m (InTmp (Suc d)) (InMap (Suc s)) n =
      Some (?m\<lparr>tmp_bytes := splice_at (tmp_bytes ?m) (Suc d) (take n (drop (Suc s) (map_bytes ?m)))\<rparr>)"
    using Suc.prems by (intro Suc.IH) auto
  with Suc.prems show ?case by (simp add: splice_at_Cons take_drop_Suc)
qed simp

lemma copy_from_tmp:
  "d + n \<le> length (map_bytes m) \<Longrightarrow> s + n \<le> length (tmp_bytes m) \<Longrightarrow>
   copy_bytes m (InMap d) (InTmp s) n =
     Some (m\<lparr>map_bytes := splice_at (map_bytes m) d (take n (drop s (tmp_bytes m)))\<rparr>)"
proof (induction n arbitrary: m d s)
  case (Suc n)
  let ?m = "m\<lparr>map_bytes := (map_bytes m)[d := tmp_bytes m ! s]\<rparr>"
  have "copy_bytes ?m (InMap (Suc d)) (InTmp (Suc s)) n =
      Some (?m\<lparr>map_bytes := splice_at (map_bytes ?m) (Suc d) (take n (drop (Suc s) (tmp_bytes ?m)))\<rparr>)"
    using Suc.prems by (intro Suc.IH) auto
  with Suc.prems show ?case by (simp add: splice_at_Cons take_drop_Suc)
qed simp

lemma copy_up_in_map:
  "d + n \<le> length (map_bytes m) \<Longrightarrow> s + n \<le> d \<Longrightarrow>
   copy_bytes m (InMap d) (InMap s) n =
     Some (m\<lparr>map_bytes := splice_at (map_bytes m) d (take n (drop s (map_bytes m)))\<rparr>)"
proof (induction n arbitrary: m d s)
  case (Suc n)
  let ?m = "m\<lparr>map_bytes := (map_bytes m)[d := map_bytes m ! s]\<rparr>"
  have "copy_bytes ?m (InMap (Suc d)) (InMap (Suc s)) n =
      Some (?m\<lparr>map_bytes := splice_at (map_bytes ?m) (Suc d) (take n (drop (Suc s) (map_bytes ?m)))\<rparr>)"
    using Suc.prems by (intro Suc.IH) auto
  moreover have "take n (drop (Suc s) ((map_bytes m)[d := map_bytes m ! s])) =
      take n (drop (Suc s) (map_bytes m))"
    using Suc.prems(2) by (simp add: drop_update_swap)
  ultimately show ?case
    using Suc.prems by (simp add: splice_at_Cons take_drop_Suc)
qed simp

subsection \<open>Chunks of equal length\<close>

definition chunked :: "nat \<Rightarrow> 'a list list \<Rightarrow> bool" where
  "chunked ds cs \<longleftrightarrow> (\<forall>c\<in>set cs. length c = ds)"

lemma length_concat_chunked: "chunked ds cs \<Longrightarrow> length (concat cs) = length cs * ds"
  by (induction cs) (simp_all add: chunked_def)

lemma drop_concat_chunked: "chunked ds cs \<Longrightarrow> drop (i * ds) (concat cs) = concat (drop i cs)"
proof (induction cs arbitrary: i)
  case (Cons c cs)
  then show ?case by (cases i) (simp_all add: chunked_def)
qed simp

lemma take_concat_chunked: "chunked ds cs \<Longrightarrow> take (i * ds) (concat cs) = concat (take i cs)"
proof (induction cs arbitrary: i)
  case (Cons c cs)
  then show ?case by (cases i) (simp_all add: chunked_def)
qed simp

lemma chunk_at: "chunked ds cs \<Longrightarrow> i < length cs \<Longrightarrow> take ds (drop (i * ds) (concat cs)) = cs ! i"
  by (simp add: drop_concat_chunked Cons_nth_drop_Suc [symmetric]) (simp add: chunked_def)

lemma splice_chunk:
  assumes "chunked ds cs" and "i < length cs" and "length c = ds"
  shows "splice_at (concat cs) (i * ds) c = concat (cs[i := c])"
proof -
  have "i * ds + ds = Suc i * ds" by simp
  then show ?thesis
    using assms by (simp add: splice_at_def take_concat_chunked drop_concat_chunked
        upd_conv_take_nth_drop del: mult_Suc)
qed

lemma chunked_update: "chunked ds cs \<Longrightarrow> length c = ds \<Longrightarrow> chunked ds (cs[i := c])"
  by (auto simp: chunked_def dest: set_update_subset_insert [THEN subsetD])

definition chunk_key :: "u8 list \<Rightarrow> u64" where
  "chunk_key c = of_nat (le_val (take 8 (drop 8 c)))"

lemma chunk_key_descriptor:
  "16 \<le> length c \<Longrightarrow> ed_PhysicalStart (decode_descriptor (take 40 c)) = chunk_key c"
  by (simp add: decode_descriptor_def field_at_def chunk_key_def drop_take min_def)

fun shift_chunks :: "u8 list list \<Rightarrow> u64 \<Rightarrow> nat \<Rightarrow> u8 list list \<times> nat" where
  "shift_chunks cs key 0 = (cs, 0)"
| "shift_chunks cs key (Suc j) =
     (if chunk_key (cs ! j) \<le> key then (cs, Suc j)
      else shift_chunks (cs[Suc j := cs ! j]) key j)"

lemma physical_start_chunk:
  assumes "chunked ds cs" and "j < length cs" and "16 \<le> ds" and "map_bytes m = concat cs"
  shows "physical_start_at m (InMap (j * ds)) = Some (chunk_key (cs ! j))"
proof -
  have "Suc j * ds \<le> length cs * ds" by (rule mult_le_mono1) (use assms(2) in simp)
  then have "j * ds + 16 \<le> length cs * ds" using assms(3) by simp
  then have "byte_slice (map_bytes m) (j * ds + 8) 8 =
      Some (take 8 (drop 8 (take ds (drop (j * ds) (concat cs)))))"
    using assms by (simp add: byte_slice_def length_concat_chunked drop_take min_def add.commute)
  with assms show ?thesis by (simp add: chunk_at chunk_key_def)
qed

lemma shift_loop_chunks:
  assumes "chunked ds cs" and "j < length cs" and "16 \<le> ds" and "map_bytes m = concat cs"
  shows "shift_loop m ds key j =
    Some (m\<lparr>map_bytes := concat (fst (shift_chunks cs key j))\<rparr>, snd (shift_chunks cs key j))"
  using assms
proof (induction j arbitrary: m cs)
  case (Suc j)
  show ?case
  proof (cases "chunk_key (cs ! j) \<le> key")
    case True
    with Suc.prems show ?thesis by (simp add: physical_start_chunk del: physical_start_at.simps)
  next
    case False
    let ?cs = "cs[Suc j := cs ! j]"
    let ?m = "m\<lparr>map_bytes := concat ?cs\<rparr>"
    have len: "Suc j * ds + ds \<le> length (map_bytes m)"
    proof -
      have "Suc (Suc j) * ds \<le> length cs * ds" by (rule mult_le_mono1) (use Suc.prems(2) in simp)
      then show ?thesis using Suc.prems(1,4) by (simp add: length_concat_chunked)
    qed
    have c: "length (cs ! j) = ds" using Suc.prems by (simp add: chunked_def)
    have fit: "j * ds + ds \<le> Suc j * ds" by simp
    have "copy_bytes m (InMap (Suc j * ds)) (InMap (j * ds)) ds =
        Some (m\<lparr>map_bytes := splice_at (concat cs) (Suc j * ds) (cs ! j)\<rparr>)"
      using Suc.prems copy_up_in_map [OF len fit] by (simp add: chunk_at del: mult_Suc)
    then have "copy_bytes m (InMap (Suc j * ds)) (InMap (j * ds)) ds = Some ?m"
      using Suc.prems c splice_chunk [of ds cs "Suc j" "cs ! j"] by (simp del: mult_Suc)
    moreover have "shift_loop ?m ds key j =
      Some (?m\<lparr>map_bytes := concat (fst (shift_chunks ?cs key j))\<rparr>, snd (shift_chunks ?cs key j))"
      using Suc.prems c by (intro Suc.IH) (auto intro: chunked_update)
    ultimately show ?thesis
      using False Suc.prems by (simp add: physical_start_chunk del: mult_Suc physical_start_at.simps)
  qed
qed simp

lemma shift_chunks_spec:
  assumes "j < length cs"
  shows "\<exists>p\<le>j. snd (shift_chunks cs key j) = p \<and>
    (p = 0 \<or> chunk_key (cs ! (p - 1)) \<le> key) \<and>
    (\<forall>c\<in>set (take (j - p) (drop p cs)). key < chunk_key c) \<and>
    (fst (shift_chunks cs key j))[p := x] =
      take p cs @ x # take (j - p) (drop p cs) @ drop (Suc j) cs"
  using assms
proof (induction j arbitrary: cs)
  case 0
  then show ?case by (cases cs) simp_all
next
  case (Suc j)
  show ?case
  proof (cases "chunk_key (cs ! j) \<le> key")
    case True
    with Suc.prems show ?thesis
      by (intro exI [of _ "Suc j"]) (simp add: upd_conv_take_nth_drop)
  next
    case False
    let ?cs = "cs[Suc j := cs ! j]"
    obtain p where p: "p \<le> j" "snd (shift_chunks ?cs key j) = p"
      "p = 0 \<or> chunk_key (?cs ! (p - 1)) \<le> key"
      "\<forall>c\<in>set (take (j - p) (drop p ?cs)). key < chunk_key c"
      "(fst (shift_chunks ?cs key j))[p := x] =
        take p ?cs @ x # take (j - p) (drop p ?cs) @ drop (Suc j) ?cs"
      using Suc.IH [of ?cs] Suc.prems by auto
    have drop_eq: "drop (Suc j) ?cs = cs ! j # drop (Suc (Suc j)) cs"
      using Suc.prems by (simp add: drop_update_swap Cons_nth_drop_Suc [symmetric])
    have mid: "take (j - p) (drop p ?cs) = take (j - p) (drop p cs)"
      using p(1) by (simp add: drop_update_swap)
    have snoc: "take (Suc j - p) (drop p cs) = take (j - p) (drop p cs) @ [cs ! j]"
      using p(1) Suc.prems by (simp add: Suc_diff_le take_Suc_conv_app_nth)
    show ?thesis
      using False Suc.prems p drop_eq mid snoc
      by (intro exI [of _ p]) auto
  qed
qed

lemma length_shift_chunks: "length (fst (shift_chunks cs key j)) = length cs"
  by (induction cs key j rule: shift_chunks.induct) simp_all

lemma chunked_shift_chunks:
  "chunked ds cs \<Longrightarrow> j < length cs \<Longrightarrow> chunked ds (fst (shift_chunks cs key j))"
proof (induction cs key j rule: shift_chunks.induct)
  case (2 cs key j)
  then show ?case using chunked_update [of ds cs "cs ! j" "Suc j"] by (simp add: chunked_def)
qed simp

subsection \<open>Insertion sort on chunks\<close>

lemma sort_key_snoc:
  fixes f :: "'a \<Rightarrow> 'b::linorder"
  assumes xs: "sort_key f xs = as @ bs" and le: "as = [] \<or> f (last as) \<le> f x"
    and gt: "\<forall>b\<in>set bs. f x < f b"
  shows "sort_key f (xs @ [x]) = as @ x # bs"
proof (rule properties_for_sort_key)
  have srt: "sorted (map f (as @ bs))" using sorted_sort_key [of f xs] xs by simp
  have ms: "mset (as @ bs) = mset xs" using xs by (metis mset_sort)
  show "mset (as @ x # bs) = mset (xs @ [x])" using ms by simp
  fix k assume "k \<in> set (as @ x # bs)"
  have "filter (\<lambda>y. f y = f k) (as @ bs) = filter (\<lambda>y. f y = f k) xs"
    using sort_key_stable [of f "f k" xs] xs by simp
  moreover have "filter (\<lambda>y. f y = f k) bs = []" if "f x = f k"
    using gt that by (auto simp: filter_empty_conv)
  ultimately show "filter (\<lambda>y. f k = f y) (as @ x # bs) = filter (\<lambda>y. f k = f y) (xs @ [x])"
    by (auto simp: eq_commute [of "f k"])
next
  have srt: "sorted (map f (as @ bs))" using sorted_sort_key [of f xs] xs by simp
  have "\<forall>a\<in>set as. f a \<le> f x"
  proof (cases "as = []")
    case False
    then have as: "as = butlast as @ [last as]" by simp
    have "sorted (map f (butlast as @ [last as]))"
      using srt False by (simp add: sorted_append)
    then have "\<forall>a\<in>set (butlast as). f a \<le> f (last as)" by (simp add: sorted_append)
    with le False have "\<forall>a\<in>set (butlast as @ [last as]). f a \<le> f x"
      by (auto simp del: append_butlast_last_id intro: order_trans)
    with False show ?thesis by simp
  qed simp
  with srt gt show "sorted (map f (as @ x # bs))"
    by (auto simp: sorted_append less_imp_le intro: order_trans)
qed

lemma sort_step_chunks:
  assumes cs: "chunked ds cs" "i < length cs" "16 \<le> ds" "ds \<le> MAX_EFI_DESCRIPTOR_SIZE"
    and m: "map_bytes m = concat cs" "length (tmp_bytes m) = MAX_EFI_DESCRIPTOR_SIZE"
    and srt: "take i cs = sort_key chunk_key xs"
  shows "\<exists>m' cs'. sort_step m ds i = Some m' \<and> map_bytes m' = concat cs' \<and>
    length (tmp_bytes m') = MAX_EFI_DESCRIPTOR_SIZE \<and> chunked ds cs' \<and> length cs' = length cs \<and>
    take (Suc i) cs' = sort_key chunk_key (xs @ [cs ! i]) \<and> drop (Suc i) cs' = drop (Suc i) cs"
proof -
  let ?x = "cs ! i"
  let ?t = "splice_at (tmp_bytes m) 0 ?x"
  let ?m1 = "m\<lparr>tmp_bytes := ?t\<rparr>"
  have x: "length ?x = ds" using cs by (simp add: chunked_def)
  have len: "i * ds + ds \<le> length (map_bytes m)"
  proof -
    have "Suc i * ds \<le> length cs * ds" by (rule mult_le_mono1) (use cs(2) in simp)
    then show ?thesis using cs(1) m(1) by (simp add: length_concat_chunked)
  qed
  have c1: "copy_bytes m (InTmp 0) (InMap (i * ds)) ds = Some ?m1"
    using copy_to_tmp [of 0 ds m "i * ds"] len cs m by (simp add: chunk_at)
  have t: "take ds ?t = ?x" "length ?t = MAX_EFI_DESCRIPTOR_SIZE"
    using x cs(4) m(2) by (simp_all add: splice_at_def)
  have key: "physical_start_at ?m1 (InTmp 0) = Some (chunk_key ?x)"
  proof -
    have "byte_slice ?t 8 8 = Some (take 8 (drop 8 (take ds ?t)))"
      using t(2) cs(3,4) by (simp add: byte_slice_def drop_take min_def)
    then show ?thesis using t(1) by (simp add: chunk_key_def)
  qed
  obtain p where p: "p \<le> i" "snd (shift_chunks cs (chunk_key ?x) i) = p"
      "p = 0 \<or> chunk_key (cs ! (p - 1)) \<le> chunk_key ?x"
      "\<forall>c\<in>set (take (i - p) (drop p cs)). chunk_key ?x < chunk_key c"
      "(fst (shift_chunks cs (chunk_key ?x) i))[p := ?x] =
        take p cs @ ?x # take (i - p) (drop p cs) @ drop (Suc i) cs"
    using shift_chunks_spec [OF cs(2), of "chunk_key ?x" ?x] by auto
  let ?cs = "fst (shift_chunks cs (chunk_key ?x) i)"
  let ?new = "take p cs @ ?x # take (i - p) (drop p cs) @ drop (Suc i) cs"
  let ?m2 = "?m1\<lparr>map_bytes := concat ?cs\<rparr>"
  have shift: "shift_loop ?m1 ds (chunk_key ?x) i = Some (?m2, p)"
    using shift_loop_chunks [of ds cs i ?m1 "chunk_key ?x"] cs m p(2) by simp
  have len_new: "length ?cs = length cs" "chunked ds ?cs"
    by (simp_all add: length_shift_chunks chunked_shift_chunks cs)
  have "p * ds + ds \<le> length (concat ?cs)"
  proof -
    have "Suc p * ds \<le> length cs * ds" by (rule mult_le_mono1) (use cs(2) p(1) in simp)
    then show ?thesis using len_new by (simp add: length_concat_chunked)
  qed
  then have c2: "copy_bytes ?m2 (InMap (p * ds)) (InTmp 0) ds = Some (?m2\<lparr>map_bytes := concat ?new\<rparr>)"
    using copy_from_tmp [of "p * ds" ds ?m2 0] t cs(4) len_new cs(2) p(1) x p(5)
      splice_chunk [of ds ?cs p ?x] by simp
  have "take i cs = take p cs @ take (i - p) (drop p cs)"
    using p(1) by (metis le_add_diff_inverse take_add)
  then have "sort_key chunk_key xs = take p cs @ take (i - p) (drop p cs)" using srt by simp
  moreover have "take p cs = [] \<or> chunk_key (last (take p cs)) \<le> chunk_key ?x"
    using p(1,3) cs(2) by (cases p) (simp_all add: take_Suc_conv_app_nth)
  ultimately have "sort_key chunk_key (xs @ [?x]) =
      take p cs @ ?x # take (i - p) (drop p cs)"
    using p(4) by (rule sort_key_snoc)
  moreover have "take (Suc i) ?new = take p cs @ ?x # take (i - p) (drop p cs)"
    using p(1) cs(2) by (auto simp add: min_def Suc_diff_le)
  ultimately have "take (Suc i) ?new = sort_key chunk_key (xs @ [?x])" by simp
  moreover have "drop (Suc i) ?new = drop (Suc i) cs"
    using p(1) cs(2) by (simp add: min_def Suc_diff_le)
  moreover have "chunked ds ?new" "length ?new = length cs"
    using len_new cs chunked_update [of ds ?cs ?x p] p(5) x by (metis, metis length_list_update)
  ultimately show ?thesis
    using c1 key shift c2 t(2)
    by (intro exI [of _ "?m2\<lparr>map_bytes := concat ?new\<rparr>"] exI [of _ ?new])
       (simp add: sort_step_def del: physical_start_at.simps)
qed

lemma sort_loop_chunks:
  assumes "chunked ds cs" "i + n \<le> length cs" "16 \<le> ds" "ds \<le> MAX_EFI_DESCRIPTOR_SIZE"
    and "map_bytes m = concat cs" "length (tmp_bytes m) = MAX_EFI_DESCRIPTOR_SIZE"
    and "take i cs = sort_key chunk_key (take i cs0)" "drop i cs = drop i cs0"
    and "length cs = length cs0"
  shows "\<exists>m' cs'. sort_loop m ds i n = Some m' \<and> map_bytes m' = concat cs' \<and>
    take (i + n) cs' = sort_key chunk_key (take (i + n) cs0) \<and>
    drop (i + n) cs' = drop (i + n) cs0 \<and> chunked ds cs' \<and> length cs' = length cs0"
  using assms
proof (induction n arbitrary: m cs i)
  case (Suc n)
  have i: "i < length cs" using Suc.prems(2) by simp
  have hd: "cs ! i = cs0 ! i"
    using Suc.prems(8,9) i by (metis Cons_nth_drop_Suc list.inject)
  have snoc: "take i cs0 @ [cs ! i] = take (Suc i) cs0"
    using hd i Suc.prems(9) by (simp add: take_Suc_conv_app_nth)
  obtain m1 cs1 where m1: "sort_step m ds i = Some m1" "map_bytes m1 = concat cs1"
      "length (tmp_bytes m1) = MAX_EFI_DESCRIPTOR_SIZE" "chunked ds cs1" "length cs1 = length cs"
      "take (Suc i) cs1 = sort_key chunk_key (take (Suc i) cs0)"
      "drop (Suc i) cs1 = drop (Suc i) cs"
    using sort_step_chunks [OF Suc.prems(1) i Suc.prems(3-7)] by (auto simp: snoc)
  have "drop (Suc i) cs1 = drop (Suc i) cs0"
    using m1(7) Suc.prems(8) by (metis drop_drop plus_1_eq_Suc)
  then show ?case
    using Suc.IH [of cs1 "Suc i" m1] m1 Suc.prems by auto
qed auto

lemma sort_descriptors_chunks:
  assumes "chunked ds cs" "16 \<le> ds" "ds \<le> MAX_EFI_DESCRIPTOR_SIZE"
  shows "sort_descriptors (concat cs) (length cs) ds = Some (concat (sort_key chunk_key cs))"
proof (cases cs)
  case Nil
  then show ?thesis by (simp add: sort_descriptors_def)
next
  case (Cons c cs')
  then have "take 1 cs = sort_key chunk_key (take 1 cs)" and "1 + (length cs - 1) = length cs"
    by simp_all
  then show ?thesis
    using sort_loop_chunks [of ds cs 1 "length cs - 1"
        "\<lparr>map_bytes = concat cs, tmp_bytes = replicate MAX_EFI_DESCRIPTOR_SIZE 0\<rparr>" cs]
      assms by (auto simp: sort_descriptors_def)
qed

end
