(* ===== verification/MemoryMap.thy ===== *)
theory MemoryMap
  imports Elf BootProto MapSort
begin

text \<open>
  The memory-map translator, \<^verbatim>\<open>bootloader/uefi/memory_map.h\<close> and \<^verbatim>\<open>memory_map.c\<close>: it checks the
  firmware's descriptors, splits the exact kernel segments out of the loader's allocations and
  writes the SYPAS ownership map.

  The output array \<^verbatim>\<open>out[0..count)\<close> is a list, \<^verbatim>\<open>append\<close> is \<open>append_entry\<close>, the \<^verbatim>\<open>for(;;)\<close> over
  kernel segments is the partial function \<open>tag_ranges\<close> (\<open>None\<close>: it does not return), one turn of
  the descriptor loop is \<open>translate_descriptor\<close>.  \<open>sypas_translate_memory_map\<close> takes the address
  and the bytes of the map buffer; its result is \<open>None\<close> when the call does not return,
  \<open>Some (Inl (status, diagnostic))\<close> for an error and \<open>Some (Inr out)\<close> for \<^verbatim>\<open>SYPAS_MAP_OK\<close> with
  \<^verbatim>\<open>*out_count\<close> the length of \<open>out\<close>.  The pointers \<^verbatim>\<open>kernel\<close>, \<^verbatim>\<open>out\<close>, \<^verbatim>\<open>out_count\<close> are values here, so
  the tests for null are those of \<^verbatim>\<open>efi_map\<close> only.

  The specification reads the buffer as descriptors over natural-number addresses
  (\<open>valid_efi_map\<close>, \<open>class_at\<close>) and the output as a classification \<open>type_at\<close> of addresses.  The
  lemmas establish what \<open>append_entry\<close> does to the classification (\<open>extends\<close>), what the tagging
  loop does when it returns and when it cannot return (\<open>crosses\<close>), how many entries it needs,
  and by counting tagged bytes that a successful map contains the whole kernel.
\<close>

unbundle bit_operations_syntax

subsection \<open>Status codes (memory\_map.h)\<close>

record sypas_map_diagnostic =
  diag_descriptor_index :: u64
  diag_base :: u64
  diag_end :: u64
  diag_previous_end :: u64

datatype sypas_map_status =
    SYPAS_MAP_OK
  | SYPAS_MAP_ERR_DESCRIPTOR_SIZE
  | SYPAS_MAP_ERR_DESCRIPTOR_ALIGNMENT
  | SYPAS_MAP_ERR_ZERO_LENGTH
  | SYPAS_MAP_ERR_ADDRESS_ALIGNMENT
  | SYPAS_MAP_ERR_ADDRESS_OVERFLOW
  | SYPAS_MAP_ERR_RANGE_OVERLAP
  | SYPAS_MAP_ERR_OUTPUT_FULL
  | SYPAS_MAP_ERR_OUTPUT_OVERFLOW
  | SYPAS_MAP_ERR_KERNEL_NOT_TAGGED

subsection \<open>Translation (memory\_map.c)\<close>

definition efi_to_sypas_memtype :: "u32 \<Rightarrow> u32" where
  "efi_to_sypas_memtype type =
    (if type = EfiConventionalMemory then SYPAS_MEM_USABLE
     else if type = EfiLoaderCode \<or> type = EfiLoaderData then SYPAS_MEM_LOADER
     else if type = EfiBootServicesCode \<or> type = EfiBootServicesData \<or>
       type = EfiRuntimeServicesCode \<or> type = EfiRuntimeServicesData then SYPAS_MEM_FIRMWARE
     else if type = EfiACPIReclaimMemory then SYPAS_MEM_ACPI_RECLAIM
     else if type = EfiACPIMemoryNVS then SYPAS_MEM_ACPI_NVS
     else if type = EfiMemoryMappedIO \<or> type = EfiMemoryMappedIOPortSpace then SYPAS_MEM_MMIO
     else SYPAS_MEM_RESERVED)"

definition append_entry :: "sypas_memmap_entry list \<Rightarrow> u64 \<Rightarrow> u64 \<Rightarrow> u64 \<Rightarrow> u32
    \<Rightarrow> sypas_map_status + sypas_memmap_entry list" where
  "append_entry out cap base end_addr type =
    (if base = end_addr then Inr out
     else
       let len = end_addr - base;
           push = (if of_nat (length out) = cap then Inl SYPAS_MAP_ERR_OUTPUT_FULL
                   else Inr (out @ [\<lparr>mm_base = base, mm_length = len, mm_type = type,
                                     mm_reserved = 0\<rparr>]))
       in if out = [] then push
          else let previous = last out in
            case add_ok (mm_base previous) (mm_length previous) of
              None \<Rightarrow> Inl SYPAS_MAP_ERR_OUTPUT_OVERFLOW
            | Some previous_end \<Rightarrow>
              if previous_end > base then Inl SYPAS_MAP_ERR_OUTPUT_OVERFLOW
              else if mm_type previous = type \<and> previous_end = base then
                (case add_ok (mm_length previous) len of
                   None \<Rightarrow> Inl SYPAS_MAP_ERR_OUTPUT_OVERFLOW
                 | Some combined \<Rightarrow> Inr (butlast out @ [previous\<lparr>mm_length := combined\<rparr>]))
              else push)"

fun best_segment :: "elf_segment option \<Rightarrow> elf_segment list \<Rightarrow> u64 \<Rightarrow> u64 \<Rightarrow> elf_segment option" where
  "best_segment best [] cursor end_addr = best"
| "best_segment best (s # ss) cursor end_addr =
     (if seg_page_end s \<le> cursor \<or> seg_page_base s \<ge> end_addr
      then best_segment best ss cursor end_addr
      else (case best of
              None \<Rightarrow> best_segment (Some s) ss cursor end_addr
            | Some b \<Rightarrow>
              if seg_page_base s < seg_page_base b
              then best_segment (Some s) ss cursor end_addr
              else best_segment (Some b) ss cursor end_addr))"

definition next_kernel_segment :: "elf_segment list \<Rightarrow> u64 \<Rightarrow> u64 \<Rightarrow> elf_segment option" where
  "next_kernel_segment ss cursor end_addr = best_segment None ss cursor end_addr"

partial_function (option) tag_ranges :: "elf_segment list \<Rightarrow> u64 \<Rightarrow> u32 \<Rightarrow> u64 \<Rightarrow> u64 \<Rightarrow>
    sypas_memmap_entry list \<Rightarrow> u64 \<Rightarrow>
    (sypas_map_status + (sypas_memmap_entry list \<times> u64 \<times> u64)) option" where
  "tag_ranges ss cap type end_addr cursor out tagged =
     (case next_kernel_segment ss cursor end_addr of
        None \<Rightarrow> Some (Inr (out, tagged, cursor))
      | Some s \<Rightarrow>
        let lo = (if seg_page_base s > cursor then seg_page_base s else cursor);
            hi = (if seg_page_end s < end_addr then seg_page_end s else end_addr)
        in case append_entry out cap cursor lo type of
             Inl e \<Rightarrow> Some (Inl e)
           | Inr out1 \<Rightarrow>
             (case append_entry out1 cap lo hi SYPAS_MEM_KERNEL of
                Inl e \<Rightarrow> Some (Inl e)
              | Inr out2 \<Rightarrow>
                (case add_ok tagged (hi - lo) of
                   None \<Rightarrow> Some (Inl SYPAS_MAP_ERR_OUTPUT_OVERFLOW)
                 | Some tagged' \<Rightarrow> tag_ranges ss cap type end_addr hi out2 tagged')))"

fun kernel_bytes :: "elf_segment list \<Rightarrow> u64 \<Rightarrow> u64 option" where
  "kernel_bytes [] expected = Some expected"
| "kernel_bytes (s # ss) expected =
     (if seg_page_base s AND 4095 \<noteq> 0 \<or> seg_page_end s AND 4095 \<noteq> 0 \<or>
         seg_page_base s \<ge> seg_page_end s then None
      else (case add_ok expected (seg_page_end s - seg_page_base s) of
              None \<Rightarrow> None
            | Some bytes \<Rightarrow> kernel_bytes ss bytes))"

definition no_diagnostic :: sypas_map_diagnostic where
  "no_diagnostic = \<lparr>diag_descriptor_index = 0, diag_base = 0, diag_end = 0, diag_previous_end = 0\<rparr>"

definition translate_descriptor :: "u64 \<Rightarrow> nat \<Rightarrow> nat \<Rightarrow> EFI_MEMORY_DESCRIPTOR \<Rightarrow> elf_segment list \<Rightarrow> u64 \<Rightarrow>
    u64 \<Rightarrow> u64 \<Rightarrow> sypas_memmap_entry list \<Rightarrow>
    (sypas_map_status \<times> sypas_map_diagnostic + sypas_memmap_entry list \<times> u64 \<times> u64) option" where
  "translate_descriptor efi_map ds k d ss cap previous_end tagged out =
    (let start = ed_PhysicalStart d in
     if (efi_map + of_nat (k * ds)) AND 7 \<noteq> 0
     then Some (Inl (SYPAS_MAP_ERR_DESCRIPTOR_ALIGNMENT, no_diagnostic))
     else if ed_NumberOfPages d = 0 then Some (Inl (SYPAS_MAP_ERR_ZERO_LENGTH, no_diagnostic))
     else if start AND 4095 \<noteq> 0 then Some (Inl (SYPAS_MAP_ERR_ADDRESS_ALIGNMENT, no_diagnostic))
     else case mul_ok (ed_NumberOfPages d) 4096 of
       None \<Rightarrow> Some (Inl (SYPAS_MAP_ERR_ADDRESS_OVERFLOW, no_diagnostic))
     | Some len \<Rightarrow>
       (case add_ok start len of
          None \<Rightarrow> Some (Inl (SYPAS_MAP_ERR_ADDRESS_OVERFLOW, no_diagnostic))
        | Some end_addr \<Rightarrow>
          if k * ds \<noteq> 0 \<and> start < previous_end
          then Some (Inl (SYPAS_MAP_ERR_RANGE_OVERLAP,
                 \<lparr>diag_descriptor_index = of_nat k, diag_base = start, diag_end = end_addr,
                  diag_previous_end = previous_end\<rparr>))
          else
            let type = efi_to_sypas_memtype (ed_Type d) in
            (case (if type = SYPAS_MEM_LOADER then tag_ranges ss cap type end_addr start out tagged
                   else Some (Inr (out, tagged, start))) of
               None \<Rightarrow> None
             | Some (Inl e) \<Rightarrow> Some (Inl (e, no_diagnostic))
             | Some (Inr (out1, tagged1, cursor)) \<Rightarrow>
               (case append_entry out1 cap cursor end_addr type of
                  Inl e \<Rightarrow> Some (Inl (e, no_diagnostic))
                | Inr out2 \<Rightarrow> Some (Inr (out2, tagged1, end_addr))))))"

fun translate_loop :: "u64 \<Rightarrow> u8 list \<Rightarrow> nat \<Rightarrow> elf_segment list \<Rightarrow> u64 \<Rightarrow> nat \<Rightarrow> nat \<Rightarrow> u64 \<Rightarrow> u64 \<Rightarrow>
    sypas_memmap_entry list \<Rightarrow>
    (sypas_map_status \<times> sypas_map_diagnostic + sypas_memmap_entry list \<times> u64) option" where
  "translate_loop efi_map bs ds ss cap k 0 previous_end tagged out = Some (Inr (out, tagged))"
| "translate_loop efi_map bs ds ss cap k (Suc n) previous_end tagged out =
    (case byte_slice bs (k * ds) sizeof_descriptor of
       None \<Rightarrow> None
     | Some raw \<Rightarrow>
       (case translate_descriptor efi_map ds k (decode_descriptor raw) ss cap previous_end tagged out of
          None \<Rightarrow> None
        | Some (Inl e) \<Rightarrow> Some (Inl e)
        | Some (Inr (out1, tagged1, end_addr)) \<Rightarrow>
          translate_loop efi_map bs ds ss cap (Suc k) n end_addr tagged1 out1))"

definition sypas_translate_memory_map :: "u64 \<Rightarrow> u8 list \<Rightarrow> u64 \<Rightarrow> u64 \<Rightarrow> elf_load_plan \<Rightarrow> u64 \<Rightarrow>
    (sypas_map_status \<times> sypas_map_diagnostic + sypas_memmap_entry list) option" where
  "sypas_translate_memory_map efi_map bs map_size descriptor_size plan cap =
    (if efi_map = 0 \<or> unat descriptor_size < sizeof_descriptor \<or>
       unat descriptor_size > MAX_EFI_DESCRIPTOR_SIZE \<or>
       descriptor_size mod 8 \<noteq> 0 \<or> map_size mod descriptor_size \<noteq> 0
     then Some (Inl (SYPAS_MAP_ERR_DESCRIPTOR_SIZE, no_diagnostic))
     else
       let ds = unat descriptor_size; n = unat map_size div ds in
       case sort_descriptors bs n ds of
         None \<Rightarrow> None
       | Some sorted_bs \<Rightarrow>
         (case kernel_bytes (segs plan) 0 of
            None \<Rightarrow> Some (Inl (SYPAS_MAP_ERR_ADDRESS_OVERFLOW, no_diagnostic))
          | Some expected \<Rightarrow>
            (case translate_loop efi_map sorted_bs ds (segs plan) cap 0 n 0 0 [] of
               None \<Rightarrow> None
             | Some (Inl e) \<Rightarrow> Some (Inl e)
             | Some (Inr (out, tagged)) \<Rightarrow>
               if tagged \<noteq> expected
               then Some (Inl (SYPAS_MAP_ERR_KERNEL_NOT_TAGGED, no_diagnostic))
               else Some (Inr out))))"

fun sypas_map_status_str :: "sypas_map_status \<Rightarrow> string" where
  "sypas_map_status_str SYPAS_MAP_OK = ''ok''"
| "sypas_map_status_str SYPAS_MAP_ERR_DESCRIPTOR_SIZE = ''bad memory-map descriptor size''"
| "sypas_map_status_str SYPAS_MAP_ERR_DESCRIPTOR_ALIGNMENT = ''unaligned memory-map descriptor''"
| "sypas_map_status_str SYPAS_MAP_ERR_ZERO_LENGTH = ''zero-length memory-map range''"
| "sypas_map_status_str SYPAS_MAP_ERR_ADDRESS_ALIGNMENT = ''unaligned memory-map range''"
| "sypas_map_status_str SYPAS_MAP_ERR_ADDRESS_OVERFLOW = ''memory-map address overflow''"
| "sypas_map_status_str SYPAS_MAP_ERR_RANGE_OVERLAP = ''overlapping memory-map ranges''"
| "sypas_map_status_str SYPAS_MAP_ERR_OUTPUT_FULL = ''translated memory map is full''"
| "sypas_map_status_str SYPAS_MAP_ERR_OUTPUT_OVERFLOW = ''translated memory-map overflow''"
| "sypas_map_status_str SYPAS_MAP_ERR_KERNEL_NOT_TAGGED = ''kernel ranges absent from loader map''"


subsection \<open>Appending to a well-formed map\<close>

definition mm_lo :: "sypas_memmap_entry \<Rightarrow> nat" where
  "mm_lo e = unat (mm_base e)"

definition mm_hi :: "sypas_memmap_entry \<Rightarrow> nat" where
  "mm_hi e = unat (mm_base e) + unat (mm_length e)"

definition entry_wf :: "sypas_memmap_entry \<Rightarrow> bool" where
  "entry_wf e \<longleftrightarrow> mm_lo e mod 4096 = 0 \<and> mm_hi e mod 4096 = 0 \<and> mm_lo e < mm_hi e \<and>
     mm_hi e < 2 ^ 64 \<and> mm_reserved e = 0"

definition map_wf :: "sypas_memmap_entry list \<Rightarrow> bool" where
  "map_wf out \<longleftrightarrow> (\<forall>e\<in>set out. entry_wf e) \<and> sorted_wrt (\<lambda>e f. mm_hi e \<le> mm_lo f) out \<and>
     successively (\<lambda>e f. mm_hi e = mm_lo f \<longrightarrow> mm_type e \<noteq> mm_type f) out"

definition in_entry :: "nat \<Rightarrow> sypas_memmap_entry \<Rightarrow> bool" where
  "in_entry a e \<longleftrightarrow> mm_lo e \<le> a \<and> a < mm_hi e"

definition type_at :: "sypas_memmap_entry list \<Rightarrow> nat \<Rightarrow> u32 option" where
  "type_at out a = map_option mm_type (find (in_entry a) out)"

definition ends_by :: "sypas_memmap_entry list \<Rightarrow> nat \<Rightarrow> bool" where
  "ends_by out c \<longleftrightarrow> (\<forall>e\<in>set out. mm_hi e \<le> c)"

lemma type_at_Nil [simp]: "type_at [] a = None"
  by (simp add: type_at_def)

lemma find_append: "find P (xs @ ys) = (case find P xs of None \<Rightarrow> find P ys | Some x \<Rightarrow> Some x)"
  by (induction xs) auto

lemma type_at_append:
  "type_at (xs @ ys) a = (case type_at xs a of None \<Rightarrow> type_at ys a | Some t \<Rightarrow> Some t)"
  by (simp add: type_at_def find_append split: option.splits)

lemma type_at_single: "type_at [e] a = (if in_entry a e then Some (mm_type e) else None)"
  by (simp add: type_at_def)

lemma type_at_beyond: "ends_by out c \<Longrightarrow> c \<le> a \<Longrightarrow> type_at out a = None"
  by (fastforce simp: type_at_def ends_by_def in_entry_def find_None_iff)

lemma map_wf_Nil [simp]: "map_wf []"
  by (simp add: map_wf_def)

lemma map_wf_snoc:
  "map_wf (out @ [e]) \<longleftrightarrow> map_wf out \<and> entry_wf e \<and> ends_by out (mm_lo e) \<and>
     (out \<noteq> [] \<longrightarrow> mm_hi (last out) = mm_lo e \<longrightarrow> mm_type (last out) \<noteq> mm_type e)"
  by (auto simp: map_wf_def ends_by_def sorted_wrt_append successively_append_iff)

lemma ends_by_snoc: "ends_by (out @ [e]) c \<longleftrightarrow> ends_by out c \<and> mm_hi e \<le> c"
  by (auto simp: ends_by_def)

lemma ends_by_mono: "ends_by out c \<Longrightarrow> c \<le> d \<Longrightarrow> ends_by out d"
  by (auto simp: ends_by_def)

definition extends :: "sypas_memmap_entry list \<Rightarrow> nat \<Rightarrow> nat \<Rightarrow> (nat \<Rightarrow> u32) \<Rightarrow>
    sypas_memmap_entry list \<Rightarrow> bool" where
  "extends out lo hi f out' \<longleftrightarrow> map_wf out' \<and> ends_by out' hi \<and>
     (\<forall>a. type_at out' a = (if lo \<le> a \<and> a < hi then Some (f a) else type_at out a))"

definition page_aligned :: "u64 \<Rightarrow> bool" where
  "page_aligned a \<longleftrightarrow> unat a mod 4096 = 0"

lemma extends_empty: "map_wf out \<Longrightarrow> ends_by out lo \<Longrightarrow> extends out lo lo f out"
  by (auto simp: extends_def)

lemma extends_trans:
  assumes "extends out lo mid f out1" and "extends out1 mid hi g out2"
    and "lo \<le> mid" and "mid \<le> hi"
    and "\<And>a. lo \<le> a \<Longrightarrow> a < mid \<Longrightarrow> h a = f a" and "\<And>a. mid \<le> a \<Longrightarrow> a < hi \<Longrightarrow> h a = g a"
  shows "extends out lo hi h out2"
  using assms by (auto simp: extends_def)

lemma append_entry_push:
  assumes "map_wf out" "ends_by out (unat base)" "base < end_addr"
    "page_aligned base" "page_aligned end_addr"
    and "out \<noteq> [] \<longrightarrow> mm_hi (last out) = unat base \<longrightarrow> mm_type (last out) \<noteq> type"
  shows "extends out (unat base) (unat end_addr) (\<lambda>_. type)
    (out @ [\<lparr>mm_base = base, mm_length = end_addr - base, mm_type = type, mm_reserved = 0\<rparr>])"
proof -
  have len: "unat (end_addr - base) = unat end_addr - unat base"
    using assms(3) by (simp add: unat_sub word_less_nat_alt word_le_nat_alt)
  then show ?thesis
    using assms unat_u64_less [of end_addr] type_at_beyond [OF assms(2)]
    by (auto simp: extends_def map_wf_snoc ends_by_snoc entry_wf_def mm_lo_def mm_hi_def
        page_aligned_def word_less_nat_alt type_at_append type_at_single in_entry_def
        intro: ends_by_mono split: option.splits)
qed

lemma append_entry_merge:
  assumes "map_wf (xs @ [p])" "mm_hi p = unat base" "base < end_addr"
    "page_aligned base" "page_aligned end_addr" "mm_type p = type"
    and "unat c = unat (mm_length p) + (unat end_addr - unat base)"
  shows "extends (xs @ [p]) (unat base) (unat end_addr) (\<lambda>_. type)
    (xs @ [p\<lparr>mm_length := c\<rparr>])"
proof -
  have hi: "mm_hi (p\<lparr>mm_length := c\<rparr>) = unat end_addr" and lo: "mm_lo (p\<lparr>mm_length := c\<rparr>) = mm_lo p"
    using assms(2,3,7) by (simp_all add: mm_hi_def mm_lo_def word_less_nat_alt)
  have e: "ends_by xs (mm_lo p)" and p: "entry_wf p" using assms(1) by (auto simp: map_wf_snoc)
  have apart: "type_at xs a = None" if "mm_lo p \<le> a" for a
    using type_at_beyond [OF e that] .
  have "map_wf (xs @ [p\<lparr>mm_length := c\<rparr>])"
    using assms(1,3,5) p unat_u64_less [of end_addr] assms(2)
    by (simp add: map_wf_snoc hi lo entry_wf_def page_aligned_def word_less_nat_alt)
  moreover have "ends_by (xs @ [p\<lparr>mm_length := c\<rparr>]) (unat end_addr)"
    using e p assms(2,3) by (auto simp: ends_by_snoc hi entry_wf_def word_less_nat_alt
        intro: ends_by_mono)
  moreover have "type_at (xs @ [p\<lparr>mm_length := c\<rparr>]) a =
      (if unat base \<le> a \<and> a < unat end_addr then Some type else type_at (xs @ [p]) a)" for a
  proof (cases "mm_lo p \<le> a")
    case True
    with apart assms(2,3,6) p show ?thesis
      by (auto simp: type_at_append type_at_single in_entry_def hi lo entry_wf_def word_less_nat_alt)
  next
    case False
    with assms(2) p show ?thesis
      by (auto simp: type_at_append type_at_single in_entry_def lo entry_wf_def split: option.splits)
  qed
  ultimately show ?thesis by (simp add: extends_def)
qed

lemma append_entry_cases:
  assumes "map_wf out" "ends_by out (unat base)" "base \<le> end_addr"
    "page_aligned base" "page_aligned end_addr"
  shows "(\<exists>out'. append_entry out cap base end_addr type = Inr out' \<and>
            extends out (unat base) (unat end_addr) (\<lambda>_. type) out' \<and>
            length out' \<le> length out + (if base = end_addr then 0 else 1)) \<or>
         append_entry out cap base end_addr type = Inl SYPAS_MAP_ERR_OUTPUT_FULL \<and>
            base < end_addr \<and> of_nat (length out) = cap"
proof (cases "base = end_addr")
  case True
  then show ?thesis using assms by (simp add: append_entry_def extends_empty)
next
  case False
  with assms(3) have lt: "base < end_addr" by simp
  note push = append_entry_push [OF assms(1,2) lt assms(4,5)]
  show ?thesis
  proof (cases out rule: rev_cases)
    case Nil
    then show ?thesis using False lt push [of type] by (simp add: append_entry_def Let_def)
  next
    case (snoc xs p)
    have p: "mm_hi p < 2 ^ 64" "mm_hi p \<le> unat base"
      using assms(1,2) snoc by (simp_all add: map_wf_snoc ends_by_snoc entry_wf_def)
    have pe: "add_ok (mm_base p) (mm_length p) = Some (mm_base p + mm_length p)"
      and hi: "unat (mm_base p + mm_length p) = mm_hi p"
      using p(1) by (simp_all add: add_ok_eq mm_hi_def unat_word_ariths)
    have le: "\<not> base < mm_base p + mm_length p"
      using p(2) hi by (simp add: word_less_nat_alt)
    have eq: "mm_base p + mm_length p = base \<longleftrightarrow> mm_hi p = unat base"
      using hi by (simp add: word_unat_eq_iff)
    show ?thesis
    proof (cases "mm_type p = type \<and> mm_hi p = unat base")
      case True
      have len: "unat (end_addr - base) = unat end_addr - unat base"
        using lt by (simp add: unat_sub word_less_nat_alt word_le_nat_alt)
      have "unat (mm_length p) + unat (end_addr - base) < 2 ^ 64"
        using True len lt unat_u64_less [of end_addr]
        unfolding mm_hi_def word_less_nat_alt by linarith
      then have c: "add_ok (mm_length p) (end_addr - base) = Some (mm_length p + (end_addr - base))"
        and cu: "unat (mm_length p + (end_addr - base)) =
          unat (mm_length p) + (unat end_addr - unat base)"
        using len by (simp_all add: add_ok_eq unat_word_ariths)
      have "append_entry out cap base end_addr type =
          Inr (xs @ [p\<lparr>mm_length := mm_length p + (end_addr - base)\<rparr>])"
        using snoc False True le pe c eq by (simp add: append_entry_def Let_def)
      moreover have "extends out (unat base) (unat end_addr) (\<lambda>_. type)
          (xs @ [p\<lparr>mm_length := mm_length p + (end_addr - base)\<rparr>])"
        unfolding snoc
        by (rule append_entry_merge) (use assms snoc True lt cu in auto)
      ultimately show ?thesis using snoc by simp
    next
      case merge: False
      then have "append_entry out cap base end_addr type =
          (if of_nat (length out) = cap then Inl SYPAS_MAP_ERR_OUTPUT_FULL
           else Inr (out @ [\<lparr>mm_base = base, mm_length = end_addr - base, mm_type = type,
                             mm_reserved = 0\<rparr>]))"
        using snoc False le pe eq by (auto simp: append_entry_def Let_def)
      moreover have "extends out (unat base) (unat end_addr) (\<lambda>_. type)
          (out @ [\<lparr>mm_base = base, mm_length = end_addr - base, mm_type = type, mm_reserved = 0\<rparr>])"
        using merge snoc by (intro push) auto
      ultimately show ?thesis using lt False by auto
    qed
  qed
qed

subsection \<open>Choosing the next kernel segment\<close>

definition seg_in :: "elf_segment \<Rightarrow> nat \<Rightarrow> bool" where
  "seg_in s a \<longleftrightarrow> unat (seg_page_base s) \<le> a \<and> a < unat (seg_page_end s)"

definition in_segs :: "elf_segment list \<Rightarrow> nat \<Rightarrow> bool" where
  "in_segs ss a \<longleftrightarrow> list_ex (\<lambda>s. seg_in s a) ss"

definition seg_pages_ok :: "elf_segment \<Rightarrow> bool" where
  "seg_pages_ok s \<longleftrightarrow> page_aligned (seg_page_base s) \<and> page_aligned (seg_page_end s) \<and>
     seg_page_base s < seg_page_end s"

definition live :: "u64 \<Rightarrow> u64 \<Rightarrow> elf_segment \<Rightarrow> bool" where
  "live cursor end_addr s \<longleftrightarrow> cursor < seg_page_end s \<and> seg_page_base s < end_addr"

definition crosses :: "u64 \<Rightarrow> elf_segment \<Rightarrow> bool" where
  "crosses end_addr s \<longleftrightarrow> seg_page_base s < end_addr \<and> end_addr < seg_page_end s"

lemma best_segment_Some:
  "best_segment (Some b) ss c e = Some s \<Longrightarrow>
   (s = b \<or> s \<in> set ss \<and> live c e s) \<and> seg_page_base s \<le> seg_page_base b \<and>
   (\<forall>t\<in>set ss. live c e t \<longrightarrow> seg_page_base s \<le> seg_page_base t)"
proof (induction ss arbitrary: b)
  case (Cons t ss)
  show ?case
  proof (cases "live c e t \<and> seg_page_base t < seg_page_base b")
    case True
    then have "best_segment (Some t) ss c e = Some s"
      using Cons.prems by (simp add: live_def not_le [symmetric])
    from Cons.IH [OF this] True show ?thesis by auto
  next
    case False
    then have "best_segment (Some b) ss c e = Some s"
      using Cons.prems by (auto simp: live_def not_le not_less split: if_splits)
    from Cons.IH [OF this] False show ?thesis by (auto simp: not_less)
  qed
qed simp

lemma best_segment_not_None: "best_segment (Some b) ss c e \<noteq> None"
  by (induction ss arbitrary: b) auto

lemma next_kernel_segment_None:
  "next_kernel_segment ss c e = None \<longleftrightarrow> (\<forall>s\<in>set ss. \<not> live c e s)"
  unfolding next_kernel_segment_def
  by (induction ss) (auto simp: live_def best_segment_not_None not_le not_less)

lemma next_kernel_segment_Some:
  "next_kernel_segment ss c e = Some s \<Longrightarrow>
   s \<in> set ss \<and> live c e s \<and> (\<forall>t\<in>set ss. live c e t \<longrightarrow> seg_page_base s \<le> seg_page_base t)"
  unfolding next_kernel_segment_def
proof (induction ss)
  case (Cons t ss)
  show ?case
  proof (cases "live c e t")
    case True
    then have "best_segment (Some t) ss c e = Some s"
      using Cons.prems by (auto simp: live_def not_le not_less split: if_splits)
    then show ?thesis using best_segment_Some [of t ss c e s] True by auto
  next
    case False
    then show ?thesis using Cons by (auto simp: live_def not_le not_less split: if_splits)
  qed
qed simp

definition tag_lo :: "elf_segment \<Rightarrow> u64 \<Rightarrow> u64" where
  "tag_lo s cursor = (if seg_page_base s > cursor then seg_page_base s else cursor)"

definition tag_hi :: "elf_segment \<Rightarrow> u64 \<Rightarrow> u64" where
  "tag_hi s end_addr = (if seg_page_end s < end_addr then seg_page_end s else end_addr)"

definition kernel_or :: "elf_segment list \<Rightarrow> u32 \<Rightarrow> nat \<Rightarrow> u32" where
  "kernel_or ss type a = (if in_segs ss a then SYPAS_MEM_KERNEL else type)"

definition kcount :: "elf_segment list \<Rightarrow> nat \<Rightarrow> nat \<Rightarrow> nat" where
  "kcount ss lo hi = card {a\<in>{lo..<hi}. in_segs ss a}"

lemma kcount_add: "lo \<le> mid \<Longrightarrow> mid \<le> hi \<Longrightarrow> kcount ss lo mid + kcount ss mid hi = kcount ss lo hi"
  unfolding kcount_def by (subst card_Un_disjoint [symmetric]) (auto intro!: arg_cong [where f = card])

lemma kcount_le: "kcount ss lo hi \<le> hi - lo"
  unfolding kcount_def by (rule order_trans [OF card_mono [of "{lo..<hi}"]]) auto

lemma kcount_same [simp]: "kcount ss lo lo = 0"
  by (simp add: kcount_def)

lemma kcount_none: "(\<And>a. lo \<le> a \<Longrightarrow> a < hi \<Longrightarrow> \<not> in_segs ss a) \<Longrightarrow> kcount ss lo hi = 0"
  by (auto simp: kcount_def)

lemma kcount_all: "(\<And>a. lo \<le> a \<Longrightarrow> a < hi \<Longrightarrow> in_segs ss a) \<Longrightarrow> kcount ss lo hi = hi - lo"
proof -
  assume "\<And>a. lo \<le> a \<Longrightarrow> a < hi \<Longrightarrow> in_segs ss a"
  then have "{a\<in>{lo..<hi}. in_segs ss a} = {lo..<hi}" by auto
  then show ?thesis by (simp add: kcount_def)
qed

lemma tag_bounds:
  assumes "\<forall>s\<in>set ss. seg_pages_ok s" "next_kernel_segment ss cursor end_addr = Some s"
    and "cursor \<le> end_addr" "page_aligned cursor" "page_aligned end_addr"
  shows "cursor \<le> tag_lo s cursor" "tag_lo s cursor \<le> tag_hi s end_addr"
    "tag_hi s end_addr \<le> end_addr" "page_aligned (tag_lo s cursor)"
    "page_aligned (tag_hi s end_addr)"
proof -
  have s: "seg_pages_ok s" "live cursor end_addr s"
    using assms(1) next_kernel_segment_Some [OF assms(2)] by auto
  then show "cursor \<le> tag_lo s cursor" "tag_lo s cursor \<le> tag_hi s end_addr"
    "tag_hi s end_addr \<le> end_addr" "page_aligned (tag_lo s cursor)"
    "page_aligned (tag_hi s end_addr)"
    using assms(3-) by (auto simp: tag_lo_def tag_hi_def live_def seg_pages_ok_def)
qed

lemma tag_gap:
  assumes "\<forall>s\<in>set ss. seg_pages_ok s" "next_kernel_segment ss cursor end_addr = Some s"
    and "unat cursor \<le> a" "a < unat (tag_lo s cursor)"
  shows "\<not> in_segs ss a"
proof
  assume "in_segs ss a"
  then obtain t where t: "t \<in> set ss" "seg_in t a" by (auto simp: in_segs_def list_ex_iff)
  have s: "live cursor end_addr s" "\<forall>t\<in>set ss. live cursor end_addr t \<longrightarrow> seg_page_base s \<le> seg_page_base t"
    using next_kernel_segment_Some [OF assms(2)] by auto
  have "a < unat (seg_page_base s)"
    using assms(3,4) by (auto simp: tag_lo_def split: if_splits)
  moreover have "live cursor end_addr t"
    using t(2) assms(3) s(1) calculation by (simp add: live_def seg_in_def word_less_nat_alt)
  ultimately show False using s(2) t by (force simp: seg_in_def word_le_nat_alt)
qed

lemma tag_body:
  assumes "next_kernel_segment ss cursor end_addr = Some s"
    and "unat (tag_lo s cursor) \<le> a" "a < unat (tag_hi s end_addr)"
  shows "in_segs ss a"
proof -
  have "s \<in> set ss" using next_kernel_segment_Some [OF assms(1)] by simp
  moreover have "seg_in s a"
    using assms(2,3) by (auto simp: seg_in_def tag_lo_def tag_hi_def word_less_nat_alt split: if_splits)
  ultimately show ?thesis by (auto simp: in_segs_def list_ex_iff)
qed

lemma tag_kcount:
  assumes "\<forall>s\<in>set ss. seg_pages_ok s" "next_kernel_segment ss cursor end_addr = Some s"
    and "cursor \<le> end_addr" "page_aligned cursor" "page_aligned end_addr"
  shows "kcount ss (unat cursor) (unat (tag_hi s end_addr)) =
    unat (tag_hi s end_addr - tag_lo s cursor)"
proof -
  note b = tag_bounds [OF assms]
  have "kcount ss (unat cursor) (unat (tag_lo s cursor)) = 0"
    using tag_gap [OF assms(1,2)] by (rule kcount_none)
  moreover have "kcount ss (unat (tag_lo s cursor)) (unat (tag_hi s end_addr)) =
      unat (tag_hi s end_addr) - unat (tag_lo s cursor)"
    using tag_body [OF assms(2)] by (rule kcount_all)
  ultimately show ?thesis
    using b(1,2) kcount_add [of "unat cursor" "unat (tag_lo s cursor)" "unat (tag_hi s end_addr)" ss]
    by (simp add: word_le_nat_alt unat_sub)
qed

text \<open>The two \<^verbatim>\<open>append\<close> calls of one turn of the tagging loop.\<close>

lemma tag_step_extends:
  assumes "\<forall>s\<in>set ss. seg_pages_ok s" "next_kernel_segment ss cursor end_addr = Some s"
    and "cursor \<le> end_addr" "page_aligned cursor" "page_aligned end_addr"
    and "map_wf out" "ends_by out (unat cursor)"
    and "append_entry out cap cursor (tag_lo s cursor) type = Inr out1"
    and "append_entry out1 cap (tag_lo s cursor) (tag_hi s end_addr) SYPAS_MEM_KERNEL = Inr out2"
  shows "extends out (unat cursor) (unat (tag_hi s end_addr)) (kernel_or ss type) out2"
    and "length out2 \<le> length out + 2"
proof -
  note b = tag_bounds [OF assms(1-5)]
  have 1: "extends out (unat cursor) (unat (tag_lo s cursor)) (\<lambda>_. type) out1"
    "length out1 \<le> length out + 1"
    using append_entry_cases [OF assms(6,7) b(1) assms(4) b(4), of cap type] assms(8)
    by (auto split: if_splits)
  then have "map_wf out1" "ends_by out1 (unat (tag_lo s cursor))" by (simp_all add: extends_def)
  from append_entry_cases [OF this b(2) b(4,5), of cap SYPAS_MEM_KERNEL] assms(9)
  have 2: "extends out1 (unat (tag_lo s cursor)) (unat (tag_hi s end_addr)) (\<lambda>_. SYPAS_MEM_KERNEL) out2"
    "length out2 \<le> length out1 + 1"
    by (auto split: if_splits)
  show "extends out (unat cursor) (unat (tag_hi s end_addr)) (kernel_or ss type) out2"
    by (rule extends_trans [OF 1(1) 2(1)])
       (use b tag_gap [OF assms(1,2)] tag_body [OF assms(2)] in
         \<open>auto simp: word_le_nat_alt kernel_or_def\<close>)
  show "length out2 \<le> length out + 2" using 1(2) 2(2) by simp
qed

subsection \<open>The tagging loop\<close>

lemma tag_ranges_step:
  "tag_ranges ss cap type e c out t =
     (case next_kernel_segment ss c e of
        None \<Rightarrow> Some (Inr (out, t, c))
      | Some s \<Rightarrow>
        (case append_entry out cap c (tag_lo s c) type of
           Inl err \<Rightarrow> Some (Inl err)
         | Inr out1 \<Rightarrow>
           (case append_entry out1 cap (tag_lo s c) (tag_hi s e) SYPAS_MEM_KERNEL of
              Inl err \<Rightarrow> Some (Inl err)
            | Inr out2 \<Rightarrow>
              (case add_ok t (tag_hi s e - tag_lo s c) of
                 None \<Rightarrow> Some (Inl SYPAS_MAP_ERR_OUTPUT_OVERFLOW)
               | Some t' \<Rightarrow> tag_ranges ss cap type e (tag_hi s e) out2 t'))))"
  unfolding tag_lo_def tag_hi_def by (rule tag_ranges.simps [unfolded Let_def])

lemma tag_ranges_sound:
  assumes "tag_ranges ss cap type e c out t = Some (Inr (out', t', c'))"
    and "\<forall>s\<in>set ss. seg_pages_ok s" "c \<le> e" "page_aligned c" "page_aligned e"
    and "map_wf out" "ends_by out (unat c)"
  shows "extends out (unat c) (unat c') (kernel_or ss type) out' \<and> c \<le> c' \<and> c' \<le> e \<and>
    page_aligned c' \<and> (\<forall>s\<in>set ss. \<not> live c' e s) \<and>
    unat t' = unat t + kcount ss (unat c) (unat c')"
proof -
  define post where "post = (\<lambda>ss type (e :: u64) c out (t :: u64) r. case r of
      Inl (_ :: sypas_map_status) \<Rightarrow> True
    | Inr (out', t' :: u64, c') \<Rightarrow> extends out (unat c) (unat c') (kernel_or ss type) out' \<and> c \<le> c' \<and> c' \<le> e \<and>
        page_aligned c' \<and> (\<forall>s\<in>set ss. \<not> live c' e s) \<and>
        unat t' = unat t + kcount ss (unat c) (unat c'))"
  have "(\<forall>s\<in>set ss. seg_pages_ok s) \<and> c \<le> e \<and> page_aligned c \<and> page_aligned e \<and>
      map_wf out \<and> ends_by out (unat c) \<longrightarrow> post ss type e c out t (Inr (out', t', c'))"
  proof (rule tag_ranges.raw_induct [OF _ assms(1)], intro impI, elim conjE)
    fix f ss cap type e c out t r
    assume IH: "\<And>ss cap type e c out t r. f ss cap type e c out t = Some r \<Longrightarrow>
        (\<forall>s\<in>set ss. seg_pages_ok s) \<and> c \<le> e \<and> page_aligned c \<and> page_aligned e \<and>
        map_wf out \<and> ends_by out (unat c) \<longrightarrow> post ss type e c out t r"
      and body: "(case next_kernel_segment ss c e of
        None \<Rightarrow> Some (Inr (out, t, c))
      | Some s \<Rightarrow>
        let lo = (if seg_page_base s > c then seg_page_base s else c);
            hi = (if seg_page_end s < e then seg_page_end s else e)
        in case append_entry out cap c lo type of
             Inl err \<Rightarrow> Some (Inl err)
           | Inr out1 \<Rightarrow>
             (case append_entry out1 cap lo hi SYPAS_MEM_KERNEL of
                Inl err \<Rightarrow> Some (Inl err)
              | Inr out2 \<Rightarrow>
                (case add_ok t (hi - lo) of
                   None \<Rightarrow> Some (Inl SYPAS_MAP_ERR_OUTPUT_OVERFLOW)
                 | Some t' \<Rightarrow> f ss cap type e hi out2 t'))) = Some r"
      and pre: "\<forall>s\<in>set ss. seg_pages_ok s" "c \<le> e" "page_aligned c" "page_aligned e"
        "map_wf out" "ends_by out (unat c)"
    show "post ss type e c out t r"
    proof (cases "next_kernel_segment ss c e")
      case None
      with body pre show ?thesis
        by (auto simp: post_def extends_empty next_kernel_segment_None)
    next
      case (Some s)
      note b = tag_bounds [OF pre(1) Some pre(2-4)]
      show ?thesis
      proof (cases r)
        case (Inr q)
        then obtain out1 out2 t1 where step:
          "append_entry out cap c (tag_lo s c) type = Inr out1"
          "append_entry out1 cap (tag_lo s c) (tag_hi s e) SYPAS_MEM_KERNEL = Inr out2"
          "add_ok t (tag_hi s e - tag_lo s c) = Some t1"
          "f ss cap type e (tag_hi s e) out2 t1 = Some r"
          using body Some
          by (auto simp: Let_def tag_lo_def [symmetric] tag_hi_def [symmetric]
              split: sum.splits option.splits)
        obtain outq tq cq where q: "q = (outq, tq, cq)" by (cases q)
        have x: "extends out (unat c) (unat (tag_hi s e)) (kernel_or ss type) out2"
          using tag_step_extends(1) [OF pre(1) Some pre(2-6) step(1,2)] .
        then have "map_wf out2" "ends_by out2 (unat (tag_hi s e))" by (simp_all add: extends_def)
        then have "post ss type e (tag_hi s e) out2 t1 r"
          using IH [OF step(4)] b pre(1,4) by simp
        then have y: "extends out2 (unat (tag_hi s e)) (unat cq) (kernel_or ss type) outq"
          "tag_hi s e \<le> cq" "cq \<le> e" "page_aligned cq" "\<forall>s\<in>set ss. \<not> live cq e s"
          "unat tq = unat t1 + kcount ss (unat (tag_hi s e)) (unat cq)"
          using Inr q by (simp_all add: post_def)
        have hi: "unat c \<le> unat (tag_hi s e)" "unat (tag_hi s e) \<le> unat cq"
          using b y(2) by (simp_all add: word_le_nat_alt)
        have "unat t1 = unat t + kcount ss (unat c) (unat (tag_hi s e))"
          using step(3) tag_kcount [OF pre(1) Some pre(2-4)] by (simp add: add_ok_Some_iff)
        then have "unat tq = unat t + kcount ss (unat c) (unat cq)"
          using y(6) kcount_add [OF hi, of ss] by simp
        moreover have "extends out (unat c) (unat cq) (kernel_or ss type) outq"
          using extends_trans [OF x y(1) hi] by simp
        ultimately show ?thesis
          using Inr q y b by (auto simp: post_def)
      qed (simp add: post_def)
    qed
  qed
  then show ?thesis using assms(2-) by (simp add: post_def)
qed

lemma tag_ranges_stuck:
  assumes "s0 \<in> set ss" "crosses e s0"
  shows "tag_ranges ss cap type e e out t = None"
proof (rule ccontr)
  assume "tag_ranges ss cap type e e out t \<noteq> None"
  then obtain r where r: "tag_ranges ss cap type e e out t = Some r" by auto
  have "\<not> (c = e \<and> (\<exists>s\<in>set ss. crosses e s))"
    if "tag_ranges ss cap type e c out t = Some r" for c
  proof (rule tag_ranges.raw_induct [OF _ that])
    fix f ss cap type e c out t r
    assume IH: "\<And>ss cap type e c out t r. f ss cap type e c out t = Some r \<Longrightarrow>
        \<not> (c = e \<and> (\<exists>s\<in>set ss. crosses e s))"
      and body: "(case next_kernel_segment ss c e of
        None \<Rightarrow> Some (Inr (out, t, c))
      | Some s \<Rightarrow>
        let lo = (if seg_page_base s > c then seg_page_base s else c);
            hi = (if seg_page_end s < e then seg_page_end s else e)
        in case append_entry out cap c lo type of
             Inl err \<Rightarrow> Some (Inl err)
           | Inr out1 \<Rightarrow>
             (case append_entry out1 cap lo hi SYPAS_MEM_KERNEL of
                Inl err \<Rightarrow> Some (Inl err)
              | Inr out2 \<Rightarrow>
                (case add_ok t (hi - lo) of
                   None \<Rightarrow> Some (Inl SYPAS_MAP_ERR_OUTPUT_OVERFLOW)
                 | Some t' \<Rightarrow> f ss cap type e hi out2 t'))) = Some r"
    show "\<not> (c = e \<and> (\<exists>s\<in>set ss. crosses e s))"
    proof
      assume c: "c = e \<and> (\<exists>s\<in>set ss. crosses e s)"
      then obtain s1 where "s1 \<in> set ss" "live c e s1" by (auto simp: crosses_def live_def)
      then obtain s where s: "next_kernel_segment ss c e = Some s"
        using next_kernel_segment_None [of ss c e] by auto
      then have "live c e s" using next_kernel_segment_Some by blast
      then have "f ss cap type e e out t = Some r"
        using body s c by (auto simp: live_def append_entry_def add_ok_eq unat_u64_less [simplified]
            split: if_splits option.splits)
      from IH [OF this] c show False by simp
    qed
  qed
  from this [OF r] assms show False by auto
qed

definition dead :: "elf_segment list \<Rightarrow> u64 \<Rightarrow> nat" where
  "dead ss c = length (filter (\<lambda>s. seg_page_end s \<le> c) ss)"

lemma dead_le: "dead ss c \<le> length ss"
  by (simp add: dead_def)

lemma dead_mono: "c \<le> d \<Longrightarrow> dead ss c \<le> dead ss d"
  unfolding dead_def by (induction ss) auto

lemma dead_step:
  "s \<in> set ss \<Longrightarrow> c < seg_page_end s \<Longrightarrow> seg_page_end s \<le> d \<Longrightarrow> dead ss c < dead ss d"
proof (induction ss)
  case (Cons u ss)
  have "dead ss c \<le> dead ss d" using Cons.prems by (intro dead_mono) simp
  with Cons show ?case by (auto simp: dead_def)
qed simp

lemma dead_live: "s \<in> set ss \<Longrightarrow> c < seg_page_end s \<Longrightarrow> dead ss c < length ss"
  using dead_step [of s ss c "seg_page_end s"] dead_le [of ss "seg_page_end s"] by simp

text \<open>One turn of the loop with room for two more entries never fails.\<close>

lemma tag_step_ok:
  assumes "\<forall>s\<in>set ss. seg_pages_ok s" "next_kernel_segment ss c e = Some s"
    and "c \<le> e" "page_aligned c" "page_aligned e"
    and "map_wf out" "ends_by out (unat c)" "unat t \<le> unat c"
    and "length out + 2 \<le> unat (cap :: u64)"
  shows "\<exists>out2 t2. tag_ranges ss cap type e c out t = tag_ranges ss cap type e (tag_hi s e) out2 t2 \<and>
    map_wf out2 \<and> ends_by out2 (unat (tag_hi s e)) \<and> unat t2 \<le> unat (tag_hi s e) \<and>
    length out2 \<le> length out + 2"
proof -
  note b = tag_bounds [OF assms(1-5)]
  have room: "of_nat (length xs) \<noteq> cap" if "length xs < unat cap" for xs :: "sypas_memmap_entry list"
  proof
    assume "of_nat (length xs) = cap"
    then have "unat cap = length xs mod 2 ^ 64" by (auto simp: unat_of_nat)
    with that show False using mod_less_eq_dividend [of "length xs" "2 ^ 64"] by simp
  qed
  from append_entry_cases [OF assms(6,7) b(1) assms(4) b(4), of cap type] assms(9) room [of out]
  obtain out1 where o1: "append_entry out cap c (tag_lo s c) type = Inr out1"
    "length out1 \<le> length out + 1" "map_wf out1" "ends_by out1 (unat (tag_lo s c))"
    by (auto simp: extends_def split: if_splits)
  from append_entry_cases [OF o1(3,4) b(2) b(4,5), of cap SYPAS_MEM_KERNEL] assms(9) o1(2) room [of out1]
  obtain out2 where o2: "append_entry out1 cap (tag_lo s c) (tag_hi s e) SYPAS_MEM_KERNEL = Inr out2"
    by (auto split: if_splits)
  have d: "unat (tag_hi s e - tag_lo s c) = unat (tag_hi s e) - unat (tag_lo s c)"
    using b(2) by (simp add: unat_sub)
  have sum: "unat t + unat (tag_hi s e - tag_lo s c) \<le> unat (tag_hi s e)"
    using b assms(8) d by (simp add: word_le_nat_alt)
  then have "unat t + unat (tag_hi s e - tag_lo s c) < 2 ^ 64"
    using unat_u64_less [of "tag_hi s e"] by simp
  then obtain t2 where t2: "add_ok t (tag_hi s e - tag_lo s c) = Some t2"
    by (simp add: add_ok_eq)
  then have "unat t2 \<le> unat (tag_hi s e)" using sum by (simp add: add_ok_Some_iff)
  moreover have "tag_ranges ss cap type e c out t = tag_ranges ss cap type e (tag_hi s e) out2 t2"
    by (subst tag_ranges_step) (simp add: assms(2) o1(1) o2 t2)
  ultimately show ?thesis
    using tag_step_extends [OF assms(1-7) o1(1) o2] by (auto simp: extends_def)
qed

lemma tag_hi_progress:
  assumes "next_kernel_segment ss c e = Some s" and "\<not> crosses e s"
  shows "tag_hi s e = seg_page_end s" and "c < tag_hi s e" and "dead ss c < dead ss (tag_hi s e)"
proof -
  have s: "s \<in> set ss" "live c e s" using next_kernel_segment_Some [OF assms(1)] by auto
  then show 1: "tag_hi s e = seg_page_end s"
    using assms(2) by (auto simp: tag_hi_def crosses_def live_def)
  show "c < tag_hi s e" using s 1 by (simp add: live_def)
  show "dead ss c < dead ss (tag_hi s e)"
    using s 1 by (intro dead_step [of s]) (simp_all add: live_def)
qed

lemma tag_ranges_total:
  assumes "\<forall>s\<in>set ss. seg_pages_ok s" "\<forall>s\<in>set ss. \<not> crosses e s"
    and "c \<le> e" "page_aligned c" "page_aligned e" "map_wf out" "ends_by out (unat c)"
    and "unat t \<le> unat c" "length out \<le> k + 2 * dead ss c" "k + 2 * length ss \<le> unat cap"
  shows "\<exists>out' t' c'. tag_ranges ss cap type e c out t = Some (Inr (out', t', c')) \<and>
    length out' \<le> k + 2 * dead ss c'"
  using assms(3-)
proof (induction "unat e - unat c" arbitrary: c out t rule: less_induct)
  case less
  show ?case
  proof (cases "next_kernel_segment ss c e")
    case None
    then show ?thesis using less.prems(7) by (subst tag_ranges_step) simp
  next
    case (Some s)
    have s: "s \<in> set ss" "live c e s" using next_kernel_segment_Some [OF Some] by auto
    with assms(2) have nc: "\<not> crosses e s" by blast
    note p = tag_hi_progress [OF Some nc] and b = tag_bounds [OF assms(1) Some less.prems(1-3)]
    have "dead ss c < length ss" using s by (intro dead_live [of s]) (simp_all add: live_def)
    then have "length out + 2 \<le> unat cap" using less.prems(7,8) by simp
    from tag_step_ok [OF assms(1) Some less.prems(1-6) this, of type]
    obtain out2 t2 where step:
      "tag_ranges ss cap type e c out t = tag_ranges ss cap type e (tag_hi s e) out2 t2"
      "map_wf out2" "ends_by out2 (unat (tag_hi s e))" "unat t2 \<le> unat (tag_hi s e)"
      "length out2 \<le> length out + 2" by auto
    have "unat e - unat (tag_hi s e) < unat e - unat c"
      using p(2) b(3) by (simp add: word_less_nat_alt word_le_nat_alt)
    moreover have "length out2 \<le> k + 2 * dead ss (tag_hi s e)"
      using step(5) less.prems(7) p(3) by simp
    ultimately show ?thesis
      using less.hyps [of "tag_hi s e" out2 t2] step b less.prems(3,8) by simp
  qed
qed

lemma tag_ranges_diverges:
  assumes "\<forall>s\<in>set ss. seg_pages_ok s" "s0 \<in> set ss" "crosses e s0"
    and "c \<le> e" "page_aligned c" "page_aligned e" "map_wf out" "ends_by out (unat c)"
    and "unat t \<le> unat c" "length out \<le> k + 2 * dead ss c" "k + 2 * length ss \<le> unat cap"
  shows "tag_ranges ss cap type e c out t = None"
  using assms(4-)
proof (induction "unat e - unat c" arbitrary: c out t rule: less_induct)
  case less
  show ?case
  proof (cases "c = e")
    case True
    then show ?thesis using tag_ranges_stuck [OF assms(2,3)] by simp
  next
    case False
    have s0: "live c e s0" using assms(3) less.prems(1) by (auto simp: crosses_def live_def)
    then obtain s where Some: "next_kernel_segment ss c e = Some s"
      using next_kernel_segment_None [of ss c e] assms(2) by auto
    have s: "s \<in> set ss" "live c e s" using next_kernel_segment_Some [OF Some] by auto
    note b = tag_bounds [OF assms(1) Some less.prems(1-3)]
    have "dead ss c < length ss" using s by (intro dead_live [of s]) (simp_all add: live_def)
    then have "length out + 2 \<le> unat cap" using less.prems(7,8) by simp
    from tag_step_ok [OF assms(1) Some less.prems(1-6) this, of type]
    obtain out2 t2 where step:
      "tag_ranges ss cap type e c out t = tag_ranges ss cap type e (tag_hi s e) out2 t2"
      "map_wf out2" "ends_by out2 (unat (tag_hi s e))" "unat t2 \<le> unat (tag_hi s e)"
      "length out2 \<le> length out + 2" by auto
    show ?thesis
    proof (cases "crosses e s")
      case True
      then have "tag_hi s e = e" by (auto simp: tag_hi_def crosses_def)
      then show ?thesis using step(1) tag_ranges_stuck [OF assms(2,3)] by simp
    next
      case nc: False
      note p = tag_hi_progress [OF Some nc]
      have "unat e - unat (tag_hi s e) < unat e - unat c"
        using p(2) b(3) by (simp add: word_less_nat_alt word_le_nat_alt)
      moreover have "length out2 \<le> k + 2 * dead ss (tag_hi s e)"
        using step(5) less.prems(7) p(3) by simp
      ultimately show ?thesis
        using less.hyps [of "tag_hi s e" out2 t2] step b less.prems(3,8) by simp
    qed
  qed
qed

subsection \<open>One descriptor\<close>

definition d_lo :: "EFI_MEMORY_DESCRIPTOR \<Rightarrow> nat" where
  "d_lo d = unat (ed_PhysicalStart d)"

definition d_hi :: "EFI_MEMORY_DESCRIPTOR \<Rightarrow> nat" where
  "d_hi d = unat (ed_PhysicalStart d) + unat (ed_NumberOfPages d) * 4096"

definition desc_ok :: "EFI_MEMORY_DESCRIPTOR \<Rightarrow> bool" where
  "desc_ok d \<longleftrightarrow> d_lo d mod 4096 = 0 \<and> d_lo d < d_hi d \<and> d_hi d < 2 ^ 64"

definition is_loader :: "EFI_MEMORY_DESCRIPTOR \<Rightarrow> bool" where
  "is_loader d \<longleftrightarrow> efi_to_sypas_memtype (ed_Type d) = SYPAS_MEM_LOADER"

definition desc_class :: "elf_segment list \<Rightarrow> EFI_MEMORY_DESCRIPTOR \<Rightarrow> nat \<Rightarrow> u32" where
  "desc_class ss d a =
     (if is_loader d \<and> in_segs ss a then SYPAS_MEM_KERNEL else efi_to_sypas_memtype (ed_Type d))"

definition seg_crosses_end :: "EFI_MEMORY_DESCRIPTOR \<Rightarrow> elf_segment \<Rightarrow> bool" where
  "seg_crosses_end d s \<longleftrightarrow> is_loader d \<and> unat (seg_page_base s) < d_hi d \<and> d_hi d < unat (seg_page_end s)"

definition desc_kbytes :: "elf_segment list \<Rightarrow> EFI_MEMORY_DESCRIPTOR \<Rightarrow> nat" where
  "desc_kbytes ss d = (if is_loader d then kcount ss (d_lo d) (d_hi d) else 0)"

definition desc_end :: "EFI_MEMORY_DESCRIPTOR \<Rightarrow> u64" where
  "desc_end d = ed_PhysicalStart d + ed_NumberOfPages d * 4096"

lemma desc_okD:
  assumes "desc_ok d"
  shows "unat (desc_end d) = d_hi d" "page_aligned (ed_PhysicalStart d)" "page_aligned (desc_end d)"
    "ed_PhysicalStart d \<le> desc_end d" "ed_PhysicalStart d < desc_end d"
    "mul_ok (ed_NumberOfPages d) 4096 = Some (ed_NumberOfPages d * 4096)"
    "add_ok (ed_PhysicalStart d) (ed_NumberOfPages d * 4096) = Some (desc_end d)"
    "ed_NumberOfPages d \<noteq> 0" "ed_PhysicalStart d AND 4095 = 0"
proof -
  have lt: "unat (ed_NumberOfPages d) * 4096 < 2 ^ 64" "d_hi d < 2 ^ 64"
    using assms by (simp_all add: desc_ok_def d_hi_def)
  have m: "unat (ed_NumberOfPages d * 4096) = unat (ed_NumberOfPages d) * 4096"
    using lt by (subst unat_mult_lem [THEN iffD1]) simp_all
  show mo: "mul_ok (ed_NumberOfPages d) 4096 = Some (ed_NumberOfPages d * 4096)"
    using lt m by (simp add: mul_ok_Some_iff)
  show e: "unat (desc_end d) = d_hi d"
    using lt m unfolding desc_end_def d_hi_def by (subst unat_add_lem [THEN iffD1]) simp_all
  show "add_ok (ed_PhysicalStart d) (ed_NumberOfPages d * 4096) = Some (desc_end d)"
    using lt m e by (simp add: add_ok_Some_iff d_hi_def)
  show "page_aligned (ed_PhysicalStart d)"
    using assms by (simp add: desc_ok_def page_aligned_def d_lo_def)
  then show "page_aligned (desc_end d)"
    using e by (simp add: page_aligned_def d_hi_def)
  show "ed_PhysicalStart d < desc_end d"
    using e assms by (simp add: word_less_nat_alt desc_ok_def d_lo_def)
  then show "ed_PhysicalStart d \<le> desc_end d" by simp
  show "ed_NumberOfPages d \<noteq> 0" using assms by (auto simp: desc_ok_def d_lo_def d_hi_def)
  show "ed_PhysicalStart d AND 4095 = 0"
    using \<open>page_aligned (ed_PhysicalStart d)\<close>
    by (simp add: page_aligned_def word_unat_eq_iff unat_and_4095)
qed

lemma desc_okI:
  assumes "ed_NumberOfPages d \<noteq> 0" "ed_PhysicalStart d AND 4095 = 0"
    "mul_ok (ed_NumberOfPages d) 4096 = Some len" "add_ok (ed_PhysicalStart d) len = Some e"
  shows "desc_ok d" and "e = desc_end d"
proof -
  have "unat (ed_PhysicalStart d) mod 4096 = 0"
    using assms(2) by (simp add: word_unat_eq_iff unat_and_4095)
  moreover have "0 < unat (ed_NumberOfPages d)" using assms(1) by (simp add: unat_gt_0)
  moreover have len: "unat len = unat (ed_NumberOfPages d) * 4096"
    using assms(3) by (simp add: mul_ok_Some_iff)
  ultimately show ok: "desc_ok d"
    using assms(4) by (simp add: desc_ok_def d_lo_def d_hi_def add_ok_Some_iff)
  show "e = desc_end d" using desc_okD(6,7) [OF ok] assms(3,4) by simp
qed

definition room :: "nat \<Rightarrow> elf_segment list \<Rightarrow> u64 \<Rightarrow> bool" where
  "room n ss cap \<longleftrightarrow> n + 2 * length ss \<le> unat cap"

lemma translate_descriptor_sound:
  assumes "translate_descriptor efi_map ds k d ss cap prev tagged out = Some (Inr (out', tagged', e))"
    and "\<forall>s\<in>set ss. seg_pages_ok s" "map_wf out" "ends_by out (unat prev)" "k = 0 \<longrightarrow> prev = 0"
    and "0 < ds"
  shows "desc_ok d" "e = desc_end d" "prev \<le> ed_PhysicalStart d"
    "\<forall>s\<in>set ss. \<not> seg_crosses_end d s"
    "extends out (d_lo d) (d_hi d) (desc_class ss d) out'"
    "unat tagged' = unat tagged + desc_kbytes ss d"
proof -
  let ?ty = "efi_to_sypas_memtype (ed_Type d)"
  obtain len out1 c where g: "ed_NumberOfPages d \<noteq> 0" "ed_PhysicalStart d AND 4095 = 0"
    "mul_ok (ed_NumberOfPages d) 4096 = Some len" "add_ok (ed_PhysicalStart d) len = Some e"
    "k = 0 \<or> \<not> ed_PhysicalStart d < prev"
    "(if is_loader d then tag_ranges ss cap ?ty e (ed_PhysicalStart d) out tagged
      else Some (Inr (out, tagged, ed_PhysicalStart d))) = Some (Inr (out1, tagged', c))"
    "append_entry out1 cap c e ?ty = Inr out'"
    using assms(1,6) unfolding translate_descriptor_def Let_def is_loader_def
    by (simp split: if_split_asm option.split_asm sum.split_asm prod.split_asm)
  show ok: "desc_ok d" and e: "e = desc_end d" using desc_okI [OF g(1-4)] by simp_all
  show prev: "prev \<le> ed_PhysicalStart d" using g(5) assms(5) by auto
  note D = desc_okD [OF ok]
  have ends: "ends_by out (unat (ed_PhysicalStart d))"
    using assms(4) prev by (auto simp: word_le_nat_alt intro: ends_by_mono)
  have mid: "extends out (d_lo d) (unat c) (desc_class ss d) out1 \<and> ed_PhysicalStart d \<le> c \<and> c \<le> e \<and>
      page_aligned c \<and> (is_loader d \<longrightarrow> (\<forall>s\<in>set ss. \<not> live c e s)) \<and>
      unat tagged' = unat tagged + (if is_loader d then kcount ss (d_lo d) (unat c) else 0)"
  proof (cases "is_loader d")
    case True
    then have "tag_ranges ss cap ?ty e (ed_PhysicalStart d) out tagged = Some (Inr (out1, tagged', c))"
      using g(6) by simp
    from tag_ranges_sound [OF this assms(2) _ D(2) _ assms(3) ends] D e True
    show ?thesis
      by (auto simp: d_lo_def extends_def desc_class_def kernel_or_def)
  next
    case False
    then show ?thesis
      using g(6) D e assms(3) ends by (auto simp: d_lo_def intro: extends_empty)
  qed
  then have m: "map_wf out1" "ends_by out1 (unat c)" by (simp_all add: extends_def)
  have dead_seg: "\<not> in_segs ss a" if "is_loader d" "unat c \<le> a" "a < d_hi d" for a
  proof
    assume "in_segs ss a"
    then obtain s where "s \<in> set ss" "seg_in s a" by (auto simp: in_segs_def list_ex_iff)
    moreover from this have "live c e s"
      using that D(1) e by (auto simp: live_def seg_in_def word_less_nat_alt)
    ultimately show False using mid that(1) by blast
  qed
  show "\<forall>s\<in>set ss. \<not> seg_crosses_end d s"
  proof (intro ballI notI)
    fix s assume "s \<in> set ss" "seg_crosses_end d s"
    then show False using mid D(1) e
      by (auto simp: seg_crosses_end_def live_def word_less_nat_alt word_le_nat_alt)
  qed
  have "extends out1 (unat c) (d_hi d) (\<lambda>_. ?ty) out'"
    using append_entry_cases [OF m, of e cap ?ty] g(7) mid D e by (auto split: if_splits)
  then show "extends out (d_lo d) (d_hi d) (desc_class ss d) out'"
    by (rule extends_trans [OF conjunct1 [OF mid]])
      (use mid D e dead_seg in \<open>auto simp: d_lo_def word_le_nat_alt desc_class_def\<close>)
  have "kcount ss (unat c) (d_hi d) = 0" if "is_loader d"
    using dead_seg [OF that] by (rule kcount_none)
  then show "unat tagged' = unat tagged + desc_kbytes ss d"
    using mid D(1) e kcount_add [of "d_lo d" "unat c" "d_hi d" ss]
    by (auto simp: desc_kbytes_def d_lo_def word_le_nat_alt)
qed

subsection \<open>The descriptor loop\<close>

lemma translate_descriptor_ok_eq:
  assumes "desc_ok d" "(efi_map + of_nat (k * ds)) AND 7 = 0" "prev \<le> ed_PhysicalStart d"
  shows "translate_descriptor efi_map ds k d ss cap prev tagged out =
    (case (if is_loader d
           then tag_ranges ss cap (efi_to_sypas_memtype (ed_Type d)) (desc_end d) (ed_PhysicalStart d) out tagged
           else Some (Inr (out, tagged, ed_PhysicalStart d))) of
       None \<Rightarrow> None
     | Some (Inl e) \<Rightarrow> Some (Inl (e, no_diagnostic))
     | Some (Inr (out1, tagged1, cursor)) \<Rightarrow>
       (case append_entry out1 cap cursor (desc_end d) (efi_to_sypas_memtype (ed_Type d)) of
          Inl e \<Rightarrow> Some (Inl (e, no_diagnostic))
        | Inr out2 \<Rightarrow> Some (Inr (out2, tagged1, desc_end d))))"
  using assms desc_okD [OF assms(1)]
  unfolding translate_descriptor_def Let_def is_loader_def by (simp add: not_less [symmetric])

lemma seg_crosses_end_iff:
  "desc_ok d \<Longrightarrow> seg_crosses_end d s \<longleftrightarrow> is_loader d \<and> crosses (desc_end d) s"
  using desc_okD(1) [of d] by (auto simp: seg_crosses_end_def crosses_def word_less_nat_alt)

lemma of_nat_length_neq: "length xs < unat (cap :: u64) \<Longrightarrow> of_nat (length xs) \<noteq> cap"
proof
  assume "length xs < unat cap" and "of_nat (length xs) = cap"
  then have "unat cap = length xs mod 2 ^ 64" by (auto simp: unat_of_nat)
  then have "unat cap \<le> length xs" by simp
  with \<open>length xs < unat cap\<close> show False by simp
qed

lemma translate_descriptor_total:
  assumes d: "desc_ok d" "(efi_map + of_nat (k * ds)) AND 7 = 0" "prev \<le> ed_PhysicalStart d"
    and ss: "\<forall>s\<in>set ss. seg_pages_ok s" "\<forall>s\<in>set ss. \<not> seg_crosses_end d s"
    and st: "map_wf out" "ends_by out (unat prev)" "unat tagged \<le> unat prev" "k = 0 \<longrightarrow> prev = 0"
    and sz: "length out \<le> k + 2 * dead ss prev" "k + 2 * length ss < unat cap" and "0 < ds"
  shows "\<exists>out' tagged'. translate_descriptor efi_map ds k d ss cap prev tagged out =
      Some (Inr (out', tagged', desc_end d)) \<and>
    length out' \<le> Suc k + 2 * dead ss (desc_end d) \<and> unat tagged' \<le> unat (desc_end d)"
proof -
  let ?ty = "efi_to_sypas_memtype (ed_Type d)" and ?e = "desc_end d" and ?b = "ed_PhysicalStart d"
  note D = desc_okD [OF d(1)]
  have ends: "ends_by out (unat ?b)" and t: "unat tagged \<le> unat ?b"
    and len: "length out \<le> k + 2 * dead ss ?b"
    using st d(3) sz(1) dead_mono [OF d(3), of ss]
    by (auto simp: word_le_nat_alt intro: ends_by_mono)
  have "\<exists>out1 tagged1 c. (if is_loader d then tag_ranges ss cap ?ty ?e ?b out tagged
           else Some (Inr (out, tagged, ?b))) = Some (Inr (out1, tagged1, c)) \<and>
      length out1 \<le> k + 2 * dead ss ?e \<and> map_wf out1 \<and> ends_by out1 (unat c) \<and> c \<le> ?e \<and>
      page_aligned c"
  proof (cases "is_loader d")
    case True
    then have nc: "\<forall>s\<in>set ss. \<not> crosses ?e s" using ss(2) seg_crosses_end_iff [OF d(1)] by simp
    obtain out1 tagged1 c where r: "tag_ranges ss cap ?ty ?e ?b out tagged = Some (Inr (out1, tagged1, c))"
      "length out1 \<le> k + 2 * dead ss c"
      using tag_ranges_total [OF ss(1) nc D(4,2,3) st(1) ends t len less_imp_le [OF sz(2)], of ?ty]
      by blast
    have s: "extends out (unat ?b) (unat c) (kernel_or ss ?ty) out1 \<and> ?b \<le> c \<and> c \<le> ?e \<and> page_aligned c"
      using tag_ranges_sound [OF r(1) ss(1) D(4,2,3) st(1) ends] by blast
    then have "length out1 \<le> k + 2 * dead ss ?e" using r(2) dead_mono [of c ?e ss] by simp
    with True r(1) s show ?thesis by (auto simp: extends_def)
  next
    case False
    have "length out \<le> k + 2 * dead ss ?e" using len dead_mono [OF D(4), of ss] by simp
    with False st(1) ends D show ?thesis by auto
  qed
  then obtain out1 tagged1 c where r1: "(if is_loader d then tag_ranges ss cap ?ty ?e ?b out tagged
           else Some (Inr (out, tagged, ?b))) = Some (Inr (out1, tagged1, c))"
      "length out1 \<le> k + 2 * dead ss ?e" "map_wf out1" "ends_by out1 (unat c)" "c \<le> ?e" "page_aligned c"
    by blast
  have "length out1 < unat cap" using r1(2) dead_le [of ss ?e] sz(2) by simp
  then obtain out2 where r2: "append_entry out1 cap c ?e ?ty = Inr out2" "length out2 \<le> length out1 + 1"
    using append_entry_cases [OF r1(3-6) D(3), of cap ?ty] of_nat_length_neq [of out1 cap]
    by (auto split: if_splits)
  have r: "translate_descriptor efi_map ds k d ss cap prev tagged out = Some (Inr (out2, tagged1, ?e))"
    by (simp add: translate_descriptor_ok_eq [OF d] r1(1) r2(1))
  from translate_descriptor_sound(6) [OF r ss(1) st(1,2,4) \<open>0 < ds\<close>]
  have "unat tagged1 \<le> unat ?b + (d_hi d - d_lo d)"
    using t kcount_le [of ss "d_lo d" "d_hi d"] by (simp add: desc_kbytes_def)
  then have "unat tagged1 \<le> unat ?e" using D(1) d(1) by (simp add: desc_ok_def d_lo_def)
  with r r1(2) r2(2) show ?thesis by auto
qed

lemma translate_descriptor_diverges:
  assumes d: "desc_ok d" "(efi_map + of_nat (k * ds)) AND 7 = 0" "prev \<le> ed_PhysicalStart d"
    and ss: "\<forall>s\<in>set ss. seg_pages_ok s" "s \<in> set ss" "seg_crosses_end d s"
    and st: "map_wf out" "ends_by out (unat prev)" "unat tagged \<le> unat prev"
    and sz: "length out \<le> k + 2 * dead ss prev" "k + 2 * length ss < unat cap"
  shows "translate_descriptor efi_map ds k d ss cap prev tagged out = None"
proof -
  let ?ty = "efi_to_sypas_memtype (ed_Type d)" and ?e = "desc_end d" and ?b = "ed_PhysicalStart d"
  note D = desc_okD [OF d(1)]
  have ends: "ends_by out (unat ?b)" and t: "unat tagged \<le> unat ?b"
    and len: "length out \<le> k + 2 * dead ss ?b"
    using st d(3) sz(1) dead_mono [OF d(3), of ss]
    by (auto simp: word_le_nat_alt intro: ends_by_mono)
  have c: "is_loader d" "crosses ?e s" using ss(3) seg_crosses_end_iff [OF d(1)] by auto
  have "tag_ranges ss cap ?ty ?e ?b out tagged = None"
    using tag_ranges_diverges [OF ss(1,2) c(2) D(4,2,3) st(1) ends t len] sz(2) by simp
  then show ?thesis using c by (simp add: translate_descriptor_ok_eq [OF d])
qed

fun translate_list :: "u64 \<Rightarrow> nat \<Rightarrow> elf_segment list \<Rightarrow> u64 \<Rightarrow> nat \<Rightarrow> EFI_MEMORY_DESCRIPTOR list \<Rightarrow>
    u64 \<Rightarrow> u64 \<Rightarrow> sypas_memmap_entry list \<Rightarrow>
    (sypas_map_status \<times> sypas_map_diagnostic + sypas_memmap_entry list \<times> u64) option" where
  "translate_list efi_map ds ss cap k [] prev tagged out = Some (Inr (out, tagged))"
| "translate_list efi_map ds ss cap k (d # dl) prev tagged out =
    (case translate_descriptor efi_map ds k d ss cap prev tagged out of
       None \<Rightarrow> None
     | Some (Inl e) \<Rightarrow> Some (Inl e)
     | Some (Inr (out1, tagged1, end_addr)) \<Rightarrow>
       translate_list efi_map ds ss cap (Suc k) dl end_addr tagged1 out1)"

definition chunk_desc :: "u8 list \<Rightarrow> EFI_MEMORY_DESCRIPTOR" where
  "chunk_desc c = decode_descriptor (take 40 c)"

lemma translate_loop_list:
  assumes "chunked ds cs" "40 \<le> ds" "k \<le> length cs"
  shows "translate_loop efi_map (concat cs) ds ss cap k (length cs - k) prev tagged out =
    translate_list efi_map ds ss cap k (map chunk_desc (drop k cs)) prev tagged out"
  using assms(3)
proof (induction "length cs - k" arbitrary: k prev tagged out)
  case (Suc n)
  then have k: "k < length cs" by simp
  then have n: "length cs - k = Suc (length cs - Suc k)" by simp
  have len: "k * ds + ds \<le> length (concat cs)"
  proof -
    have "Suc k * ds \<le> length cs * ds" by (rule mult_le_mono1) (use k in simp)
    then show ?thesis using assms(1) by (simp add: length_concat_chunked)
  qed
  have "take 40 (drop (k * ds) (concat cs)) = take 40 (take ds (drop (k * ds) (concat cs)))"
    using assms(2) by (simp add: min_def)
  then have "byte_slice (concat cs) (k * ds) sizeof_descriptor = Some (take 40 (cs ! k))"
    using len assms(1,2) k by (simp add: byte_slice_def sizeof_descriptor_def chunk_at)
  moreover have "translate_loop efi_map (concat cs) ds ss cap (Suc k) (length cs - Suc k) p t o1 =
      translate_list efi_map ds ss cap (Suc k) (map chunk_desc (drop (Suc k) cs)) p t o1" for p t o1
    using Suc.hyps(1) [of "Suc k"] Suc.hyps(2) k by simp
  ultimately show ?case
    using k by (simp add: n Cons_nth_drop_Suc [symmetric] chunk_desc_def
        split: option.split sum.split prod.split)
qed simp

definition descs_ok :: "EFI_MEMORY_DESCRIPTOR list \<Rightarrow> bool" where
  "descs_ok dl \<longleftrightarrow> (\<forall>d\<in>set dl. desc_ok d) \<and> sorted_wrt (\<lambda>d e. d_hi d \<le> d_lo e) dl"

definition class_at :: "elf_segment list \<Rightarrow> EFI_MEMORY_DESCRIPTOR list \<Rightarrow> nat \<Rightarrow> u32 option" where
  "class_at ss dl a =
     map_option (\<lambda>d. desc_class ss d a) (find (\<lambda>d. d_lo d \<le> a \<and> a < d_hi d) dl)"

lemma class_at_Cons:
  "class_at ss (d # dl) a = (if d_lo d \<le> a \<and> a < d_hi d then Some (desc_class ss d a) else class_at ss dl a)"
  by (simp add: class_at_def)

lemma class_at_below: "\<forall>d\<in>set dl. c \<le> d_lo d \<Longrightarrow> a < c \<Longrightarrow> class_at ss dl a = None"
  by (force simp: class_at_def find_None_iff)

lemma translate_list_sound:
  assumes "translate_list efi_map ds ss cap k dl prev tagged out = Some (Inr (out', tagged'))"
    and "\<forall>s\<in>set ss. seg_pages_ok s" "map_wf out" "ends_by out (unat prev)" "k = 0 \<longrightarrow> prev = 0" "0 < ds"
  shows "descs_ok dl \<and> (\<forall>d\<in>set dl. unat prev \<le> d_lo d) \<and>
    (\<forall>d\<in>set dl. \<forall>s\<in>set ss. \<not> seg_crosses_end d s) \<and> map_wf out' \<and>
    (\<forall>a. type_at out' a = (case type_at out a of None \<Rightarrow> class_at ss dl a | Some t \<Rightarrow> Some t)) \<and>
    unat tagged' = unat tagged + (\<Sum>d\<leftarrow>dl. desc_kbytes ss d)"
  using assms
proof (induction dl arbitrary: k prev tagged out)
  case Nil
  then show ?case by (auto simp: descs_ok_def class_at_def split: option.splits)
next
  case (Cons d dl)
  from Cons.prems(1) obtain out1 t1 e where
    one: "translate_descriptor efi_map ds k d ss cap prev tagged out = Some (Inr (out1, t1, e))" and
    rest: "translate_list efi_map ds ss cap (Suc k) dl e t1 out1 = Some (Inr (out', tagged'))"
    by (auto split: option.splits sum.splits)
  note S = translate_descriptor_sound [OF one Cons.prems(2-6)]
  note D = desc_okD [OF S(1)]
  have e: "unat e = d_hi d" using S(2) D(1) by simp
  from S(5) e have "map_wf out1" "ends_by out1 (unat e)" by (simp_all add: extends_def)
  from Cons.IH [OF rest Cons.prems(2) this] Cons.prems(6)
  have R: "descs_ok dl" "\<forall>d'\<in>set dl. d_hi d \<le> d_lo d'"
    "\<forall>d\<in>set dl. \<forall>s\<in>set ss. \<not> seg_crosses_end d s" "map_wf out'"
    "\<forall>a. type_at out' a = (case type_at out1 a of None \<Rightarrow> class_at ss dl a | Some t \<Rightarrow> Some t)"
    "unat tagged' = unat t1 + (\<Sum>d\<leftarrow>dl. desc_kbytes ss d)"
    using e by auto
  have lo: "unat prev \<le> d_lo d" using S(3) by (simp add: d_lo_def word_le_nat_alt)
  have "type_at out' a = (case type_at out a of None \<Rightarrow> class_at ss (d # dl) a | Some t \<Rightarrow> Some t)" for a
    using R(5) S(5) type_at_beyond [OF Cons.prems(4), of a] lo
    by (auto simp: extends_def class_at_Cons split: option.splits)
  moreover have "d_lo d < d_hi d" using S(1) by (simp add: desc_ok_def)
  ultimately show ?case
    using R S lo by (fastforce simp: descs_ok_def)
qed

lemma descriptor_aligned:
  assumes "efi_map AND 7 = 0" and "ds mod 8 = 0"
  shows "(efi_map + of_nat (k * ds)) AND 7 = (0 :: u64)"
proof -
  have and7: "x AND 7 = 0 \<longleftrightarrow> 8 dvd unat x" for x :: u64
    using and_mask_dvd_nat [of 3 x] by (simp add: mask_eq_exp_minus_1)
  have keep: "8 dvd n mod 2 ^ 64" if "8 dvd n" for n :: nat
    using that by (simp add: dvd_mod_iff)
  have "8 dvd k * ds" using assms(2) by auto
  then have "8 dvd unat (of_nat (k * ds) :: u64)" using keep [of "k * ds"] by (simp add: unat_of_nat del: of_nat_mult)
  moreover have "8 dvd unat efi_map" using assms(1) by (simp add: and7)
  ultimately have "8 dvd (unat efi_map + unat (of_nat (k * ds) :: u64)) mod 2 ^ 64"
    by (intro keep dvd_add)
  then show ?thesis by (simp add: and7 unat_word_ariths)
qed

lemma translate_list_total:
  assumes "descs_ok dl" "\<forall>d\<in>set dl. unat prev \<le> d_lo d" "\<forall>s\<in>set ss. seg_pages_ok s"
    and "efi_map AND 7 = 0" "ds mod 8 = 0" "0 < ds"
    and "map_wf out" "ends_by out (unat prev)" "unat tagged \<le> unat prev" "k = 0 \<longrightarrow> prev = 0"
    and "length out \<le> k + 2 * dead ss prev" "k + length dl + 2 * length ss \<le> unat cap"
  shows "if \<forall>d\<in>set dl. \<forall>s\<in>set ss. \<not> seg_crosses_end d s
    then \<exists>r. translate_list efi_map ds ss cap k dl prev tagged out = Some (Inr r)
    else translate_list efi_map ds ss cap k dl prev tagged out = None"
  using assms(1,2,7-)
proof (induction dl arbitrary: k prev tagged out)
  case (Cons d dl)
  have ok: "desc_ok d" and le: "prev \<le> ed_PhysicalStart d"
    using Cons.prems(1,2) by (auto simp: descs_ok_def d_lo_def word_le_nat_alt)
  have al: "(efi_map + of_nat (k * ds)) AND 7 = 0"
    using assms(4,5) by (rule descriptor_aligned)
  have sz: "k + 2 * length ss < unat cap" using Cons.prems(8) by simp
  show ?case
  proof (cases "\<forall>s\<in>set ss. \<not> seg_crosses_end d s")
    case True
    obtain out1 t1 where one: "translate_descriptor efi_map ds k d ss cap prev tagged out =
        Some (Inr (out1, t1, desc_end d))" "length out1 \<le> Suc k + 2 * dead ss (desc_end d)"
      "unat t1 \<le> unat (desc_end d)"
      using translate_descriptor_total [OF ok al le assms(3) True Cons.prems(3-7) sz assms(6)] by blast
    have e: "unat (desc_end d) = d_hi d" using desc_okD(1) [OF ok] .
    have "map_wf out1" "ends_by out1 (unat (desc_end d))"
      using translate_descriptor_sound(5) [OF one(1) assms(3) Cons.prems(3,4,6) assms(6)] e
      by (simp_all add: extends_def)
    from Cons.IH [OF _ _ this one(3) _ one(2)] Cons.prems(1,8) e
    have "if \<forall>d\<in>set dl. \<forall>s\<in>set ss. \<not> seg_crosses_end d s
      then \<exists>r. translate_list efi_map ds ss cap (Suc k) dl (desc_end d) t1 out1 = Some (Inr r)
      else translate_list efi_map ds ss cap (Suc k) dl (desc_end d) t1 out1 = None"
      by (simp add: descs_ok_def)
    with one(1) True show ?thesis by (auto split: if_splits)
  next
    case False
    then obtain s where "s \<in> set ss" "seg_crosses_end d s" by auto
    from translate_descriptor_diverges [OF ok al le assms(3) this Cons.prems(3-5,7) sz] False
    show ?thesis by auto
  qed
qed simp

subsection \<open>From the sorted chunks back to the firmware map\<close>

definition input_descriptors :: "u8 list \<Rightarrow> nat \<Rightarrow> EFI_MEMORY_DESCRIPTOR list" where
  "input_descriptors bs ds =
     map (\<lambda>i. decode_descriptor (take sizeof_descriptor (drop (i * ds) bs))) [0..<length bs div ds]"

definition covers :: "EFI_MEMORY_DESCRIPTOR \<Rightarrow> nat \<Rightarrow> bool" where
  "covers d a \<longleftrightarrow> d_lo d \<le> a \<and> a < d_hi d"

definition descs_apart :: "EFI_MEMORY_DESCRIPTOR \<Rightarrow> EFI_MEMORY_DESCRIPTOR \<Rightarrow> bool" where
  "descs_apart d e \<longleftrightarrow> d_hi d \<le> d_lo e \<or> d_hi e \<le> d_lo d"

definition valid_efi_map :: "EFI_MEMORY_DESCRIPTOR list \<Rightarrow> bool" where
  "valid_efi_map dl \<longleftrightarrow> (\<forall>d\<in>set dl. desc_ok d) \<and> sorted_wrt descs_apart dl"

definition no_crossing :: "EFI_MEMORY_DESCRIPTOR list \<Rightarrow> elf_segment list \<Rightarrow> bool" where
  "no_crossing dl ss \<longleftrightarrow> (\<forall>d\<in>set dl. \<forall>s\<in>set ss. \<not> seg_crosses_end d s)"

definition kernel_in_loader :: "EFI_MEMORY_DESCRIPTOR list \<Rightarrow> elf_segment list \<Rightarrow> bool" where
  "kernel_in_loader dl ss \<longleftrightarrow> (\<forall>a. in_segs ss a \<longrightarrow> (\<exists>d\<in>set dl. is_loader d \<and> covers d a))"

definition chunks :: "u8 list \<Rightarrow> nat \<Rightarrow> u8 list list" where
  "chunks bs ds = map (\<lambda>i. take ds (drop (i * ds) bs)) [0..<length bs div ds]"

lemma length_chunks [simp]: "length (chunks bs ds) = length bs div ds"
  by (simp add: chunks_def)

lemma chunked_chunks: "chunked ds (chunks bs ds)"
proof -
  have "i * ds + ds \<le> length bs" if "i < length bs div ds" for i
  proof -
    have "Suc i * ds \<le> length bs div ds * ds" by (rule mult_le_mono1) (use that in simp)
    also have "\<dots> \<le> length bs" by simp
    finally show ?thesis by simp
  qed
  then show ?thesis by (fastforce simp: chunked_def chunks_def)
qed

lemma concat_take_drop: "concat (map (\<lambda>i. take ds (drop (i * ds) bs)) [0..<n]) = take (n * ds) bs"
proof (induction n)
  case (Suc n)
  have "take (Suc n * ds) bs = take (n * ds) bs @ take ds (drop (n * ds) bs)"
    by (metis add.commute mult_Suc take_add)
  with Suc show ?case by simp
qed simp

lemma concat_chunks: "length bs mod ds = 0 \<Longrightarrow> concat (chunks bs ds) = bs"
  by (simp add: chunks_def concat_take_drop mod_eq_0_iff_dvd)

lemma chunk_descs: "40 \<le> ds \<Longrightarrow> map chunk_desc (chunks bs ds) = input_descriptors bs ds"
  by (simp add: chunks_def input_descriptors_def chunk_desc_def sizeof_descriptor_def min_def)

lemma map_insort_key:
  "(\<And>y. y \<in> insert x (set xs) \<Longrightarrow> g (h y) = f y) \<Longrightarrow>
   map h (insort_key f x xs) = insort_key g (h x) (map h xs)"
  by (induction xs) auto

lemma map_sort_key:
  "(\<And>y. y \<in> set xs \<Longrightarrow> g (h y) = f y) \<Longrightarrow> map h (sort_key f xs) = sort_key g (map h xs)"
proof (induction xs)
  case (Cons x xs)
  then show ?case
    using map_insort_key [where x = x and xs = "sort_key f xs" and f = f and g = g and h = h] by simp
qed simp

lemma sorted_descs: "chunked ds cs \<Longrightarrow> 40 \<le> ds \<Longrightarrow>
    map chunk_desc (sort_key chunk_key cs) = sort_key ed_PhysicalStart (map chunk_desc cs)"
  by (rule map_sort_key) (simp add: chunk_desc_def chunk_key_descriptor chunked_def)

lemma sorted_wrt_insort_key_sym:
  "symp R \<Longrightarrow> sorted_wrt R (insort_key f x xs) \<longleftrightarrow> (\<forall>y\<in>set xs. R x y) \<and> sorted_wrt R xs"
  by (induction xs) (auto simp: set_insort_key dest: sympD)

lemma sorted_wrt_sort_key_sym: "symp R \<Longrightarrow> sorted_wrt R (sort_key f xs) \<longleftrightarrow> sorted_wrt R xs"
  by (induction xs) (simp_all add: sorted_wrt_insort_key_sym)

lemma symp_apart: "symp descs_apart"
  by (auto simp: descs_apart_def intro: sympI)

lemma descs_ok_sort_iff:
  "descs_ok (sort_key ed_PhysicalStart dl) \<longleftrightarrow> valid_efi_map dl"
proof -
  let ?s = "sort_key ed_PhysicalStart dl"
  have srt: "sorted_wrt (\<lambda>d e. d_lo d \<le> d_lo e) ?s"
    using sorted_sort_key [of ed_PhysicalStart dl]
    by (simp add: sorted_map d_lo_def word_le_nat_alt)
  have "sorted_wrt (\<lambda>d e. d_hi d \<le> d_lo e) ?s \<longleftrightarrow> sorted_wrt descs_apart ?s"
    if "\<forall>d\<in>set dl. desc_ok d"
  proof
    assume "sorted_wrt (\<lambda>d e. d_hi d \<le> d_lo e) ?s"
    then show "sorted_wrt descs_apart ?s"
      by (rule sorted_wrt_mono_rel [rotated]) (simp add: descs_apart_def)
  next
    assume "sorted_wrt descs_apart ?s"
    with srt have "sorted_wrt (\<lambda>d e. d_lo d \<le> d_lo e \<and> descs_apart d e) ?s"
      by (simp add: sorted_wrt_iff_nth_less)
    then show "sorted_wrt (\<lambda>d e. d_hi d \<le> d_lo e) ?s"
      by (rule sorted_wrt_mono_rel [rotated])
        (use that in \<open>fastforce simp: descs_apart_def desc_ok_def\<close>)
  qed
  then show ?thesis
    using sorted_wrt_sort_key_sym [OF symp_apart, of ed_PhysicalStart dl]
    by (auto simp: descs_ok_def valid_efi_map_def)
qed

lemma class_at_covers:
  assumes "sorted_wrt descs_apart dl" "d \<in> set dl" "covers d a"
  shows "class_at ss dl a = Some (desc_class ss d a)"
  using assms
proof (induction dl)
  case (Cons e dl)
  show ?case
  proof (cases "covers e a")
    case True
    then have "d = e" using Cons.prems by (auto simp: covers_def descs_apart_def)
    with True show ?thesis by (simp add: class_at_Cons covers_def)
  next
    case False
    with Cons show ?thesis by (auto simp: class_at_Cons covers_def)
  qed
qed simp

lemma class_at_uncovered: "\<forall>d\<in>set dl. \<not> covers d a \<Longrightarrow> class_at ss dl a = None"
  by (auto simp: class_at_def find_None_iff covers_def)

lemma class_at_sort:
  assumes "sorted_wrt descs_apart dl"
  shows "class_at ss (sort_key f dl) a = class_at ss dl a"
proof (cases "\<exists>d\<in>set dl. covers d a")
  case True
  then obtain d where "d \<in> set dl" "covers d a" by auto
  then show ?thesis
    using assms class_at_covers [of "sort_key f dl" d a ss] class_at_covers [of dl d a ss]
    by (simp add: sorted_wrt_sort_key_sym [OF symp_apart])
next
  case False
  then show ?thesis by (simp add: class_at_uncovered)
qed

definition loader_kernel :: "elf_segment list \<Rightarrow> EFI_MEMORY_DESCRIPTOR list \<Rightarrow> nat set" where
  "loader_kernel ss dl = {a. in_segs ss a \<and> (\<exists>d\<in>set dl. is_loader d \<and> covers d a)}"

lemma in_segs_less: "in_segs ss a \<Longrightarrow> a < 2 ^ 64 - 1"
proof -
  assume "in_segs ss a"
  then obtain s where "seg_in s a" by (auto simp: in_segs_def list_ex_iff)
  then have "a < unat (seg_page_end s)" by (simp add: seg_in_def)
  with unat_u64_less [of "seg_page_end s"] show ?thesis by simp
qed

lemma finite_in_segs: "finite {a. in_segs ss a}"
  by (rule finite_subset [of _ "{..<2 ^ 64 - 1}"]) (use in_segs_less in auto)

lemma desc_kbytes_card: "desc_kbytes ss d = card (loader_kernel ss [d])"
  by (auto simp: desc_kbytes_def kcount_def loader_kernel_def covers_def intro!: arg_cong [where f = card])

lemma sum_desc_kbytes:
  "sorted_wrt descs_apart dl \<Longrightarrow> (\<Sum>d\<leftarrow>dl. desc_kbytes ss d) = card (loader_kernel ss dl)"
proof (induction dl)
  case Nil
  then show ?case by (simp add: loader_kernel_def)
next
  case (Cons d dl)
  have fin: "finite (loader_kernel ss xs)" for xs
    by (rule finite_subset [OF _ finite_in_segs [of ss]]) (auto simp: loader_kernel_def)
  have "loader_kernel ss (d # dl) = loader_kernel ss [d] \<union> loader_kernel ss dl"
    by (auto simp: loader_kernel_def)
  moreover have "loader_kernel ss [d] \<inter> loader_kernel ss dl = {}"
    using Cons.prems by (force simp: loader_kernel_def covers_def descs_apart_def)
  ultimately show ?case
    using Cons by (simp add: card_Un_disjoint fin desc_kbytes_card)
qed

lemma sum_seg_bytes:
  assumes "\<forall>s\<in>set ss. seg_pages_ok s" "segs_disjoint ss"
  shows "(\<Sum>s\<leftarrow>ss. unat (seg_page_end s) - unat (seg_page_base s)) = card {a. in_segs ss a}"
  using assms
proof (induction ss)
  case Nil
  then show ?case by (simp add: in_segs_def)
next
  case (Cons s ss)
  have "{a. in_segs (s # ss) a} = {unat (seg_page_base s)..<unat (seg_page_end s)} \<union> {a. in_segs ss a}"
    by (auto simp: in_segs_def seg_in_def)
  moreover have "{unat (seg_page_base s)..<unat (seg_page_end s)} \<inter> {a. in_segs ss a} = {}"
    using Cons.prems(2)
    by (force simp: in_segs_def list_ex_iff seg_in_def segs_disjoint_def pages_overlap_def word_less_nat_alt)
  ultimately show ?case
    using Cons by (simp add: card_Un_disjoint finite_in_segs segs_disjoint_def)
qed

lemma kernel_bytes_sum:
  assumes "\<forall>s\<in>set ss. seg_pages_ok s"
    and "unat e + (\<Sum>s\<leftarrow>ss. unat (seg_page_end s) - unat (seg_page_base s)) < 2 ^ 64"
  shows "\<exists>r. kernel_bytes ss e = Some r \<and>
    unat r = unat e + (\<Sum>s\<leftarrow>ss. unat (seg_page_end s) - unat (seg_page_base s))"
  using assms
proof (induction ss arbitrary: e)
  case (Cons s ss)
  have s: "seg_page_base s AND 4095 = 0" "seg_page_end s AND 4095 = 0" "seg_page_base s < seg_page_end s"
    using Cons.prems(1) by (auto simp: seg_pages_ok_def page_aligned_def word_unat_eq_iff unat_and_4095)
  have d: "unat (seg_page_end s - seg_page_base s) = unat (seg_page_end s) - unat (seg_page_base s)"
    using s(3) by (simp add: unat_sub)
  obtain r where r: "add_ok e (seg_page_end s - seg_page_base s) = Some r"
    "unat r = unat e + (unat (seg_page_end s) - unat (seg_page_base s))"
    using Cons.prems(2) d add_ok_Some_iff [of e "seg_page_end s - seg_page_base s"]
    by (cases "add_ok e (seg_page_end s - seg_page_base s)") (auto simp: add_ok_None_iff)
  show ?case using Cons.IH [of r] Cons.prems r s by (simp add: not_le add.assoc)
qed simp

lemma kernel_bytes_pages_ok:
  "kernel_bytes ss e = Some r \<Longrightarrow> \<forall>s\<in>set ss. seg_pages_ok s"
  by (induction ss arbitrary: e)
    (auto simp: seg_pages_ok_def page_aligned_def word_unat_eq_iff unat_and_4095 not_le
      split: if_splits option.splits)

lemma kernel_bytes_card:
  assumes "\<forall>s\<in>set ss. seg_pages_ok s" "segs_disjoint ss"
  shows "\<exists>r. kernel_bytes ss 0 = Some r \<and> unat r = card {a. in_segs ss a}"
proof -
  have "card {a. in_segs ss a} \<le> card {..<(2::nat) ^ 64 - 1}"
    by (rule card_mono) (use in_segs_less in auto)
  then have "card {a. in_segs ss a} < 2 ^ 64" by simp
  then show ?thesis
    using kernel_bytes_sum [OF assms(1), of 0] sum_seg_bytes [OF assms] by simp
qed

lemma loader_kernel_full_iff:
  "card (loader_kernel ss dl) = card {a. in_segs ss a} \<longleftrightarrow> kernel_in_loader dl ss"
proof
  assume "card (loader_kernel ss dl) = card {a. in_segs ss a}"
  then have "loader_kernel ss dl = {a. in_segs ss a}"
    by (intro card_subset_eq finite_in_segs) (auto simp: loader_kernel_def)
  then show "kernel_in_loader dl ss" by (auto simp: kernel_in_loader_def loader_kernel_def)
next
  assume "kernel_in_loader dl ss"
  then have "loader_kernel ss dl = {a. in_segs ss a}"
    by (auto simp: kernel_in_loader_def loader_kernel_def)
  then show "card (loader_kernel ss dl) = card {a. in_segs ss a}" by simp
qed

subsection \<open>The whole translation\<close>

definition kernel_ranges_ok :: "elf_segment list \<Rightarrow> bool" where
  "kernel_ranges_ok ss \<longleftrightarrow> (\<forall>s\<in>set ss. seg_pages_ok s) \<and> segs_disjoint ss"

lemma plan_wf_kernel_ranges: "plan_wf fsz plan \<Longrightarrow> kernel_ranges_ok (segs plan)"
  by (fastforce simp: plan_wf_def kernel_ranges_ok_def seg_pages_ok_def segment_wf_def
      page_aligned_def word_less_nat_alt)

lemma translate_buffer:
  assumes len: "length bs = unat map_size" and "unat map_size mod ds = 0"
    and ds: "40 \<le> ds" "ds \<le> MAX_EFI_DESCRIPTOR_SIZE"
  shows "\<exists>sbs. sort_descriptors bs (unat map_size div ds) ds = Some sbs \<and>
    translate_loop efi_map sbs ds ss cap 0 (unat map_size div ds) prev tagged out =
    translate_list efi_map ds ss cap 0 (sort_key ed_PhysicalStart (input_descriptors bs ds)) prev tagged out"
proof -
  let ?cs = "chunks bs ds"
  let ?ss = "sort_key chunk_key ?cs"
  have cs: "concat ?cs = bs" "length ?cs = unat map_size div ds"
    using assms by (simp_all add: concat_chunks)
  have "sort_descriptors bs (unat map_size div ds) ds = Some (concat ?ss)"
    using sort_descriptors_chunks [OF chunked_chunks [of ds bs]] cs ds by simp
  moreover have "chunked ds ?ss" using chunked_chunks [of ds bs] by (simp add: chunked_def)
  then have "translate_loop efi_map (concat ?ss) ds ss cap 0 (length ?ss - 0) prev tagged out =
      translate_list efi_map ds ss cap 0 (map chunk_desc (drop 0 ?ss)) prev tagged out"
    using ds by (intro translate_loop_list) simp_all
  ultimately show ?thesis
    using cs ds sorted_descs [OF chunked_chunks [of ds bs] ds(1)]
    by (simp add: chunk_descs)
qed

lemma translate_Inr_aux:
  assumes len: "length bs = unat map_size"
    and "sypas_translate_memory_map efi_map bs map_size dsz plan cap = Some (Inr out)"
  shows "\<exists>tagged. translate_list efi_map (unat dsz) (segs plan) cap 0
      (sort_key ed_PhysicalStart (input_descriptors bs (unat dsz))) 0 0 [] = Some (Inr (out, tagged)) \<and>
    kernel_bytes (segs plan) 0 = Some tagged \<and> 40 \<le> unat dsz"
proof -
  let ?ds = "unat dsz"
  have g: "40 \<le> ?ds" "?ds \<le> MAX_EFI_DESCRIPTOR_SIZE" "unat map_size mod ?ds = 0"
    using assms(2)
    by (auto simp: sypas_translate_memory_map_def sizeof_descriptor_def word_unat_eq_iff
        unat_mod_distrib split: if_splits)
  from translate_buffer [OF len g(3,1,2)] obtain sbs where
    "sort_descriptors bs (unat map_size div ?ds) ?ds = Some sbs"
    "translate_loop efi_map sbs ?ds (segs plan) cap 0 (unat map_size div ?ds) 0 0 [] =
     translate_list efi_map ?ds (segs plan) cap 0 (sort_key ed_PhysicalStart (input_descriptors bs ?ds)) 0 0 []"
    by blast
  with assms(2) g(1) show ?thesis
    by (auto simp: sypas_translate_memory_map_def Let_def split: if_splits option.splits sum.splits)
qed

lemma translate_sound_aux:
  assumes len: "length bs = unat map_size"
    and ok: "sypas_translate_memory_map efi_map bs map_size dsz plan cap = Some (Inr out)"
  shows "valid_efi_map (input_descriptors bs (unat dsz))"
    and "no_crossing (input_descriptors bs (unat dsz)) (segs plan)"
    and "map_wf out" and "type_at out a = class_at (segs plan) (input_descriptors bs (unat dsz)) a"
    and "kernel_ranges_ok (segs plan) \<Longrightarrow>
      kernel_in_loader (input_descriptors bs (unat dsz)) (segs plan)"
proof -
  let ?dl = "input_descriptors bs (unat dsz)" and ?ss = "segs plan"
  let ?sl = "sort_key ed_PhysicalStart ?dl"
  obtain tagged where t: "translate_list efi_map (unat dsz) ?ss cap 0 ?sl 0 0 [] = Some (Inr (out, tagged))"
    "kernel_bytes ?ss 0 = Some tagged" "40 \<le> unat dsz"
    using translate_Inr_aux [OF assms] by blast
  have "descs_ok ?sl \<and> (\<forall>d\<in>set ?sl. unat (0 :: u64) \<le> d_lo d) \<and>
    (\<forall>d\<in>set ?sl. \<forall>s\<in>set ?ss. \<not> seg_crosses_end d s) \<and> map_wf out \<and>
    (\<forall>a. type_at out a = (case type_at [] a of None \<Rightarrow> class_at ?ss ?sl a | Some t \<Rightarrow> Some t)) \<and>
    unat tagged = unat (0 :: u64) + (\<Sum>d\<leftarrow>?sl. desc_kbytes ?ss d)"
    using t by (intro translate_list_sound [OF t(1) kernel_bytes_pages_ok [OF t(2)]])
      (auto simp: ends_by_def)
  then have r: "descs_ok ?sl" "\<forall>d\<in>set ?dl. \<forall>s\<in>set ?ss. \<not> seg_crosses_end d s" "map_wf out"
    "\<And>a. type_at out a = class_at ?ss ?sl a"
    "unat tagged = (\<Sum>d\<leftarrow>?sl. desc_kbytes ?ss d)" by auto
  from r(1) show v: "valid_efi_map ?dl" by (simp add: descs_ok_sort_iff)
  then have ap: "sorted_wrt descs_apart ?dl" by (simp add: valid_efi_map_def)
  from r(2) show "no_crossing ?dl ?ss" by (simp add: no_crossing_def)
  from r(3) show "map_wf out" .
  show "type_at out a = class_at ?ss ?dl a" using r(4) class_at_sort [OF ap] by simp
  have "mset (map (desc_kbytes ?ss) ?sl) = mset (map (desc_kbytes ?ss) ?dl)" by simp
  then have "(\<Sum>d\<leftarrow>?sl. desc_kbytes ?ss d) = (\<Sum>d\<leftarrow>?dl. desc_kbytes ?ss d)"
    by (metis sum_mset_sum_list)
  then have card: "unat tagged = card (loader_kernel ?ss ?dl)"
    using r(5) sum_desc_kbytes [OF ap] by simp
  show "kernel_in_loader ?dl ?ss" if "kernel_ranges_ok ?ss"
    using kernel_bytes_card [of ?ss] that t(2) card loader_kernel_full_iff [of ?ss ?dl]
    by (auto simp: kernel_ranges_ok_def)
qed

definition map_args_ok :: "u64 \<Rightarrow> u8 list \<Rightarrow> u64 \<Rightarrow> u64 \<Rightarrow> bool" where
  "map_args_ok efi_map bs map_size dsz \<longleftrightarrow>
     efi_map \<noteq> 0 \<and> efi_map AND 7 = 0 \<and> length bs = unat map_size \<and>
     40 \<le> unat dsz \<and> unat dsz \<le> 4096 \<and> unat dsz mod 8 = 0 \<and> unat map_size mod unat dsz = 0"

lemma translate_complete_aux:
  assumes args: "map_args_ok efi_map bs map_size dsz"
    and ss: "kernel_ranges_ok (segs plan)"
    and v: "valid_efi_map (input_descriptors bs (unat dsz))"
    and cap: "unat map_size div unat dsz + 2 * length (segs plan) \<le> unat cap"
  shows "if no_crossing (input_descriptors bs (unat dsz)) (segs plan)
    then (if kernel_in_loader (input_descriptors bs (unat dsz)) (segs plan)
          then \<exists>out. sypas_translate_memory_map efi_map bs map_size dsz plan cap = Some (Inr out)
          else sypas_translate_memory_map efi_map bs map_size dsz plan cap =
            Some (Inl (SYPAS_MAP_ERR_KERNEL_NOT_TAGGED, no_diagnostic)))
    else sypas_translate_memory_map efi_map bs map_size dsz plan cap = None"
proof -
  let ?dl = "input_descriptors bs (unat dsz)" and ?ss = "segs plan" and ?ds = "unat dsz"
  let ?sl = "sort_key ed_PhysicalStart ?dl"
  have g: "length bs = unat map_size" "unat map_size mod ?ds = 0" "40 \<le> ?ds"
    "?ds \<le> MAX_EFI_DESCRIPTOR_SIZE" and e7: "efi_map AND 7 = 0" and e0: "efi_map \<noteq> 0"
    and ds8: "?ds mod 8 = 0"
    using args by (auto simp: map_args_ok_def MAX_EFI_DESCRIPTOR_SIZE_def)
  have guard: "\<not> (efi_map = 0 \<or> unat dsz < sizeof_descriptor \<or>
       unat dsz > MAX_EFI_DESCRIPTOR_SIZE \<or> dsz mod 8 \<noteq> 0 \<or> map_size mod dsz \<noteq> 0)"
    using g e0 ds8 by (simp add: sizeof_descriptor_def word_unat_eq_iff unat_mod_distrib)
  have pages: "\<forall>s\<in>set ?ss. seg_pages_ok s" and disj: "segs_disjoint ?ss"
    using ss by (simp_all add: kernel_ranges_ok_def)
  obtain x where x: "kernel_bytes ?ss 0 = Some x" "unat x = card {a. in_segs ?ss a}"
    using kernel_bytes_card [OF pages disj] by blast
  from translate_buffer [OF g] obtain sbs where s:
    "sort_descriptors bs (unat map_size div ?ds) ?ds = Some sbs"
    "translate_loop efi_map sbs ?ds ?ss cap 0 (unat map_size div ?ds) 0 0 [] =
     translate_list efi_map ?ds ?ss cap 0 ?sl 0 0 []"
    by blast
  have eq: "sypas_translate_memory_map efi_map bs map_size dsz plan cap =
      (case translate_list efi_map ?ds ?ss cap 0 ?sl 0 0 [] of
         None \<Rightarrow> None | Some (Inl e) \<Rightarrow> Some (Inl e)
       | Some (Inr (out, tagged)) \<Rightarrow>
           if tagged \<noteq> x then Some (Inl (SYPAS_MAP_ERR_KERNEL_NOT_TAGGED, no_diagnostic))
           else Some (Inr out))"
    unfolding sypas_translate_memory_map_def Let_def if_not_P [OF guard] by (simp add: s x(1))
  have dok: "descs_ok ?sl" using v by (simp add: descs_ok_sort_iff)
  have n: "length ?sl = unat map_size div ?ds" using g by (simp add: input_descriptors_def)
  have tot: "if \<forall>d\<in>set ?sl. \<forall>s\<in>set ?ss. \<not> seg_crosses_end d s
    then \<exists>r. translate_list efi_map ?ds ?ss cap 0 ?sl 0 0 [] = Some (Inr r)
    else translate_list efi_map ?ds ?ss cap 0 ?sl 0 0 [] = None"
    by (rule translate_list_total [OF dok _ pages e7 ds8])
      (use g cap n in \<open>auto simp: ends_by_def\<close>)
  show ?thesis
  proof (cases "no_crossing ?dl ?ss")
    case False
    with tot eq show ?thesis by (auto simp: no_crossing_def)
  next
    case True
    with tot obtain out t where r: "translate_list efi_map ?ds ?ss cap 0 ?sl 0 0 [] = Some (Inr (out, t))"
      by (auto simp: no_crossing_def)
    have "unat t = unat (0 :: u64) + (\<Sum>d\<leftarrow>?sl. desc_kbytes ?ss d)"
      using translate_list_sound [OF r pages] g by (auto simp: ends_by_def)
    moreover have "mset (map (desc_kbytes ?ss) ?sl) = mset (map (desc_kbytes ?ss) ?dl)" by simp
    then have "(\<Sum>d\<leftarrow>?sl. desc_kbytes ?ss d) = (\<Sum>d\<leftarrow>?dl. desc_kbytes ?ss d)"
      by (metis sum_mset_sum_list)
    ultimately have "unat t = card (loader_kernel ?ss ?dl)"
      using sum_desc_kbytes [of ?dl ?ss] v by (simp add: valid_efi_map_def)
    then have "t = x \<longleftrightarrow> kernel_in_loader ?dl ?ss"
      using x(2) loader_kernel_full_iff [of ?ss ?dl] by (simp add: word_unat_eq_iff)
    with True eq r show ?thesis by auto
  qed
qed

subsection \<open>Claims\<close>

text \<open>A one-segment kernel and two maps of two 40-byte descriptors for the witnesses.\<close>

definition example_segment :: "u64 \<Rightarrow> u64 \<Rightarrow> elf_segment" where
  "example_segment lo hi = \<lparr>seg_paddr = lo, seg_page_base = lo, seg_page_end = hi,
     seg_offset = 0, seg_filesz = 1, seg_memsz = 1, seg_flags = 5\<rparr>"

definition example_plan :: "u64 \<Rightarrow> u64 \<Rightarrow> elf_load_plan" where
  "example_plan lo hi = \<lparr>plan_entry = lo, phys_base = lo, phys_end = hi,
     segs = [example_segment lo hi]\<rparr>"

definition example_descriptor :: "u8 \<Rightarrow> u8 \<Rightarrow> u8 \<Rightarrow> u8 list" where
  "example_descriptor type start_kib pages =
     [type, 0,0,0, 0,0,0,0, 0,start_kib,0,0,0,0,0,0, 0,0,0,0,0,0,0,0,
      pages,0,0,0,0,0,0,0, 0,0,0,0,0,0,0,0]"

text \<open>Conventional memory at 0x4000 listed before loader data at 0x1000.\<close>

definition example_map :: "u8 list" where
  "example_map = example_descriptor 7 0x40 4 @ example_descriptor 2 0x10 3"

text \<open>Two adjacent loader allocations, 0x1000 and 0x2000, one page each.\<close>

definition split_loader_map :: "u8 list" where
  "split_loader_map = example_descriptor 2 0x10 1 @ example_descriptor 2 0x20 1"

lemma input_example_map: "input_descriptors example_map 40 =
  [\<lparr>ed_Type = 7, ed_PhysicalStart = 0x4000, ed_VirtualStart = 0, ed_NumberOfPages = 4, ed_Attribute = 0\<rparr>,
   \<lparr>ed_Type = 2, ed_PhysicalStart = 0x1000, ed_VirtualStart = 0, ed_NumberOfPages = 3, ed_Attribute = 0\<rparr>]"
  by (simp add: input_descriptors_def example_map_def example_descriptor_def sizeof_descriptor_def
      decode_descriptor_def field_at_def upt_rec)

lemma input_split_loader_map: "input_descriptors split_loader_map 40 =
  [\<lparr>ed_Type = 2, ed_PhysicalStart = 0x1000, ed_VirtualStart = 0, ed_NumberOfPages = 1, ed_Attribute = 0\<rparr>,
   \<lparr>ed_Type = 2, ed_PhysicalStart = 0x2000, ed_VirtualStart = 0, ed_NumberOfPages = 1, ed_Attribute = 0\<rparr>]"
  by (simp add: input_descriptors_def split_loader_map_def example_descriptor_def sizeof_descriptor_def
      decode_descriptor_def field_at_def upt_rec)

lemma example_map_args: "map_args_ok 0x8000 example_map 80 40"
  by (simp add: map_args_ok_def example_map_def example_descriptor_def)

lemma split_loader_map_args: "map_args_ok 0x8000 split_loader_map 80 40"
  by (simp add: map_args_ok_def split_loader_map_def example_descriptor_def)

lemma example_kernel_ranges: "kernel_ranges_ok (segs (example_plan 0x1000 0x3000))"
  "kernel_ranges_ok (segs (example_plan 0x2000 0x3000))"
  by (simp_all add: kernel_ranges_ok_def example_plan_def example_segment_def seg_pages_ok_def
      page_aligned_def segs_disjoint_def)

lemmas example_map_defs = valid_efi_map_def no_crossing_def kernel_in_loader_def desc_ok_def
  descs_apart_def seg_crosses_end_def is_loader_def covers_def d_lo_def d_hi_def
  in_segs_def seg_in_def example_plan_def example_segment_def efi_to_sypas_memtype_def
  efi_type_defs sypas_mem_defs

lemma example_map_valid:
  "valid_efi_map (input_descriptors example_map 40)"
  "no_crossing (input_descriptors example_map 40) (segs (example_plan 0x2000 0x3000))"
  "kernel_in_loader (input_descriptors example_map 40) (segs (example_plan 0x2000 0x3000))"
  by (simp_all add: input_example_map example_map_defs)

lemma split_loader_map_crosses:
  "valid_efi_map (input_descriptors split_loader_map 40)"
  "\<not> no_crossing (input_descriptors split_loader_map 40) (segs (example_plan 0x1000 0x3000))"
  by (simp_all add: input_split_loader_map example_map_defs)

text \<open>
  C24: \<^verbatim>\<open>sort_descriptors\<close> never leaves the map buffer or its temporary and leaves the descriptors,
  extension bytes included, stably sorted by \<^verbatim>\<open>PhysicalStart\<close>.
\<close>

theorem sort_descriptors_stable:
  assumes "chunked ds cs" and "16 \<le> ds" and "ds \<le> MAX_EFI_DESCRIPTOR_SIZE"
  shows "sort_descriptors (concat cs) (length cs) ds = Some (concat (sort_key chunk_key cs))"
  using assms by (rule sort_descriptors_chunks)

theorem sort_descriptors_stable_witness:
  "sort_descriptors (concat [example_descriptor 7 0x40 4, example_descriptor 2 0x10 3]) 2 40 =
     Some (concat [example_descriptor 2 0x10 3, example_descriptor 7 0x40 4])"
proof -
  let ?a = "example_descriptor 7 0x40 4" and ?b = "example_descriptor 2 0x10 3"
  have "chunk_key ?a = 0x4000" "chunk_key ?b = 0x1000"
    by (simp_all add: chunk_key_def example_descriptor_def)
  then have srt: "sort_key chunk_key [?a, ?b] = [?b, ?a]" by simp
  have "length [?a, ?b] = 2" "chunked 40 [?a, ?b]"
    by (simp_all add: chunked_def example_descriptor_def)
  from sort_descriptors_stable [OF this(2)] this(1) show ?thesis
    unfolding srt by (simp only: MAX_EFI_DESCRIPTOR_SIZE_def)
qed

text \<open>
  C8: with the output capacity the loader's sizing provides, the translation succeeds exactly when
  the firmware map is valid, no kernel segment runs over the end of a loader allocation and the
  kernel lies in loader allocations.
\<close>

theorem translate_ok_iff:
  assumes "map_args_ok efi_map bs map_size dsz" and "kernel_ranges_ok (segs plan)"
    and "unat map_size div unat dsz + 2 * length (segs plan) \<le> unat cap"
  shows "(\<exists>out. sypas_translate_memory_map efi_map bs map_size dsz plan cap = Some (Inr out)) \<longleftrightarrow>
    valid_efi_map (input_descriptors bs (unat dsz)) \<and>
    no_crossing (input_descriptors bs (unat dsz)) (segs plan) \<and>
    kernel_in_loader (input_descriptors bs (unat dsz)) (segs plan)"
proof -
  have "length bs = unat map_size" using assms(1) by (simp add: map_args_ok_def)
  then show ?thesis
    using translate_sound_aux [of bs map_size efi_map dsz plan cap]
      translate_complete_aux [OF assms(1,2) _ assms(3)] assms(2)
    by (metis (full_types))
qed

theorem translate_ok_iff_witness:
  "\<exists>out. sypas_translate_memory_map 0x8000 example_map 80 40 (example_plan 0x2000 0x3000) 4 =
    Some (Inr out)"
  using translate_ok_iff [OF example_map_args example_kernel_ranges(2), of 4] example_map_valid
  by (simp add: example_plan_def)

text \<open>The types of the firmware, in the order of its enumeration, and their types for the kernel.\<close>

lemma memtype_table:
  "efi_to_sypas_memtype t =
    (if t < 13 then [2, 6, 6, 8, 8, 8, 8, 1, 2, 3, 4, 5, 5] ! unat t else 2)"
proof (cases "t < 13")
  case True
  have table: "list_all (\<lambda>n. efi_to_sypas_memtype (of_nat n) = [2, 6, 6, 8, 8, 8, 8, 1, 2, 3, 4, 5, 5] ! n) [0..<13]"
    by (simp add: efi_to_sypas_memtype_def upt_conv_Cons sypas_mem_defs efi_type_defs)
  have "unat t \<in> set [0..<13]" using True by (simp add: word_less_nat_alt)
  with table have "efi_to_sypas_memtype (of_nat (unat t)) = [2, 6, 6, 8, 8, 8, 8, 1, 2, 3, 4, 5, 5] ! unat t"
    unfolding list_all_iff by blast
  with True show ?thesis by simp
next
  case False
  then show ?thesis by (auto simp: efi_to_sypas_memtype_def sypas_mem_defs efi_type_defs)
qed

text \<open>
  C9: on success the output is sorted, non-overlapping, page-aligned, overflow-free and coalesced,
  and it classifies every address exactly as the firmware map and the kernel segments do: no
  address is lost, added or given another owner.  The firmware's types 0 to 12 become reserved,
  loader (twice), firmware (four times), usable, reserved, ACPI reclaimable, ACPI NVS and memory
  mapped I/O (twice); every other number, the firmware's own ones included, is reserved.
\<close>

theorem translate_classifies:
  assumes "length bs = unat map_size"
    and "sypas_translate_memory_map efi_map bs map_size dsz plan cap = Some (Inr out)"
  shows "map_wf out \<and>
    (\<forall>a. type_at out a = class_at (segs plan) (input_descriptors bs (unat dsz)) a) \<and>
    (\<forall>t. efi_to_sypas_memtype t =
      (if t < 13 then [2, 6, 6, 8, 8, 8, 8, 1, 2, 3, 4, 5, 5] ! unat t else 2))"
  using translate_sound_aux [OF assms] memtype_table by simp

theorem translate_classifies_witness:
  "\<exists>out. sypas_translate_memory_map 0x8000 example_map 80 40 (example_plan 0x2000 0x3000) 4 =
      Some (Inr out) \<and> map_wf out \<and>
    type_at out 0x1FFF = Some SYPAS_MEM_LOADER \<and> type_at out 0x2000 = Some SYPAS_MEM_KERNEL \<and>
    type_at out 0x5000 = Some SYPAS_MEM_USABLE \<and> type_at out 0x8000 = None"
proof -
  obtain out where r: "sypas_translate_memory_map 0x8000 example_map 80 40
      (example_plan 0x2000 0x3000) 4 = Some (Inr out)"
    using translate_complete_aux [OF example_map_args example_kernel_ranges(2), of 4]
      example_map_valid by (auto simp: example_plan_def)
  have "length example_map = unat (80 :: u64)"
    by (simp add: example_map_def example_descriptor_def)
  from translate_classifies [OF this r] r show ?thesis
    by (simp add: input_example_map class_at_def desc_class_def example_map_defs)
qed

text \<open>
  C10: on success the addresses tagged as kernel are exactly those of the load plan's segments:
  a hole between two segments is never tagged, and no byte of a segment is left untagged.
\<close>

theorem translate_kernel_exact:
  assumes "length bs = unat map_size" and "kernel_ranges_ok (segs plan)"
    and "sypas_translate_memory_map efi_map bs map_size dsz plan cap = Some (Inr out)"
  shows "type_at out a = Some SYPAS_MEM_KERNEL \<longleftrightarrow> in_segs (segs plan) a"
proof -
  let ?dl = "input_descriptors bs (unat dsz)"
  note s = translate_sound_aux [OF assms(1,3)]
  have ap: "sorted_wrt descs_apart ?dl" using s(1) by (simp add: valid_efi_map_def)
  have nk: "efi_to_sypas_memtype t \<noteq> SYPAS_MEM_KERNEL" for t
    by (simp add: efi_to_sypas_memtype_def sypas_mem_defs)
  show ?thesis
  proof (cases "\<exists>d\<in>set ?dl. covers d a")
    case True
    then obtain d where d: "d \<in> set ?dl" "covers d a" by auto
    have "is_loader d" if a: "in_segs (segs plan) a"
    proof -
      obtain e where e: "e \<in> set ?dl" "is_loader e" "covers e a"
        using s(5) [OF assms(2)] a by (auto simp: kernel_in_loader_def)
      from class_at_covers [OF ap d] class_at_covers [OF ap e(1,3)]
      have "desc_class (segs plan) d a = desc_class (segs plan) e a" by (metis option.inject)
      with e(2) a nk show ?thesis by (auto simp: desc_class_def split: if_splits)
    qed
    then show ?thesis
      using s(4) [of a] class_at_covers [OF ap d, of "segs plan"] nk by (auto simp: desc_class_def)
  next
    case False
    then show ?thesis
      using s(4) [of a] s(5) [OF assms(2)] class_at_uncovered [of ?dl a "segs plan"]
      by (auto simp: kernel_in_loader_def)
  qed
qed

theorem translate_kernel_exact_witness:
  "\<exists>out. sypas_translate_memory_map 0x8000 example_map 80 40 (example_plan 0x2000 0x3000) 4 =
      Some (Inr out) \<and>
    (type_at out 0x2FFF = Some SYPAS_MEM_KERNEL) \<and> \<not> (type_at out 0x3000 = Some SYPAS_MEM_KERNEL)"
proof -
  obtain out where r: "sypas_translate_memory_map 0x8000 example_map 80 40
      (example_plan 0x2000 0x3000) 4 = Some (Inr out)"
    using translate_complete_aux [OF example_map_args example_kernel_ranges(2), of 4]
      example_map_valid by (auto simp: example_plan_def)
  have "length example_map = unat (80 :: u64)"
    by (simp add: example_map_def example_descriptor_def)
  from translate_kernel_exact [OF this example_kernel_ranges(2) r] r show ?thesis
    by (simp add: in_segs_def seg_in_def example_plan_def example_segment_def)
qed

text \<open>
  C11: the tagging loop has no exit for a kernel segment that runs over the end of a loader
  allocation: on an otherwise valid map, with room in the output, the call never returns (it
  neither succeeds nor reports an error).  Two adjacent \<^verbatim>\<open>EfiLoaderData\<close> descriptors that share
  one segment are enough.
\<close>

theorem translate_crossing_hangs:
  assumes "map_args_ok efi_map bs map_size dsz" and "kernel_ranges_ok (segs plan)"
    and "valid_efi_map (input_descriptors bs (unat dsz))"
    and "unat map_size div unat dsz + 2 * length (segs plan) \<le> unat cap"
    and "\<not> no_crossing (input_descriptors bs (unat dsz)) (segs plan)"
  shows "sypas_translate_memory_map efi_map bs map_size dsz plan cap = None"
  using translate_complete_aux [OF assms(1-4)] assms(5) by simp

theorem translate_crossing_hangs_witness:
  "sypas_translate_memory_map 0x8000 split_loader_map 80 40 (example_plan 0x1000 0x3000) 64 = None"
proof (rule translate_crossing_hangs)
  show "unat (80 :: u64) div unat (40 :: u64) + 2 * length (segs (example_plan 0x1000 0x3000))
      \<le> unat (64 :: u64)"
    by (simp add: example_plan_def)
qed (use split_loader_map_args example_kernel_ranges(1) split_loader_map_crosses in simp_all)

end
