(* ===== verification/Reloc.thy ===== *)
theory Reloc
  imports Prelude
begin

text \<open>
  The loader's self-relocation, \<^verbatim>\<open>bootloader/uefi/reloc.h\<close> and \<^verbatim>\<open>reloc.c\<close>.

  The image is a region of the partial memory of the prelude: an access to an unmapped address makes
  the result \<open>None\<close>, so a theorem that \<open>sypas_reloc\<close> returns \<open>Some\<close> in a memory mapped on the image
  only says that every read and write stays inside it.  \<open>sypas_reloc\<close> returns the status (0 for
  success, 1 for failure) with the memory it leaves; relocations are applied in table order, each
  entry read from the memory the previous ones have changed.  The signed members \<^verbatim>\<open>d_tag\<close> and
  \<^verbatim>\<open>r_addend\<close> are 64-bit words read with \<open>sint\<close>.
\<close>

unbundle bit_operations_syntax

subsection \<open>Dynamic section and relocation entries\<close>

record Elf64_Dyn =
  d_tag :: u64
  d_val :: u64

record Elf64_Rela =
  r_offset :: u64
  r_info :: u64
  r_addend :: u64

definition DT_NULL :: u64 where "DT_NULL = 0"
definition DT_RELA :: u64 where "DT_RELA = 7"
definition DT_RELASZ :: u64 where "DT_RELASZ = 8"
definition DT_RELAENT :: u64 where "DT_RELAENT = 9"
definition R_X86_64_RELATIVE :: u32 where "R_X86_64_RELATIVE = 8"

definition sizeof_Dyn :: u64 where "sizeof_Dyn = 16"
definition sizeof_Rela :: u64 where "sizeof_Rela = 24"

definition read_dyn :: "memory \<Rightarrow> u64 \<Rightarrow> Elf64_Dyn option" where
  "read_dyn m a = map_option (\<lambda>bs. \<lparr>d_tag = of_nat (field_at bs 0 8), d_val = of_nat (field_at bs 8 8)\<rparr>)
     (load_bytes m a 16)"

definition read_rela :: "memory \<Rightarrow> u64 \<Rightarrow> Elf64_Rela option" where
  "read_rela m a = map_option (\<lambda>bs. \<lparr>r_offset = of_nat (field_at bs 0 8),
       r_info = of_nat (field_at bs 8 8), r_addend = of_nat (field_at bs 16 8)\<rparr>)
     (load_bytes m a 24)"

subsection \<open>Relocation\<close>

definition add_signed_ok :: "u64 \<Rightarrow> u64 \<Rightarrow> u64 option" where
  "add_signed_ok base addend =
     (if 0 \<le> sint addend then add_ok base addend
      else let magnitude = 0 - addend in
           if base < magnitude then None else Some (base - magnitude))"

record dyn_scan =
  ds_rela :: u64
  ds_relasz :: u64
  ds_relaent :: u64
  ds_have_rela :: bool
  ds_have_relasz :: bool
  ds_terminated :: bool

definition dyn_scan_init :: dyn_scan where
  "dyn_scan_init = \<lparr>ds_rela = 0, ds_relasz = 0, ds_relaent = sizeof_Rela, ds_have_rela = False,
     ds_have_relasz = False, ds_terminated = False\<rparr>"

definition dyn_entry :: "Elf64_Dyn \<Rightarrow> dyn_scan \<Rightarrow> dyn_scan" where
  "dyn_entry d sc =
     (if d_tag d = DT_RELA then sc\<lparr>ds_rela := d_val d, ds_have_rela := True\<rparr>
      else if d_tag d = DT_RELASZ then sc\<lparr>ds_relasz := d_val d, ds_have_relasz := True\<rparr>
      else if d_tag d = DT_RELAENT then sc\<lparr>ds_relaent := d_val d\<rparr>
      else sc)"

fun scan_dynamic :: "memory \<Rightarrow> u64 \<Rightarrow> nat \<Rightarrow> nat \<Rightarrow> dyn_scan \<Rightarrow> dyn_scan option" where
  "scan_dynamic m dynamic i 0 sc = Some sc"
| "scan_dynamic m dynamic i (Suc n) sc =
     (case read_dyn m (dynamic + of_nat i * sizeof_Dyn) of
        None \<Rightarrow> None
      | Some d \<Rightarrow>
        if d_tag d = DT_NULL then Some (sc\<lparr>ds_terminated := True\<rparr>)
        else scan_dynamic m dynamic (Suc i) n (dyn_entry d sc))"

text \<open>One relocation; \<open>Inl\<close> is \<^verbatim>\<open>return 1\<close>.\<close>

definition rela_value :: "u64 \<Rightarrow> u64 \<Rightarrow> Elf64_Rela \<Rightarrow> (u64 \<times> u64) option" where
  "rela_value base image_size r =
     (if (ucast (r_info r) :: u32) \<noteq> R_X86_64_RELATIVE then None
      else if r_offset r > image_size \<or> 8 > image_size - r_offset r then None
      else case add_ok base (r_offset r) of
             None \<Rightarrow> None
           | Some target \<Rightarrow>
             (case add_signed_ok base (r_addend r) of
                None \<Rightarrow> None
              | Some v \<Rightarrow> Some (target, v)))"

fun apply_relas :: "memory \<Rightarrow> u64 \<Rightarrow> u64 \<Rightarrow> u64 \<Rightarrow> nat \<Rightarrow> nat \<Rightarrow> (u64 \<times> memory) option" where
  "apply_relas m base image_size table i 0 = Some (0, m)"
| "apply_relas m base image_size table i (Suc n) =
     (case read_rela m (table + of_nat i * sizeof_Rela) of
        None \<Rightarrow> None
      | Some r \<Rightarrow>
        (case rela_value base image_size r of
           None \<Rightarrow> Some (1, m)
         | Some (target, v) \<Rightarrow>
           (case store_bytes m target (le_bytes 8 (unat v)) of
              None \<Rightarrow> None
            | Some m' \<Rightarrow> apply_relas m' base image_size table (Suc i) n)))"

definition sypas_reloc :: "memory \<Rightarrow> u64 \<Rightarrow> u64 \<Rightarrow> u64 \<Rightarrow> (u64 \<times> memory) option" where
  "sypas_reloc m base image_size dynamic =
     (case (if image_size = 0 then None else add_ok base image_size) of
        None \<Rightarrow> Some (1, m)
      | Some image_end \<Rightarrow>
        if dynamic < base \<or> dynamic > image_end \<or> image_end - dynamic < sizeof_Dyn
        then Some (1, m)
        else
          (case scan_dynamic m dynamic 0 (unat ((image_end - dynamic) div sizeof_Dyn)) dyn_scan_init of
             None \<Rightarrow> None
           | Some sc \<Rightarrow>
             if \<not> ds_terminated sc \<or> ds_have_rela sc \<noteq> ds_have_relasz sc then Some (1, m)
             else if \<not> ds_have_rela sc then Some (0, m)
             else if ds_relaent sc \<noteq> sizeof_Rela \<or> ds_relasz sc mod ds_relaent sc \<noteq> 0 then Some (1, m)
             else if ds_rela sc > image_size \<or> ds_relasz sc > image_size - ds_rela sc then Some (1, m)
             else apply_relas m base image_size (base + ds_rela sc) 0
                    (unat (ds_relasz sc div ds_relaent sc))))"

subsection \<open>Accesses inside the image\<close>

lemma mapped_sub:
  assumes "mapped m base n" "off + k \<le> n"
  shows "mapped m (base + of_nat off) k"
  using assms by (auto simp: mapped_def add.assoc of_nat_add [symmetric] simp del: of_nat_add)

lemma mapped_at:
  assumes "mapped m base n" "unat (a - base) + k \<le> n"
  shows "mapped m a k"
  using mapped_sub [OF assms] by simp

lemma unat_diff_base:
  assumes "base \<le> a" shows "unat (a - base) = unat a - unat base"
  using assms by (simp add: unat_sub)

lemma uint_sint_u64: "uint (w :: u64) = (if 0 \<le> sint w then sint w else sint w + 2 ^ 64)"
proof -
  have lt: "sint w < 2 ^ 63" and ge: "- (2 ^ 63) \<le> sint w"
    using sint_less [of w] sint_greater_eq [of w] by simp_all
  have L: "LENGTH(64) = 64" by simp
  note u = uint_sint [of w, unfolded take_bit_eq_mod L]
  show ?thesis
  proof (cases "0 \<le> sint w")
    case True
    moreover have "sint w mod 2 ^ 64 = sint w" using True lt by (intro mod_pos_pos_trivial) simp_all
    ultimately show ?thesis using u by simp
  next
    case False
    have "sint w mod 2 ^ 64 = (sint w + 2 ^ 64) mod 2 ^ 64" by simp
    also have "\<dots> = sint w + 2 ^ 64" using False ge by (intro mod_pos_pos_trivial) simp_all
    finally show ?thesis using False u by simp
  qed
qed

lemma add_ok_uint: "add_ok a b = Some c \<longleftrightarrow> uint a + uint b < 2 ^ 64 \<and> uint c = uint a + uint b"
proof -
  have "unat a + unat b < 2 ^ 64 \<longleftrightarrow> int (unat a + unat b) < int (2 ^ 64)"
    by (simp only: of_nat_less_iff)
  moreover have "unat c = unat a + unat b \<longleftrightarrow> int (unat c) = int (unat a + unat b)"
    by (simp only: of_nat_eq_iff)
  ultimately show ?thesis by (simp add: add_ok_Some_iff)
qed

lemma uint_minus_u64: "a \<noteq> 0 \<Longrightarrow> uint (0 - a :: u64) = 2 ^ 64 - uint a"
proof -
  assume "a \<noteq> 0"
  then have "0 < unat a" by (simp add: unat_gt_0)
  then have "unat (0 - a) = 2 ^ 64 - unat a" using unat_sub_if' [of "0 :: u64" a] by simp
  then have "int (unat (0 - a)) = 2 ^ 64 - int (unat a)" using unat_u64_less [of a] by simp
  then show ?thesis by simp
qed

lemma add_signed_ok_iff:
  "add_signed_ok base addend = Some v \<longleftrightarrow>
     0 \<le> uint base + sint addend \<and> uint base + sint addend < 2 ^ 64 \<and>
     uint v = uint base + sint addend"
proof (cases "0 \<le> sint addend")
  case True
  then have s: "sint addend = uint addend" using uint_sint_u64 [of addend] by simp
  have "0 \<le> uint base + uint addend" using uint_ge_0 [of base] uint_ge_0 [of addend] by linarith
  then show ?thesis
    using True by (simp add: add_signed_ok_def add_ok_uint s)
next
  case False
  have a: "uint addend = sint addend + 2 ^ 64" using False uint_sint_u64 [of addend] by simp
  have "addend \<noteq> 0" using False by auto
  from uint_minus_u64 [OF this] have m: "uint (0 - addend) = - sint addend" using a by simp
  have lt: "base < 0 - addend \<longleftrightarrow> uint base + sint addend < 0"
    using m by (auto simp: word_less_def)
  have sub: "uint (base - (0 - addend)) = uint base + sint addend" if "\<not> base < 0 - addend"
  proof -
    have "0 - addend \<le> base" using that by simp
    then have "uint (base - (0 - addend)) = uint base - uint (0 - addend)" by (rule uint_sub_lem [THEN iffD1, OF word_le_def [THEN iffD1]])
    then show ?thesis using m by simp
  qed
  have ub: "uint base < 2 ^ 64" using uint_lt2p [of base] by simp
  show ?thesis
  proof (cases "base < 0 - addend")
    case True
    then show ?thesis using False lt by (simp add: add_signed_ok_def Let_def)
  next
    case nl: False
    have "add_signed_ok base addend = Some v \<longleftrightarrow> v = base - (0 - addend)"
      using False nl by (auto simp: add_signed_ok_def Let_def)
    also have "\<dots> \<longleftrightarrow> uint v = uint base + sint addend"
      using sub [OF nl] by (metis word_uint_eq_iff)
    finally show ?thesis using nl lt False ub by auto
  qed
qed

lemma rela_value_Some:
  assumes "rela_value base size_w r = Some (target, v)"
  shows "unat target = unat base + unat (r_offset r)" "unat (r_offset r) + 8 \<le> unat size_w"
    "uint v = uint base + sint (r_addend r)"
proof -
  have o: "\<not> r_offset r > size_w" "\<not> 8 > size_w - r_offset r"
    and t: "add_ok base (r_offset r) = Some target" "add_signed_ok base (r_addend r) = Some v"
    using assms by (auto simp: rela_value_def split: if_splits option.splits)
  show "unat target = unat base + unat (r_offset r)" using t(1) by (simp add: add_ok_Some_iff)
  show "uint v = uint base + sint (r_addend r)" using t(2) by (simp add: add_signed_ok_iff)
  have "unat (size_w - r_offset r) = unat size_w - unat (r_offset r)"
    using o(1) by (simp add: unat_sub not_less)
  then show "unat (r_offset r) + 8 \<le> unat size_w"
    using o by (simp add: word_less_nat_alt not_less word_le_nat_alt)
qed

lemma unat_target_diff: "unat target = unat base + k \<Longrightarrow> unat (target - base :: u64) = k"
  by (simp add: unat_sub word_le_nat_alt)

lemma len64: "LENGTH(64) = 64"
  by simp

lemma in_region_sub:
  assumes "in_region x a k" "unat a = unat base + off" "off + k \<le> n" "unat base + n \<le> 2 ^ 64"
  shows "in_region x base n"
proof -
  let ?i = "unat (x - a)"
  have i: "?i < k" using assms(1) by (simp add: in_region_def)
  have "unat (a + of_nat ?i) = (unat a + unat (of_nat ?i :: u64)) mod 2 ^ 64"
    by (simp only: unat_word_ariths len64)
  also have "unat (of_nat ?i :: u64) = ?i" by simp
  also have "(unat a + ?i) mod 2 ^ 64 = unat a + ?i" using i assms(2-) by simp
  finally have "unat x = unat a + ?i" by simp
  then have "unat x = unat base + (off + ?i)" using assms(2) by simp
  then have "unat (x - base) = off + ?i" by (rule unat_target_diff)
  with i assms(3) show ?thesis by (simp add: in_region_def)
qed

lemma apply_relas_inside:
  assumes "mapped m base (unat size_w)" "unat base + unat size_w < 2 ^ 64"
    and "unat table = unat base + off" "off + (i + n) * 24 \<le> unat size_w"
  shows "\<exists>r m'. apply_relas m base size_w table i n = Some (r, m') \<and> dom m' = dom m \<and> r \<le> 1 \<and>
    (\<forall>x. \<not> in_region x base (unat size_w) \<longrightarrow> m' x = m x)"
  using assms(1,4)
proof (induction n arbitrary: m i)
  case (Suc n)
  let ?a = "table + of_nat i * sizeof_Rela"
  have "unat (of_nat (i * 24) :: u64) = i * 24"
    using Suc.prems(2) assms(2) by (simp add: unat_of_nat del: of_nat_mult)
  then have "unat ?a = unat base + (off + i * 24)"
    using Suc.prems(2) assms(2,3) by (simp add: sizeof_Rela_def unat_word_ariths)
  then have "unat (?a - base) = off + i * 24" by (rule unat_target_diff)
  then have "mapped m ?a 24" using Suc.prems by (intro mapped_at [OF Suc.prems(1)]) simp
  then obtain r where r: "read_rela m ?a = Some r"
    using load_bytes_mapped by (fastforce simp: read_rela_def)
  show ?case
  proof (cases "rela_value base size_w r")
    case None
    then show ?thesis using r by simp
  next
    case (Some tv)
    obtain target v where tv: "tv = (target, v)" by (cases tv)
    note T = rela_value_Some [OF Some [unfolded tv]]
    have "mapped m target 8"
      using T(2) unat_target_diff [OF T(1)] by (intro mapped_at [OF Suc.prems(1)]) simp
    then obtain m1 where m1: "store_bytes m target (le_bytes 8 (unat v)) = Some m1"
      using store_bytes_mapped [of m target "le_bytes 8 (unat v)"] by auto
    have d: "dom m1 = dom m" using store_bytes_dom [OF m1] .
    have fr: "m1 x = m x" if "\<not> in_region x base (unat size_w)" for x
    proof -
      have "\<not> in_region x target 8"
        using in_region_sub [OF _ T(1,2)] assms(2) that by auto
      then show ?thesis using store_bytes_frame [OF m1] by simp
    qed
    have "mapped m1 base (unat size_w)" using Suc.prems(1) d by (auto intro: mapped_dom)
    from Suc.IH [OF this, of "Suc i"] Suc.prems(2) obtain q m' where
      "apply_relas m1 base size_w table (Suc i) n = Some (q, m')" "dom m' = dom m1" "q \<le> 1"
      "\<forall>x. \<not> in_region x base (unat size_w) \<longrightarrow> m' x = m1 x" by auto
    with r Some tv m1 d fr show ?thesis by auto
  qed
qed simp

lemma scan_dynamic_inside:
  assumes "mapped m base (unat size_w)" "unat base + unat size_w < 2 ^ 64"
    and "unat dynamic = unat base + off" "off + (i + n) * 16 \<le> unat size_w"
  shows "\<exists>sc'. scan_dynamic m dynamic i n sc = Some sc'"
  using assms(4)
proof (induction n arbitrary: i sc)
  case (Suc n)
  let ?a = "dynamic + of_nat i * sizeof_Dyn"
  have "unat (of_nat (i * 16) :: u64) = i * 16"
    using Suc.prems assms(2) by (simp add: unat_of_nat del: of_nat_mult)
  then have "unat ?a = unat base + (off + i * 16)"
    using Suc.prems assms(2,3) by (simp add: sizeof_Dyn_def unat_word_ariths)
  then have "unat (?a - base) = off + i * 16" by (rule unat_target_diff)
  then have "mapped m ?a 16" using Suc.prems by (intro mapped_at [OF assms(1)]) simp
  then obtain d where "read_dyn m ?a = Some d"
    using load_bytes_mapped by (fastforce simp: read_dyn_def)
  with Suc.IH [of "Suc i"] Suc.prems show ?case by simp
qed simp

lemma sypas_reloc_inside_aux:
  assumes "mapped m base (unat size_w)"
  shows "\<exists>r m'. sypas_reloc m base size_w dynamic = Some (r, m') \<and> r \<le> 1 \<and> dom m' = dom m \<and>
    (\<forall>x. \<not> in_region x base (unat size_w) \<longrightarrow> m' x = m x)"
proof (cases "size_w = 0 \<or> add_ok base size_w = None")
  case True
  then show ?thesis by (auto simp: sypas_reloc_def)
next
  case False
  then obtain e where e: "add_ok base size_w = Some e" by auto
  then have ue: "unat e = unat base + unat size_w" "unat base + unat size_w < 2 ^ 64"
    by (simp_all add: add_ok_Some_iff)
  show ?thesis
  proof (cases "dynamic < base \<or> dynamic > e \<or> e - dynamic < sizeof_Dyn")
    case True
    then show ?thesis using False e by (simp add: sypas_reloc_def)
  next
    case ok: False
    define off where "off = unat dynamic - unat base"
    have d: "unat dynamic = unat base + off" "unat dynamic \<le> unat e"
      using ok by (simp_all add: off_def word_less_nat_alt)
    have ed: "unat (e - dynamic) = unat e - unat dynamic"
      using ok by (simp add: unat_sub not_less)
    let ?n = "unat ((e - dynamic) div sizeof_Dyn)"
    have n: "?n = (unat e - unat dynamic) div 16"
      using ed by (simp add: sizeof_Dyn_def unat_div_distrib)
    have "?n * 16 \<le> unat e - unat dynamic" unfolding n by simp
    then have "off + (0 + ?n) * 16 \<le> unat size_w" using d ue by simp
    from scan_dynamic_inside [OF assms ue(2) d(1) this] obtain sc where
      sc: "scan_dynamic m dynamic 0 ?n dyn_scan_init = Some sc" by blast
    let ?go = "ds_terminated sc \<and> ds_have_rela sc = ds_have_relasz sc \<and> ds_have_rela sc \<and>
      ds_relaent sc = sizeof_Rela \<and> ds_relasz sc mod ds_relaent sc = 0 \<and>
      \<not> ds_rela sc > size_w \<and> \<not> ds_relasz sc > size_w - ds_rela sc"
    show ?thesis
    proof (cases ?go)
      case False
      then show ?thesis using \<open>\<not> (size_w = 0 \<or> _)\<close> e ok sc by (auto simp: sypas_reloc_def)
    next
      case go: True
      have r: "unat (size_w - ds_rela sc) = unat size_w - unat (ds_rela sc)"
        using go by (intro unat_sub) (simp add: not_less)
      let ?k = "unat (ds_relasz sc div ds_relaent sc)"
      have k: "?k = unat (ds_relasz sc) div 24" using go by (simp add: sizeof_Rela_def unat_div_distrib)
      have "?k * 24 \<le> unat (ds_relasz sc)" unfolding k by simp
      also have "\<dots> \<le> unat size_w - unat (ds_rela sc)" using go r by (simp add: word_le_nat_alt not_less)
      finally have b: "?k * 24 \<le> unat size_w - unat (ds_rela sc)" .
      have t: "unat (base + ds_rela sc) = unat base + unat (ds_rela sc)" "unat (ds_rela sc) \<le> unat size_w"
        using go ue(2) by (simp_all add: unat_word_ariths word_le_nat_alt not_less)
      have "unat (ds_rela sc) + (0 + ?k) * 24 \<le> unat size_w" using b t(2) by simp
      from apply_relas_inside [OF assms ue(2) t(1) this] obtain q m' where
        q: "apply_relas m base size_w (base + ds_rela sc) 0 ?k = Some (q, m')" "dom m' = dom m" "q \<le> 1"
          "\<forall>x. \<not> in_region x base (unat size_w) \<longrightarrow> m' x = m x" by blast
      have "sypas_reloc m base size_w dynamic = Some (q, m')"
      proof -
        have g: "ds_terminated sc" "ds_have_rela sc" "ds_have_relasz sc" "ds_relaent sc = sizeof_Rela"
          "ds_relasz sc mod sizeof_Rela = 0" "\<not> ds_rela sc > size_w"
          "\<not> ds_relasz sc > size_w - ds_rela sc"
          using go by metis+
        show ?thesis
          using False e ok sc q(1) by (simp add: sypas_reloc_def g)
      qed
      with q show ?thesis by blast
    qed
  qed
qed

subsection \<open>The values written\<close>

lemma load_bytes_cong: "(\<And>x. in_region x a n \<Longrightarrow> m x = m' x) \<Longrightarrow> n \<le> 2 ^ 64 \<Longrightarrow>
    load_bytes m a n = load_bytes m' a n"
proof (induction n arbitrary: a)
  case (Suc n)
  have "in_region a a (Suc n)" by (simp add: in_region_def)
  then have "m a = m' a" by (rule Suc.prems(1))
  moreover have "load_bytes m (a + 1) n = load_bytes m' (a + 1) n"
  proof (rule Suc.IH)
    fix x assume x: "in_region x (a + 1) n"
    define y where "y = x - (a + 1)"
    have "x - a = y + 1" by (simp add: y_def)
    moreover have "unat (y + 1) \<le> unat y + 1" by (simp only: unat_word_ariths) simp
    ultimately have "in_region x a (Suc n)" using x by (simp add: in_region_def y_def)
    then show "m x = m' x" by (rule Suc.prems(1))
  qed (use Suc.prems in simp)
  ultimately show ?case by (simp split: option.split)
qed simp

lemma load_after_store:
  "store_bytes m a bs = Some m' \<Longrightarrow> length bs < 2 ^ 64 \<Longrightarrow> load_bytes m' a (length bs) = Some bs"
proof (induction bs arbitrary: m a)
  case (Cons b bs)
  then obtain c where c: "m a = Some c" "store_bytes (m(a \<mapsto> b)) (a + 1) bs = Some m'"
    by (auto split: option.splits)
  have "unat (a - (a + 1)) = 2 ^ 64 - 1" by (simp add: unsigned_minus_1_eq_mask mask_eq_exp_minus_1)
  then have "\<not> in_region a (a + 1) (length bs)" using Cons.prems(2) by (simp add: in_region_def)
  then have "m' a = Some b" using store_bytes_frame [OF c(2)] by simp
  moreover have "load_bytes m' (a + 1) (length bs) = Some bs" using Cons.IH [OF c(2)] Cons.prems(2) by simp
  ultimately show ?case by simp
qed simp

definition apart :: "u64 \<Rightarrow> nat \<Rightarrow> u64 \<Rightarrow> nat \<Rightarrow> bool" where
  "apart a n b k \<longleftrightarrow> (\<forall>x. \<not> (in_region x a n \<and> in_region x b k))"

lemma read_rela_store:
  assumes "store_bytes m t bs = Some m'" "apart t (length bs) a 24"
  shows "read_rela m' a = read_rela m a"
proof -
  have "load_bytes m' a 24 = load_bytes m a 24"
    using assms store_bytes_frame [OF assms(1)] by (intro load_bytes_cong) (auto simp: apart_def)
  then show ?thesis by (simp add: read_rela_def)
qed

lemma apply_relas_values:
  assumes "apply_relas m base size_w table i n = Some (0, m')"
    and "\<forall>k<i + n. i \<le> k \<longrightarrow> read_rela m (table + of_nat k * sizeof_Rela) = Some (R k)"
    and "\<forall>k<i + n. \<forall>j<i + n. apart (base + r_offset (R j)) 8 (table + of_nat k * sizeof_Rela) 24"
    and "\<forall>k<i + n. \<forall>j<k. apart (base + r_offset (R j)) 8 (base + r_offset (R k)) 8"
  shows "(\<forall>k<i + n. i \<le> k \<longrightarrow> (\<exists>v :: u64. load_bytes m' (base + r_offset (R k)) 8 = Some (le_bytes 8 (unat v)) \<and>
      uint v = uint base + sint (r_addend (R k)))) \<and>
    (\<forall>x. (\<forall>k<i + n. i \<le> k \<longrightarrow> \<not> in_region x (base + r_offset (R k)) 8) \<longrightarrow> m' x = m x)"
  using assms
proof (induction n arbitrary: m i)
  case (Suc n)
  have r: "read_rela m (table + of_nat i * sizeof_Rela) = Some (R i)" using Suc.prems(2) by simp
  from Suc.prems(1) r obtain t v m1 where s: "rela_value base size_w (R i) = Some (t, v)"
    "store_bytes m t (le_bytes 8 (unat v)) = Some m1"
    "apply_relas m1 base size_w table (Suc i) n = Some (0, m')"
    by (auto split: option.splits)
  note V = rela_value_Some [OF s(1)]
  have "unat t < 2 ^ 64" by (rule unat_u64_less)
  then have t: "t = base + r_offset (R i)" using V(1) by (simp add: word_unat_eq_iff unat_word_ariths)
  have reads: "read_rela m1 (table + of_nat k * sizeof_Rela) = Some (R k)"
    if "k < Suc i + n" "Suc i \<le> k" for k
  proof -
    have "apart t (length (le_bytes 8 (unat v))) (table + of_nat k * sizeof_Rela) 24"
      using Suc.prems(3) that t by simp
    from read_rela_store [OF s(2) this] show ?thesis using Suc.prems(2) that by simp
  qed
  have IH: "(\<forall>k<Suc i + n. Suc i \<le> k \<longrightarrow> (\<exists>v :: u64. load_bytes m' (base + r_offset (R k)) 8 = Some (le_bytes 8 (unat v)) \<and>
      uint v = uint base + sint (r_addend (R k)))) \<and>
    (\<forall>x. (\<forall>k<Suc i + n. Suc i \<le> k \<longrightarrow> \<not> in_region x (base + r_offset (R k)) 8) \<longrightarrow> m' x = m1 x)"
    by (rule Suc.IH [OF s(3)]) (use reads Suc.prems(3,4) in simp_all)
  have "m' x = m1 x" if x: "in_region x t 8" for x
  proof -
    have "\<not> in_region x (base + r_offset (R k)) 8" if "k < Suc i + n" "Suc i \<le> k" for k
    proof -
      have "apart (base + r_offset (R i)) 8 (base + r_offset (R k)) 8"
        using Suc.prems(4) that by simp
      with x t show ?thesis by (auto simp: apart_def)
    qed
    then show ?thesis using IH by blast
  qed
  then have "load_bytes m' t 8 = load_bytes m1 t 8" by (intro load_bytes_cong) simp_all
  also have "\<dots> = Some (le_bytes 8 (unat v))" using load_after_store [OF s(2)] by simp
  finally have here: "load_bytes m' (base + r_offset (R i)) 8 = Some (le_bytes 8 (unat v))"
    using t by simp
  show ?case
  proof (intro conjI allI impI)
    fix k assume k: "k < i + Suc n" "i \<le> k"
    show "\<exists>v :: u64. load_bytes m' (base + r_offset (R k)) 8 = Some (le_bytes 8 (unat v)) \<and>
        uint v = uint base + sint (r_addend (R k))"
    proof (cases "k = i")
      case True
      then show ?thesis using here V(3) by blast
    next
      case False
      then show ?thesis using IH k by simp
    qed
  next
    fix x assume x: "\<forall>k<i + Suc n. i \<le> k \<longrightarrow> \<not> in_region x (base + r_offset (R k)) 8"
    then have "\<not> in_region x t 8" using t by simp
    then have "m1 x = m x" using store_bytes_frame [OF s(2)] by simp
    moreover have "m' x = m1 x" using IH x by simp
    ultimately show "m' x = m x" by simp
  qed
qed simp

subsection \<open>Claims\<close>

text \<open>An image of 64 bytes at 0x1000 that holds one relocation, for the witnesses.\<close>

definition example_reloc_image :: "u8 list" where
  "example_reloc_image =
     [0x38,0,0,0,0,0,0,0, 8,0,0,0,0,0,0,0, 0x10,0,0,0,0,0,0,0,
      7,0,0,0,0,0,0,0, 0,0,0,0,0,0,0,0, 0,0,0,0,0,0,0,0, 0,0,0,0,0,0,0,0, 0,0,0,0,0,0,0,0]"

definition example_reloc_memory :: memory where
  "example_reloc_memory x =
     (if unat (x - 0x1000) < 64 then Some (example_reloc_image ! unat (x - 0x1000)) else None)"

lemma example_reloc_mapped: "mapped example_reloc_memory 0x1000 64"
  by (auto simp: mapped_def example_reloc_memory_def unat_of_nat)

text \<open>
  C18: whatever the dynamic section and the relocation table hold, \<^verbatim>\<open>sypas_reloc\<close> returns, reads and
  writes only inside \<^verbatim>\<open>[base, base + image_size)\<close>, and changes nothing outside.
\<close>

theorem sypas_reloc_inside:
  assumes "mapped m base (unat image_size)"
  shows "\<exists>r m'. sypas_reloc m base image_size dynamic = Some (r, m') \<and> r \<le> 1 \<and> dom m' = dom m \<and>
    (\<forall>x. in_region x base (unat image_size) \<or> m' x = m x)"
  using sypas_reloc_inside_aux [OF assms, of dynamic] by auto

theorem sypas_reloc_inside_witness:
  "\<exists>r m'. sypas_reloc example_reloc_memory 0x1000 64 0x1018 = Some (r, m') \<and>
    dom m' = dom example_reloc_memory"
  using sypas_reloc_inside [of example_reloc_memory "0x1000" 64 "0x1018"] example_reloc_mapped by auto

text \<open>
  C19: a relocation pass that succeeds leaves in every relocated word the load base plus the signed
  addend, computed without wrapping, provided no entry relocates the table or another entry's
  word; every other byte keeps its value.
\<close>

theorem apply_relas_correct:
  assumes "apply_relas m base image_size table 0 n = Some (0, m')"
    and "\<forall>k<n. read_rela m (table + of_nat k * sizeof_Rela) = Some (R k)"
    and "\<forall>k<n. \<forall>j<n. apart (base + r_offset (R j)) 8 (table + of_nat k * sizeof_Rela) 24"
    and "\<forall>k<n. \<forall>j<k. apart (base + r_offset (R j)) 8 (base + r_offset (R k)) 8"
  shows "(\<forall>k<n. \<exists>v :: u64. load_bytes m' (base + r_offset (R k)) 8 = Some (le_bytes 8 (unat v)) \<and>
      uint v = uint base + sint (r_addend (R k))) \<and>
    (\<forall>x. (\<forall>k<n. \<not> in_region x (base + r_offset (R k)) 8) \<longrightarrow> m' x = m x)"
  using apply_relas_values [of m base image_size table 0 n m' R] assms by simp

theorem apply_relas_correct_witness:
  "\<exists>m'. apply_relas example_reloc_memory 0x1000 64 0x1000 0 1 = Some (0, m') \<and>
    (\<exists>v :: u64. load_bytes m' 0x1038 8 = Some (le_bytes 8 (unat v)) \<and> uint v = 0x1010)"
proof -
  let ?R = "\<lparr>r_offset = 0x38, r_info = 8, r_addend = 0x10\<rparr>"
  have "mapped example_reloc_memory 0x1000 24"
    using mapped_sub [OF example_reloc_mapped, of 0 24] by simp
  then have r: "read_rela example_reloc_memory 0x1000 = Some ?R"
    by (simp add: read_rela_def load_bytes_eq example_reloc_memory_def example_reloc_image_def
        field_at_def upt_rec)
  have v: "rela_value 0x1000 64 ?R = Some (0x1038, 0x1010)"
    by (simp add: rela_value_def R_X86_64_RELATIVE_def add_ok_eq add_signed_ok_def)
  have "mapped example_reloc_memory 0x1038 8"
    using mapped_sub [OF example_reloc_mapped, of "0x38" 8] by simp
  then obtain m' where s: "store_bytes example_reloc_memory 0x1038 (le_bytes 8 (unat (0x1010 :: u64))) = Some m'"
    using store_bytes_mapped [of example_reloc_memory "0x1038" "le_bytes 8 (unat (0x1010 :: u64))"] by auto
  have a: "apply_relas example_reloc_memory 0x1000 64 0x1000 0 1 = Some (0, m')"
    using r v s by simp
  have "apart 0x1038 8 0x1000 24"
    unfolding apart_def
  proof (intro allI notI, elim conjE)
    fix x :: u64 assume "in_region x 0x1038 8" "in_region x 0x1000 24"
    then have u: "unat (x - 0x1038) < 8" "unat (x - 0x1000) < 24" by (simp_all add: in_region_def)
    have "x - 0x1000 = (x - 0x1038) + 0x38" by simp
    then have "unat (x - 0x1000) = (unat (x - 0x1038) + 0x38) mod 2 ^ 64"
      by (simp only: unat_word_ariths) simp
    with u show False by simp
  qed
  with apply_relas_correct [OF a, of "\<lambda>_. ?R"] r a show ?thesis by auto
qed

end
