(* ===== verification/Acpi.thy ===== *)
theory Acpi
  imports Prelude
begin

text \<open>
  The RSDP validator, \<^verbatim>\<open>bootloader/uefi/acpi.h\<close> and \<^verbatim>\<open>acpi.c\<close>, on the partial memory of the prelude:
  \<open>None\<close> is a read of an unmapped address.  The members of the packed \<^verbatim>\<open>acpi_rsdp_t\<close> are read where
  and when the code reads them, so the lemmas also say how far the validator reads: 20 bytes for
  revision 0, and the length field and the advertised, bounded length from revision 2 on.
\<close>

unbundle bit_operations_syntax

subsection \<open>Validation\<close>

datatype sypas_acpi_rsdp_status =
    SYPAS_ACPI_RSDP_OK
  | SYPAS_ACPI_RSDP_ERR_NULL
  | SYPAS_ACPI_RSDP_ERR_SIGNATURE
  | SYPAS_ACPI_RSDP_ERR_CHECKSUM
  | SYPAS_ACPI_RSDP_ERR_REVISION
  | SYPAS_ACPI_RSDP_ERR_LENGTH
  | SYPAS_ACPI_RSDP_ERR_EXTENDED_CHECKSUM

definition RSDP_V1_LENGTH :: u32 where "RSDP_V1_LENGTH = 20"
definition RSDP_V2_MIN_LENGTH :: u32 where "RSDP_V2_MIN_LENGTH = 36"
definition RSDP_MAX_LENGTH :: u32 where "RSDP_MAX_LENGTH = 4096"

text \<open>Offsets of the members of the packed structure.\<close>

definition rsdp_off_revision :: u64 where "rsdp_off_revision = 15"
definition rsdp_off_length :: u64 where "rsdp_off_length = 20"

text \<open>The bytes of \<^verbatim>\<open>"RSD PTR "\<close>.\<close>

definition rsdp_signature :: "u8 list" where
  "rsdp_signature = [0x52, 0x53, 0x44, 0x20, 0x50, 0x54, 0x52, 0x20]"

fun equal_signature :: "memory \<Rightarrow> u64 \<Rightarrow> u8 list \<Rightarrow> bool option" where
  "equal_signature m a [] = Some True"
| "equal_signature m a (c # cs) =
     (case m a of None \<Rightarrow> None
      | Some b \<Rightarrow> if b \<noteq> c then Some False else equal_signature m (a + 1) cs)"

fun checksum_loop :: "memory \<Rightarrow> u64 \<Rightarrow> nat \<Rightarrow> u8 \<Rightarrow> u8 option" where
  "checksum_loop m a 0 s = Some s"
| "checksum_loop m a (Suc n) s =
     (case m a of None \<Rightarrow> None | Some b \<Rightarrow> checksum_loop m (a + 1) n (s + b))"

definition checksum_ok :: "memory \<Rightarrow> u64 \<Rightarrow> u32 \<Rightarrow> bool option" where
  "checksum_ok m a n = map_option (\<lambda>s. s = 0) (checksum_loop m a (unat n) 0)"

definition rsdp_length :: "memory \<Rightarrow> u64 \<Rightarrow> u32 option" where
  "rsdp_length m a = map_option (\<lambda>bs. of_nat (le_val bs)) (load_bytes m (a + rsdp_off_length) 4)"

definition validate_v2 :: "memory \<Rightarrow> u64 \<Rightarrow> sypas_acpi_rsdp_status option" where
  "validate_v2 m a =
     (case rsdp_length m a of
        None \<Rightarrow> None
      | Some n \<Rightarrow>
        if n < RSDP_V2_MIN_LENGTH \<or> n > RSDP_MAX_LENGTH then Some SYPAS_ACPI_RSDP_ERR_LENGTH
        else (case checksum_ok m a n of
                None \<Rightarrow> None
              | Some False \<Rightarrow> Some SYPAS_ACPI_RSDP_ERR_EXTENDED_CHECKSUM
              | Some True \<Rightarrow> Some SYPAS_ACPI_RSDP_OK))"

definition sypas_acpi_validate_rsdp :: "memory \<Rightarrow> u64 \<Rightarrow> sypas_acpi_rsdp_status option" where
  "sypas_acpi_validate_rsdp m a =
     (if a = 0 then Some SYPAS_ACPI_RSDP_ERR_NULL
      else case equal_signature m a rsdp_signature of
        None \<Rightarrow> None
      | Some False \<Rightarrow> Some SYPAS_ACPI_RSDP_ERR_SIGNATURE
      | Some True \<Rightarrow>
        (case checksum_ok m a RSDP_V1_LENGTH of
           None \<Rightarrow> None
         | Some False \<Rightarrow> Some SYPAS_ACPI_RSDP_ERR_CHECKSUM
         | Some True \<Rightarrow>
           (case m (a + rsdp_off_revision) of
              None \<Rightarrow> None
            | Some revision \<Rightarrow>
              if revision = 0 then Some SYPAS_ACPI_RSDP_OK
              else if revision < 2 then Some SYPAS_ACPI_RSDP_ERR_REVISION
              else validate_v2 m a)))"

fun sypas_acpi_rsdp_status_str :: "sypas_acpi_rsdp_status \<Rightarrow> string" where
  "sypas_acpi_rsdp_status_str SYPAS_ACPI_RSDP_OK = ''ok''"
| "sypas_acpi_rsdp_status_str SYPAS_ACPI_RSDP_ERR_NULL = ''null''"
| "sypas_acpi_rsdp_status_str SYPAS_ACPI_RSDP_ERR_SIGNATURE = ''bad signature''"
| "sypas_acpi_rsdp_status_str SYPAS_ACPI_RSDP_ERR_CHECKSUM = ''bad checksum''"
| "sypas_acpi_rsdp_status_str SYPAS_ACPI_RSDP_ERR_REVISION = ''unsupported revision''"
| "sypas_acpi_rsdp_status_str SYPAS_ACPI_RSDP_ERR_LENGTH = ''bad extended length''"
| "sypas_acpi_rsdp_status_str SYPAS_ACPI_RSDP_ERR_EXTENDED_CHECKSUM = ''bad extended checksum''"

subsection \<open>Specification\<close>

definition byte_sum :: "u8 list \<Rightarrow> nat" where
  "byte_sum bs = sum_list (map unat bs)"

definition valid_rsdp :: "u8 list \<Rightarrow> bool" where
  "valid_rsdp bs \<longleftrightarrow>
     take 8 bs = rsdp_signature \<and> byte_sum (take 20 bs) mod 256 = 0 \<and>
     (bs ! 15 = 0 \<or>
      2 \<le> unat (bs ! 15) \<and> 36 \<le> field_at bs 20 4 \<and> field_at bs 20 4 \<le> 4096 \<and>
      byte_sum (take (field_at bs 20 4) bs) mod 256 = 0)"

text \<open>
  The bytes a caller must provide: the v1 structure, from revision 2 the v2 structure, and the
  advertised length when it is in bounds.
\<close>

definition rsdp_extent :: "u8 list \<Rightarrow> nat" where
  "rsdp_extent bs =
     (if unat (bs ! 15) < 2 then 20
      else if 36 \<le> field_at bs 20 4 \<and> field_at bs 20 4 \<le> 4096 then field_at bs 20 4 else 36)"

definition placed_at :: "memory \<Rightarrow> u64 \<Rightarrow> u8 list \<Rightarrow> bool" where
  "placed_at m a bs \<longleftrightarrow> (\<forall>i<length bs. m (a + of_nat i) = Some (bs ! i))"

lemma placed_at_Cons: "placed_at m a (b # bs) \<longleftrightarrow> m a = Some b \<and> placed_at m (a + 1) bs"
  by (auto simp: placed_at_def All_less_Suc2 ac_simps)

lemma placed_at_take: "placed_at m a bs \<Longrightarrow> placed_at m a (take n bs)"
  by (simp add: placed_at_def)

lemma placed_at_drop: "placed_at m a bs \<Longrightarrow> placed_at m (a + of_nat n) (drop n bs)"
  by (auto simp: placed_at_def add.assoc of_nat_add [symmetric] simp del: of_nat_add)

lemma load_bytes_placed: "placed_at m a bs \<Longrightarrow> load_bytes m a (length bs) = Some bs"
  by (induction bs arbitrary: a) (simp_all add: placed_at_Cons)

lemma equal_signature_placed:
  "placed_at m a bs \<Longrightarrow> length cs \<le> length bs \<Longrightarrow>
   equal_signature m a cs = Some (take (length cs) bs = cs)"
proof (induction cs arbitrary: a bs)
  case (Cons c cs)
  then show ?case by (cases bs) (auto simp: placed_at_Cons)
qed simp

lemma checksum_loop_placed:
  "placed_at m a bs \<Longrightarrow> checksum_loop m a (length bs) s = Some (s + of_nat (byte_sum bs))"
  by (induction bs arbitrary: a s) (simp_all add: placed_at_Cons byte_sum_def add.assoc)

lemma of_nat_u8_eq_0: "(of_nat n :: u8) = 0 \<longleftrightarrow> n mod 256 = 0"
  by (simp add: word_unat_eq_iff unat_of_nat)

lemma checksum_ok_placed:
  assumes "placed_at m a bs" "unat n \<le> length bs"
  shows "checksum_ok m a n = Some (byte_sum (take (unat n) bs) mod 256 = 0)"
proof -
  have "checksum_loop m a (unat n) 0 = Some (of_nat (byte_sum (take (unat n) bs)))"
    using checksum_loop_placed [OF placed_at_take [OF assms(1)], of "unat n" 0] assms(2)
    by (simp add: min_absorb2)
  then show ?thesis by (simp add: checksum_ok_def of_nat_u8_eq_0)
qed

lemma field_at_4_less: "field_at bs off 4 < 2 ^ 32"
proof -
  have "le_val (take 4 (drop off bs)) < 256 ^ length (take 4 (drop off bs))" by (rule le_val_less)
  also have "\<dots> \<le> 256 ^ 4" by (rule power_increasing) simp_all
  finally show ?thesis by (simp add: field_at_def)
qed

lemma validate_v2_placed:
  assumes "placed_at m a bs" "rsdp_extent bs \<le> length bs" "2 \<le> unat (bs ! 15)"
  shows "validate_v2 m a = Some
    (if field_at bs 20 4 < 36 \<or> 4096 < field_at bs 20 4 then SYPAS_ACPI_RSDP_ERR_LENGTH
     else if byte_sum (take (field_at bs 20 4) bs) mod 256 = 0 then SYPAS_ACPI_RSDP_OK
     else SYPAS_ACPI_RSDP_ERR_EXTENDED_CHECKSUM)"
proof -
  let ?n = "field_at bs 20 4"
  have len: "36 \<le> length bs" "36 \<le> ?n \<and> ?n \<le> 4096 \<longrightarrow> ?n \<le> length bs"
    using assms(2,3) by (auto simp: rsdp_extent_def split: if_splits)
  have "placed_at m (a + of_nat 20) (take 4 (drop 20 bs))"
    using assms(1) by (intro placed_at_take placed_at_drop)
  from load_bytes_placed [OF this] have "rsdp_length m a = Some (of_nat ?n)"
    using len(1) by (simp add: rsdp_length_def rsdp_off_length_def field_at_def)
  moreover have u: "unat (of_nat ?n :: u32) = ?n"
    using field_at_4_less [of bs 20] by (simp add: unat_of_nat)
  ultimately show ?thesis
    using checksum_ok_placed [OF assms(1), of "of_nat ?n"] len(2)
    by (auto simp: validate_v2_def word_less_nat_alt RSDP_V2_MIN_LENGTH_def RSDP_MAX_LENGTH_def)
qed

lemma validate_rsdp_placed:
  assumes "placed_at m a bs" "20 \<le> length bs" "rsdp_extent bs \<le> length bs" "a \<noteq> 0"
  shows "sypas_acpi_validate_rsdp m a = Some
    (if take 8 bs \<noteq> rsdp_signature then SYPAS_ACPI_RSDP_ERR_SIGNATURE
     else if byte_sum (take 20 bs) mod 256 \<noteq> 0 then SYPAS_ACPI_RSDP_ERR_CHECKSUM
     else if bs ! 15 = 0 then SYPAS_ACPI_RSDP_OK
     else if unat (bs ! 15) < 2 then SYPAS_ACPI_RSDP_ERR_REVISION
     else if field_at bs 20 4 < 36 \<or> 4096 < field_at bs 20 4 then SYPAS_ACPI_RSDP_ERR_LENGTH
     else if byte_sum (take (field_at bs 20 4) bs) mod 256 = 0 then SYPAS_ACPI_RSDP_OK
     else SYPAS_ACPI_RSDP_ERR_EXTENDED_CHECKSUM)"
proof -
  have "equal_signature m a rsdp_signature = Some (take 8 bs = rsdp_signature)"
  proof -
    have "length rsdp_signature = 8" by (simp add: rsdp_signature_def)
    then show ?thesis
      using equal_signature_placed [OF assms(1), of rsdp_signature] assms(2) by simp
  qed
  moreover have "checksum_ok m a RSDP_V1_LENGTH = Some (byte_sum (take 20 bs) mod 256 = 0)"
    using checksum_ok_placed [OF assms(1), of RSDP_V1_LENGTH] assms(2) by (simp add: RSDP_V1_LENGTH_def)
  moreover have "m (a + rsdp_off_revision) = Some (bs ! 15)"
    using assms(1) [unfolded placed_at_def, rule_format, of 15] assms(2)
    by (simp add: rsdp_off_revision_def)
  ultimately show ?thesis
    using validate_v2_placed [OF assms(1,3)] assms(4)
    by (simp add: sypas_acpi_validate_rsdp_def word_less_nat_alt)
qed

subsection \<open>Claims\<close>

definition example_rsdp :: "u8 list" where
  "example_rsdp = rsdp_signature @ [0xE1, 0, 0, 0, 0, 0, 0, 0, 0, 0, 0, 0]"

definition example_rsdp_memory :: memory where
  "example_rsdp_memory x =
     (if unat (x - 0xE0000) < 20 then Some (example_rsdp ! unat (x - 0xE0000)) else None)"

lemma example_rsdp_placed: "placed_at example_rsdp_memory 0xE0000 example_rsdp"
  by (auto simp: placed_at_def example_rsdp_memory_def example_rsdp_def rsdp_signature_def unat_of_nat)

lemma example_rsdp_extent: "20 \<le> length example_rsdp" "rsdp_extent example_rsdp \<le> length example_rsdp"
  by (simp_all add: example_rsdp_def rsdp_signature_def rsdp_extent_def)

text \<open>
  C20: on an RSDP of which the structure its revision calls for and its advertised length (when in
  bounds) are readable, the validator returns without reading anything else, and accepts exactly
  the valid ones: signature, v1 checksum, and revision 0, or revision 2 and later with a length of
  36 to 4096 bytes and a correct extended checksum.
\<close>

theorem validate_rsdp_iff:
  assumes "placed_at m a bs" and "20 \<le> length bs" and "rsdp_extent bs \<le> length bs" and "a \<noteq> 0"
  shows "\<exists>st. sypas_acpi_validate_rsdp m a = Some st \<and> (st = SYPAS_ACPI_RSDP_OK \<longleftrightarrow> valid_rsdp bs)"
  unfolding validate_rsdp_placed [OF assms] by (auto simp: valid_rsdp_def not_less not_le)

theorem validate_rsdp_iff_witness:
  "sypas_acpi_validate_rsdp example_rsdp_memory 0xE0000 = Some SYPAS_ACPI_RSDP_OK"
proof -
  have "valid_rsdp example_rsdp"
    by (simp add: valid_rsdp_def example_rsdp_def rsdp_signature_def byte_sum_def)
  with validate_rsdp_iff [OF example_rsdp_placed example_rsdp_extent] show ?thesis by auto
qed

end
