(* ===== verification/Ram.thy ===== *)
theory Ram
  imports BootProto
begin

text \<open>
  Physical memory as the kernel sees it through its identity mapping, and the alignment macros of
  \<^verbatim>\<open>kernel/include/types.h\<close>.  Memory is a total function from addresses to bytes: a store the code
  makes outside an object silently changes other bytes, as on the machine, so freedom from such
  stores is a theorem (the framing lemmas) and not a consequence of the model.
\<close>

unbundle bit_operations_syntax

definition PAGE_SIZE :: u64 where "PAGE_SIZE = 4096"

definition ALIGN_UP :: "u64 \<Rightarrow> u64 \<Rightarrow> u64" where
  "ALIGN_UP x a = (x + (a - 1)) AND NOT (a - 1)"

definition ALIGN_DOWN :: "u64 \<Rightarrow> u64 \<Rightarrow> u64" where
  "ALIGN_DOWN x a = x AND NOT (a - 1)"

type_synonym ram = "u64 \<Rightarrow> u8"

definition ram_bytes :: "ram \<Rightarrow> u64 \<Rightarrow> nat \<Rightarrow> u8 list" where
  "ram_bytes m a n = map (\<lambda>i. m (a + of_nat i)) [0..<n]"

definition ram_store :: "ram \<Rightarrow> u64 \<Rightarrow> u8 list \<Rightarrow> ram" where
  "ram_store m a bs = (\<lambda>x. if unat (x - a) < length bs then bs ! unat (x - a) else m x)"

definition load_u64 :: "ram \<Rightarrow> u64 \<Rightarrow> u64" where
  "load_u64 m a = of_nat (le_val (ram_bytes m a 8))"

definition store_u64 :: "ram \<Rightarrow> u64 \<Rightarrow> u64 \<Rightarrow> ram" where
  "store_u64 m a v = ram_store m a (le_bytes 8 (unat v))"

text \<open>An object of \<open>n\<close> bytes at \<open>a\<close> that does not wrap, and the addresses it occupies.\<close>

definition region_ok :: "u64 \<Rightarrow> nat \<Rightarrow> bool" where
  "region_ok a n \<longleftrightarrow> unat a + n \<le> 2 ^ 64"

definition in_range :: "u64 \<Rightarrow> u64 \<Rightarrow> nat \<Rightarrow> bool" where
  "in_range x a n \<longleftrightarrow> unat a \<le> unat x \<and> unat x < unat a + n"

lemma unat_add_of_nat: "unat a + i < 2 ^ 64 \<Longrightarrow> unat (a + of_nat i :: u64) = unat a + i"
  by (simp add: unat_word_ariths unat_of_nat)

lemma unat_diff_in_range: "in_range x a n \<Longrightarrow> unat (x - a) = unat x - unat a"
  by (simp add: in_range_def unat_sub word_le_nat_alt)

lemma ram_store_in: "in_range x a (length bs) \<Longrightarrow> ram_store m a bs x = bs ! (unat x - unat a)"
proof -
  assume r: "in_range x a (length bs)"
  then have "unat x - unat a < length bs" by (auto simp: in_range_def)
  with unat_diff_in_range [OF r] show ?thesis by (simp add: ram_store_def)
qed

lemma ram_store_out:
  assumes "region_ok a (length bs)" and "\<not> in_range x a (length bs)"
  shows "ram_store m a bs x = m x"
proof -
  have "\<not> unat (x - a) < length bs"
  proof (cases "a \<le> x")
    case True
    then show ?thesis using assms(2) by (auto simp: in_range_def unat_sub word_le_nat_alt)
  next
    case False
    then have lt: "unat x < unat a" by (simp add: word_le_nat_alt)
    then have "unat (x - a) = unat x + 2 ^ 64 - unat a" by (simp add: unat_sub_if')
    with assms(1) show ?thesis by (simp add: region_ok_def)
  qed
  then show ?thesis by (simp add: ram_store_def)
qed

lemma ram_bytes_cong: "(\<And>x. in_range x a n \<Longrightarrow> m x = m' x) \<Longrightarrow> region_ok a n \<Longrightarrow>
    ram_bytes m a n = ram_bytes m' a n"
  by (simp add: ram_bytes_def in_range_def region_ok_def unat_add_of_nat)

lemma length_ram_bytes [simp]: "length (ram_bytes m a n) = n"
  by (simp add: ram_bytes_def)

lemma ram_bytes_store_same:
  assumes "region_ok a (length bs)"
  shows "ram_bytes (ram_store m a bs) a (length bs) = bs"
proof (rule nth_equalityI)
  fix i assume "i < length (ram_bytes (ram_store m a bs) a (length bs))"
  then have i: "i < length bs" by simp
  then have u: "unat (a + of_nat i) = unat a + i"
    using assms by (simp add: region_ok_def unat_add_of_nat)
  with i have "in_range (a + of_nat i) a (length bs)" by (simp add: in_range_def)
  with i u show "ram_bytes (ram_store m a bs) a (length bs) ! i = bs ! i"
    by (simp add: ram_bytes_def ram_store_in)
qed simp

lemma load_store_same: "region_ok a 8 \<Longrightarrow> load_u64 (store_u64 m a v) a = v"
proof -
  assume "region_ok a 8"
  then have "ram_bytes (store_u64 m a v) a 8 = le_bytes 8 (unat v)"
    using ram_bytes_store_same [of a "le_bytes 8 (unat v)" m] by (simp add: store_u64_def)
  then show ?thesis
    using unat_u64_less [of v] by (simp add: load_u64_def le_val_le_bytes)
qed

lemma store_u64_out: "region_ok a 8 \<Longrightarrow> \<not> in_range x a 8 \<Longrightarrow> store_u64 m a v x = m x"
  by (simp add: store_u64_def ram_store_out)

subsection \<open>Entries of the boot memory map in memory\<close>

definition decode_entry :: "u8 list \<Rightarrow> sypas_memmap_entry" where
  "decode_entry bs = \<lparr>
     mm_base = of_nat (field_at bs 0 8),
     mm_length = of_nat (field_at bs 8 8),
     mm_type = of_nat (field_at bs 16 4),
     mm_reserved = of_nat (field_at bs 20 4) \<rparr>"

definition encode_entry :: "sypas_memmap_entry \<Rightarrow> u8 list" where
  "encode_entry e = le_bytes 8 (unat (mm_base e)) @ le_bytes 8 (unat (mm_length e)) @
     le_bytes 4 (unat (mm_type e)) @ le_bytes 4 (unat (mm_reserved e))"

definition sizeof_entry :: nat where "sizeof_entry = 24"

definition map_entry :: "ram \<Rightarrow> u64 \<Rightarrow> nat \<Rightarrow> sypas_memmap_entry" where
  "map_entry m map_base i = decode_entry (ram_bytes m (map_base + of_nat (i * sizeof_entry)) sizeof_entry)"

definition map_entries :: "ram \<Rightarrow> u64 \<Rightarrow> nat \<Rightarrow> sypas_memmap_entry list" where
  "map_entries m map_base n = map (map_entry m map_base) [0..<n]"

lemma decode_encode_entry: "decode_entry (encode_entry e) = e"
proof -
  have "unat (mm_type e) < 4294967296" "unat (mm_reserved e) < 4294967296"
    using unat_u32_less [of "mm_type e"] unat_u32_less [of "mm_reserved e"] by simp_all
  then show ?thesis
    using unat_u64_less [of "mm_base e"] unat_u64_less [of "mm_length e"]
    by (simp add: decode_entry_def encode_entry_def field_at_def le_val_le_bytes)
qed

lemma map_entry_cong:
  assumes "\<And>x. in_range x map_base (n * sizeof_entry) \<Longrightarrow> m x = m' x"
    and "region_ok map_base (n * sizeof_entry)" and "i < n"
  shows "map_entry m map_base i = map_entry m' map_base i"
proof -
  have "Suc i * sizeof_entry \<le> n * sizeof_entry" by (rule mult_le_mono1) (use assms(3) in simp)
  then have le: "i * sizeof_entry + sizeof_entry \<le> n * sizeof_entry" by simp
  have u: "unat (map_base + of_nat (i * sizeof_entry)) = unat map_base + i * sizeof_entry"
    using le assms(2) by (intro unat_add_of_nat) (simp add: region_ok_def sizeof_entry_def)
  have "ram_bytes m (map_base + of_nat (i * sizeof_entry)) sizeof_entry =
      ram_bytes m' (map_base + of_nat (i * sizeof_entry)) sizeof_entry"
  proof (rule ram_bytes_cong)
    show "region_ok (map_base + of_nat (i * sizeof_entry)) sizeof_entry"
      using le assms(2) u by (simp add: region_ok_def del: of_nat_mult)
  next
    fix x assume "in_range x (map_base + of_nat (i * sizeof_entry)) sizeof_entry"
    then show "m x = m' x"
      using le u by (intro assms(1)) (simp add: in_range_def del: of_nat_mult)
  qed
  then show ?thesis by (simp only: map_entry_def)
qed

subsection \<open>Alignment\<close>

lemma unat_ALIGN_DOWN_page: "unat (ALIGN_DOWN x PAGE_SIZE) = unat x div 4096 * 4096"
  using unat_and_not_4095 [of x] by (simp add: ALIGN_DOWN_def PAGE_SIZE_def)

lemma unat_ALIGN_UP_page:
  assumes "unat x + 4095 < 2 ^ 64"
  shows "unat (ALIGN_UP x PAGE_SIZE) = (unat x + 4095) div 4096 * 4096"
proof -
  have "unat (x + 4095) = unat x + 4095" using assms by (simp add: unat_word_ariths)
  then show ?thesis using unat_and_not_4095 [of "x + 4095"] by (simp add: ALIGN_UP_def PAGE_SIZE_def)
qed

lemma unat_ALIGN_UP_8:
  assumes "unat x + 7 < 2 ^ 64"
  shows "unat (ALIGN_UP x 8 div 8) = (unat x + 7) div 8"
proof -
  have x7: "unat (x + 7) = unat x + 7" using assms by (simp add: unat_word_ariths)
  have "(x + 7) AND NOT 7 = (x + 7) - ((x + 7) AND 7)"
    using and_not_plus_and [of "x + 7" 7] by (simp add: eq_diff_eq)
  moreover have a7: "(x + 7) AND 7 = (x + 7) mod 8"
    using take_bit_eq_mask [of 3 "x + 7"] by (simp add: take_bit_eq_mod mask_eq_exp_minus_1)
  ultimately have "unat ((x + 7) AND NOT 7) = unat x + 7 - (unat x + 7) mod 8"
    using x7 by (simp add: unat_sub word_le_nat_alt unat_mod_distrib)
  then show ?thesis
    by (simp add: ALIGN_UP_def unat_div_distrib minus_mod_eq_mult_div)
qed

end
