(* ===== verification/Efi.thy ===== *)
theory Efi
  imports BootProto
begin

text \<open>
  The UEFI declarations of \<^verbatim>\<open>bootloader/uefi/efi.h\<close>: status codes, GUIDs, and the tables and
  protocol structures as lists of members with sizes and alignments, in declaration order.  Offsets
  follow from the C layout rule (\<open>offsets_from\<close>); \<open>offset_in\<close> is \<^verbatim>\<open>offsetof\<close> and \<open>sizeof\<close> rounds the
  end of the last member up to the strictest alignment.  The loader's model reads every
  firmware structure through these offsets.
\<close>

unbundle bit_operations_syntax

subsection \<open>Status codes and GUIDs\<close>

definition EFI_ERROR_BIT :: u64 where "EFI_ERROR_BIT = 0x8000000000000000"
definition EFI_SUCCESS :: u64 where "EFI_SUCCESS = 0"
definition EFI_LOAD_ERROR :: u64 where "EFI_LOAD_ERROR = EFI_ERROR_BIT OR 1"
definition EFI_INVALID_PARAMETER :: u64 where "EFI_INVALID_PARAMETER = EFI_ERROR_BIT OR 2"
definition EFI_UNSUPPORTED :: u64 where "EFI_UNSUPPORTED = EFI_ERROR_BIT OR 3"
definition EFI_BUFFER_TOO_SMALL :: u64 where "EFI_BUFFER_TOO_SMALL = EFI_ERROR_BIT OR 5"
definition EFI_NOT_FOUND :: u64 where "EFI_NOT_FOUND = EFI_ERROR_BIT OR 14"

definition EFI_ERROR :: "u64 \<Rightarrow> bool" where
  "EFI_ERROR s \<longleftrightarrow> sint s < 0"

record EFI_GUID =
  Data1 :: u32
  Data2 :: u16
  Data3 :: u16
  Data4 :: "u8 list"

definition guid_bytes :: "EFI_GUID \<Rightarrow> u8 list" where
  "guid_bytes g = le_bytes 4 (unat (Data1 g)) @ le_bytes 2 (unat (Data2 g)) @
     le_bytes 2 (unat (Data3 g)) @ Data4 g"

datatype EFI_ALLOCATE_TYPE = AllocateAnyPages | AllocateMaxAddress | AllocateAddress

definition EFI_PAGE_SIZE :: u64 where "EFI_PAGE_SIZE = 4096"
definition EFI_FILE_MODE_READ :: u64 where "EFI_FILE_MODE_READ = 1"

definition EFI_LOADED_IMAGE_PROTOCOL_GUID :: EFI_GUID where
  "EFI_LOADED_IMAGE_PROTOCOL_GUID = \<lparr>Data1 = 0x5B1B31A1, Data2 = 0x9562, Data3 = 0x11d2,
     Data4 = [0x8E, 0x3F, 0x00, 0xA0, 0xC9, 0x69, 0x72, 0x3B]\<rparr>"

definition EFI_SIMPLE_FILE_SYSTEM_PROTOCOL_GUID :: EFI_GUID where
  "EFI_SIMPLE_FILE_SYSTEM_PROTOCOL_GUID = \<lparr>Data1 = 0x964e5b22, Data2 = 0x6459, Data3 = 0x11d2,
     Data4 = [0x8e, 0x39, 0x00, 0xa0, 0xc9, 0x69, 0x72, 0x3b]\<rparr>"

definition EFI_FILE_INFO_GUID :: EFI_GUID where
  "EFI_FILE_INFO_GUID = \<lparr>Data1 = 0x09576e92, Data2 = 0x6d3f, Data3 = 0x11d2,
     Data4 = [0x8e, 0x39, 0x00, 0xa0, 0xc9, 0x69, 0x72, 0x3b]\<rparr>"

definition EFI_GRAPHICS_OUTPUT_PROTOCOL_GUID :: EFI_GUID where
  "EFI_GRAPHICS_OUTPUT_PROTOCOL_GUID = \<lparr>Data1 = 0x9042a9de, Data2 = 0x23dc, Data3 = 0x4a38,
     Data4 = [0x96, 0xfb, 0x7a, 0xde, 0xd0, 0x80, 0x51, 0x6a]\<rparr>"

definition EFI_ACPI_20_TABLE_GUID :: EFI_GUID where
  "EFI_ACPI_20_TABLE_GUID = \<lparr>Data1 = 0x8868e871, Data2 = 0xe4f1, Data3 = 0x11d3,
     Data4 = [0xbc, 0x22, 0x00, 0x80, 0xc7, 0x3c, 0x88, 0x81]\<rparr>"

definition EFI_ACPI_10_TABLE_GUID :: EFI_GUID where
  "EFI_ACPI_10_TABLE_GUID = \<lparr>Data1 = 0xeb9d2d30, Data2 = 0x2d88, Data3 = 0x11d3,
     Data4 = [0x9a, 0x16, 0x00, 0x90, 0x27, 0x3f, 0xc1, 0x4d]\<rparr>"

subsection \<open>Structures\<close>

type_synonym struct = "(string \<times> nat \<times> nat) list"

definition bytes8 :: "string \<Rightarrow> string \<times> nat \<times> nat" where "bytes8 f = (f, 8, 8)"
definition bytes4 :: "string \<Rightarrow> string \<times> nat \<times> nat" where "bytes4 f = (f, 4, 4)"

text \<open>A member that is itself an array or a structure: its size and its alignment.\<close>

definition aggregate :: "string \<Rightarrow> nat \<Rightarrow> nat \<Rightarrow> string \<times> nat \<times> nat" where
  "aggregate f n al = (f, n, al)"

definition layout_EFI_TABLE_HEADER :: struct where
  "layout_EFI_TABLE_HEADER =
     [bytes8 ''Signature'', bytes4 ''Revision'', bytes4 ''HeaderSize'', bytes4 ''CRC32'',
      bytes4 ''Reserved'']"

definition layout_EFI_MEMORY_DESCRIPTOR :: struct where
  "layout_EFI_MEMORY_DESCRIPTOR =
     [bytes4 ''Type'', bytes4 ''Pad'', bytes8 ''PhysicalStart'', bytes8 ''VirtualStart'',
      bytes8 ''NumberOfPages'', bytes8 ''Attribute'']"

definition layout_EFI_SIMPLE_TEXT_OUTPUT_PROTOCOL :: struct where
  "layout_EFI_SIMPLE_TEXT_OUTPUT_PROTOCOL =
     [bytes8 ''Reset'', bytes8 ''OutputString'', bytes8 ''TestString'', bytes8 ''QueryMode'',
      bytes8 ''SetMode'', bytes8 ''SetAttribute'', bytes8 ''ClearScreen'',
      bytes8 ''SetCursorPosition'', bytes8 ''EnableCursor'', bytes8 ''Mode'']"

definition layout_EFI_BOOT_SERVICES :: struct where
  "layout_EFI_BOOT_SERVICES =
     [aggregate ''Hdr'' 24 8, bytes8 ''RaiseTPL'', bytes8 ''RestoreTPL'',
      bytes8 ''AllocatePages'', bytes8 ''FreePages'', bytes8 ''GetMemoryMap'',
      bytes8 ''AllocatePool'', bytes8 ''FreePool'', bytes8 ''CreateEvent'', bytes8 ''SetTimer'',
      bytes8 ''WaitForEvent'', bytes8 ''SignalEvent'', bytes8 ''CloseEvent'',
      bytes8 ''CheckEvent'', bytes8 ''InstallProtocolInterface'',
      bytes8 ''ReinstallProtocolInterface'', bytes8 ''UninstallProtocolInterface'',
      bytes8 ''HandleProtocol'', bytes8 ''Reserved'', bytes8 ''RegisterProtocolNotify'',
      bytes8 ''LocateHandle'', bytes8 ''LocateDevicePath'', bytes8 ''InstallConfigurationTable'',
      bytes8 ''LoadImage'', bytes8 ''StartImage'', bytes8 ''Exit'', bytes8 ''UnloadImage'',
      bytes8 ''ExitBootServices'', bytes8 ''GetNextMonotonicCount'', bytes8 ''Stall'',
      bytes8 ''SetWatchdogTimer'', bytes8 ''ConnectController'', bytes8 ''DisconnectController'',
      bytes8 ''OpenProtocol'', bytes8 ''CloseProtocol'', bytes8 ''OpenProtocolInformation'',
      bytes8 ''ProtocolsPerHandle'', bytes8 ''LocateHandleBuffer'', bytes8 ''LocateProtocol'',
      bytes8 ''InstallMultipleProtocolInterfaces'',
      bytes8 ''UninstallMultipleProtocolInterfaces'', bytes8 ''CalculateCrc32'',
      bytes8 ''CopyMem'', bytes8 ''SetMem'', bytes8 ''CreateEventEx'']"

definition layout_EFI_CONFIGURATION_TABLE :: struct where
  "layout_EFI_CONFIGURATION_TABLE =
     [aggregate ''VendorGuid'' 16 4, bytes8 ''VendorTable'']"

definition layout_EFI_SYSTEM_TABLE :: struct where
  "layout_EFI_SYSTEM_TABLE =
     [aggregate ''Hdr'' 24 8, bytes8 ''FirmwareVendor'', bytes4 ''FirmwareRevision'',
      bytes8 ''ConsoleInHandle'', bytes8 ''ConIn'', bytes8 ''ConsoleOutHandle'',
      bytes8 ''ConOut'', bytes8 ''StandardErrorHandle'', bytes8 ''StdErr'',
      bytes8 ''RuntimeServices'', bytes8 ''BootServices'', bytes8 ''NumberOfTableEntries'',
      bytes8 ''ConfigurationTable'']"

definition layout_EFI_LOADED_IMAGE_PROTOCOL :: struct where
  "layout_EFI_LOADED_IMAGE_PROTOCOL =
     [bytes4 ''Revision'', bytes8 ''ParentHandle'', bytes8 ''SystemTable'',
      bytes8 ''DeviceHandle'', bytes8 ''FilePath'', bytes8 ''Reserved'',
      bytes4 ''LoadOptionsSize'', bytes8 ''LoadOptions'', bytes8 ''ImageBase'',
      bytes8 ''ImageSize'', bytes4 ''ImageCodeType'', bytes4 ''ImageDataType'', bytes8 ''Unload'']"

definition layout_EFI_FILE_PROTOCOL :: struct where
  "layout_EFI_FILE_PROTOCOL =
     [bytes8 ''Revision'', bytes8 ''Open'', bytes8 ''Close'', bytes8 ''Delete'', bytes8 ''Read'',
      bytes8 ''Write'', bytes8 ''GetPosition'', bytes8 ''SetPosition'', bytes8 ''GetInfo'',
      bytes8 ''SetInfo'', bytes8 ''Flush'']"

definition layout_EFI_SIMPLE_FILE_SYSTEM_PROTOCOL :: struct where
  "layout_EFI_SIMPLE_FILE_SYSTEM_PROTOCOL =
     [bytes8 ''Revision'', bytes8 ''OpenVolume'']"

definition layout_EFI_FILE_INFO :: struct where
  "layout_EFI_FILE_INFO =
     [bytes8 ''Size'', bytes8 ''FileSize'', bytes8 ''PhysicalSize'',
      aggregate ''CreateTime'' 16 1, aggregate ''LastAccessTime'' 16 1,
      aggregate ''ModificationTime'' 16 1, bytes8 ''Attribute'', aggregate ''FileName'' 2 2]"

definition layout_EFI_PIXEL_BITMASK :: struct where
  "layout_EFI_PIXEL_BITMASK =
     [bytes4 ''RedMask'', bytes4 ''GreenMask'', bytes4 ''BlueMask'', bytes4 ''ReservedMask'']"

definition layout_EFI_GRAPHICS_OUTPUT_MODE_INFORMATION :: struct where
  "layout_EFI_GRAPHICS_OUTPUT_MODE_INFORMATION =
     [bytes4 ''Version'', bytes4 ''HorizontalResolution'', bytes4 ''VerticalResolution'',
      bytes4 ''PixelFormat'', aggregate ''PixelInformation'' 16 4, bytes4 ''PixelsPerScanLine'']"

definition layout_EFI_GRAPHICS_OUTPUT_PROTOCOL_MODE :: struct where
  "layout_EFI_GRAPHICS_OUTPUT_PROTOCOL_MODE =
     [bytes4 ''MaxMode'', bytes4 ''Mode'', bytes8 ''Info'', bytes8 ''SizeOfInfo'',
      bytes8 ''FrameBufferBase'', bytes8 ''FrameBufferSize'']"

definition layout_EFI_GRAPHICS_OUTPUT_PROTOCOL :: struct where
  "layout_EFI_GRAPHICS_OUTPUT_PROTOCOL =
     [bytes8 ''QueryMode'', bytes8 ''SetMode'', bytes8 ''Blt'', bytes8 ''Mode'']"

definition offset_in :: "struct \<Rightarrow> string \<Rightarrow> nat" where
  "offset_in ms f = the (map_of (offsets_from 0 ms) f)"

fun struct_end :: "nat \<Rightarrow> struct \<Rightarrow> nat" where
  "struct_end off [] = off"
| "struct_end off ((f, sz, al) # ms) = struct_end ((off + (al - 1)) div al * al + sz) ms"

definition sizeof :: "struct \<Rightarrow> nat" where
  "sizeof ms = (let al = foldr (\<lambda>(f, sz, a) b. max a b) ms 1
                in (struct_end 0 ms + (al - 1)) div al * al)"

lemmas member_defs = bytes8_def bytes4_def aggregate_def

lemmas layout_defs = layout_EFI_TABLE_HEADER_def layout_EFI_MEMORY_DESCRIPTOR_def
  layout_EFI_SIMPLE_TEXT_OUTPUT_PROTOCOL_def layout_EFI_BOOT_SERVICES_def
  layout_EFI_CONFIGURATION_TABLE_def layout_EFI_SYSTEM_TABLE_def layout_EFI_LOADED_IMAGE_PROTOCOL_def
  layout_EFI_FILE_PROTOCOL_def layout_EFI_SIMPLE_FILE_SYSTEM_PROTOCOL_def layout_EFI_FILE_INFO_def
  layout_EFI_PIXEL_BITMASK_def layout_EFI_GRAPHICS_OUTPUT_MODE_INFORMATION_def
  layout_EFI_GRAPHICS_OUTPUT_PROTOCOL_MODE_def layout_EFI_GRAPHICS_OUTPUT_PROTOCOL_def

lemma offsets_from_Cons:
  "offsets_from off ((f, sz, al) # ms) =
     (f, (off + (al - 1)) div al * al) # offsets_from ((off + (al - 1)) div al * al + sz) ms"
  by (simp add: Let_def)

lemmas offsets_compute = offsets_from.simps(1) offsets_from_Cons

declare offsets_from.simps [simp del]

text \<open>The layouts, computed.\<close>

lemma offsets_EFI_TABLE_HEADER: "offsets_from 0 layout_EFI_TABLE_HEADER =
    [(''Signature'', 0), (''Revision'', 8), (''HeaderSize'', 12), (''CRC32'', 16),
     (''Reserved'', 20)]"
  by (simp add: layout_EFI_TABLE_HEADER_def member_defs offsets_compute)

lemma offsets_EFI_MEMORY_DESCRIPTOR: "offsets_from 0 layout_EFI_MEMORY_DESCRIPTOR =
    [(''Type'', 0), (''Pad'', 4), (''PhysicalStart'', 8), (''VirtualStart'', 16),
     (''NumberOfPages'', 24), (''Attribute'', 32)]"
  by (simp add: layout_EFI_MEMORY_DESCRIPTOR_def member_defs offsets_compute)

lemma offsets_EFI_SIMPLE_TEXT_OUTPUT_PROTOCOL: "offsets_from 0 layout_EFI_SIMPLE_TEXT_OUTPUT_PROTOCOL =
    [(''Reset'', 0), (''OutputString'', 8), (''TestString'', 16), (''QueryMode'', 24),
     (''SetMode'', 32), (''SetAttribute'', 40), (''ClearScreen'', 48),
     (''SetCursorPosition'', 56), (''EnableCursor'', 64), (''Mode'', 72)]"
  by (simp add: layout_EFI_SIMPLE_TEXT_OUTPUT_PROTOCOL_def member_defs offsets_compute)

lemma offsets_EFI_BOOT_SERVICES: "offsets_from 0 layout_EFI_BOOT_SERVICES =
    [(''Hdr'', 0), (''RaiseTPL'', 24), (''RestoreTPL'', 32), (''AllocatePages'', 40),
     (''FreePages'', 48), (''GetMemoryMap'', 56), (''AllocatePool'', 64), (''FreePool'', 72),
     (''CreateEvent'', 80), (''SetTimer'', 88), (''WaitForEvent'', 96), (''SignalEvent'', 104),
     (''CloseEvent'', 112), (''CheckEvent'', 120), (''InstallProtocolInterface'', 128),
     (''ReinstallProtocolInterface'', 136), (''UninstallProtocolInterface'', 144),
     (''HandleProtocol'', 152), (''Reserved'', 160), (''RegisterProtocolNotify'', 168),
     (''LocateHandle'', 176), (''LocateDevicePath'', 184), (''InstallConfigurationTable'', 192),
     (''LoadImage'', 200), (''StartImage'', 208), (''Exit'', 216), (''UnloadImage'', 224),
     (''ExitBootServices'', 232), (''GetNextMonotonicCount'', 240), (''Stall'', 248),
     (''SetWatchdogTimer'', 256), (''ConnectController'', 264), (''DisconnectController'', 272),
     (''OpenProtocol'', 280), (''CloseProtocol'', 288), (''OpenProtocolInformation'', 296),
     (''ProtocolsPerHandle'', 304), (''LocateHandleBuffer'', 312), (''LocateProtocol'', 320),
     (''InstallMultipleProtocolInterfaces'', 328), (''UninstallMultipleProtocolInterfaces'', 336),
     (''CalculateCrc32'', 344), (''CopyMem'', 352), (''SetMem'', 360), (''CreateEventEx'', 368)]"
  by (simp add: layout_EFI_BOOT_SERVICES_def member_defs offsets_compute)

lemma offsets_EFI_CONFIGURATION_TABLE: "offsets_from 0 layout_EFI_CONFIGURATION_TABLE =
    [(''VendorGuid'', 0), (''VendorTable'', 16)]"
  by (simp add: layout_EFI_CONFIGURATION_TABLE_def member_defs offsets_compute)

lemma offsets_EFI_SYSTEM_TABLE: "offsets_from 0 layout_EFI_SYSTEM_TABLE =
    [(''Hdr'', 0), (''FirmwareVendor'', 24), (''FirmwareRevision'', 32),
     (''ConsoleInHandle'', 40), (''ConIn'', 48), (''ConsoleOutHandle'', 56), (''ConOut'', 64),
     (''StandardErrorHandle'', 72), (''StdErr'', 80), (''RuntimeServices'', 88),
     (''BootServices'', 96), (''NumberOfTableEntries'', 104), (''ConfigurationTable'', 112)]"
  by (simp add: layout_EFI_SYSTEM_TABLE_def member_defs offsets_compute)

lemma offsets_EFI_LOADED_IMAGE_PROTOCOL: "offsets_from 0 layout_EFI_LOADED_IMAGE_PROTOCOL =
    [(''Revision'', 0), (''ParentHandle'', 8), (''SystemTable'', 16), (''DeviceHandle'', 24),
     (''FilePath'', 32), (''Reserved'', 40), (''LoadOptionsSize'', 48), (''LoadOptions'', 56),
     (''ImageBase'', 64), (''ImageSize'', 72), (''ImageCodeType'', 80), (''ImageDataType'', 84),
     (''Unload'', 88)]"
  by (simp add: layout_EFI_LOADED_IMAGE_PROTOCOL_def member_defs offsets_compute)

lemma offsets_EFI_FILE_PROTOCOL: "offsets_from 0 layout_EFI_FILE_PROTOCOL =
    [(''Revision'', 0), (''Open'', 8), (''Close'', 16), (''Delete'', 24), (''Read'', 32),
     (''Write'', 40), (''GetPosition'', 48), (''SetPosition'', 56), (''GetInfo'', 64),
     (''SetInfo'', 72), (''Flush'', 80)]"
  by (simp add: layout_EFI_FILE_PROTOCOL_def member_defs offsets_compute)

lemma offsets_EFI_SIMPLE_FILE_SYSTEM_PROTOCOL: "offsets_from 0 layout_EFI_SIMPLE_FILE_SYSTEM_PROTOCOL =
    [(''Revision'', 0), (''OpenVolume'', 8)]"
  by (simp add: layout_EFI_SIMPLE_FILE_SYSTEM_PROTOCOL_def member_defs offsets_compute)

lemma offsets_EFI_FILE_INFO: "offsets_from 0 layout_EFI_FILE_INFO =
    [(''Size'', 0), (''FileSize'', 8), (''PhysicalSize'', 16), (''CreateTime'', 24),
     (''LastAccessTime'', 40), (''ModificationTime'', 56), (''Attribute'', 72),
     (''FileName'', 80)]"
  by (simp add: layout_EFI_FILE_INFO_def member_defs offsets_compute)

lemma offsets_EFI_PIXEL_BITMASK: "offsets_from 0 layout_EFI_PIXEL_BITMASK =
    [(''RedMask'', 0), (''GreenMask'', 4), (''BlueMask'', 8), (''ReservedMask'', 12)]"
  by (simp add: layout_EFI_PIXEL_BITMASK_def member_defs offsets_compute)

lemma offsets_EFI_GRAPHICS_OUTPUT_MODE_INFORMATION: "offsets_from 0 layout_EFI_GRAPHICS_OUTPUT_MODE_INFORMATION =
    [(''Version'', 0), (''HorizontalResolution'', 4), (''VerticalResolution'', 8),
     (''PixelFormat'', 12), (''PixelInformation'', 16), (''PixelsPerScanLine'', 32)]"
  by (simp add: layout_EFI_GRAPHICS_OUTPUT_MODE_INFORMATION_def member_defs offsets_compute)

lemma offsets_EFI_GRAPHICS_OUTPUT_PROTOCOL_MODE: "offsets_from 0 layout_EFI_GRAPHICS_OUTPUT_PROTOCOL_MODE =
    [(''MaxMode'', 0), (''Mode'', 4), (''Info'', 8), (''SizeOfInfo'', 16),
     (''FrameBufferBase'', 24), (''FrameBufferSize'', 32)]"
  by (simp add: layout_EFI_GRAPHICS_OUTPUT_PROTOCOL_MODE_def member_defs offsets_compute)

lemma offsets_EFI_GRAPHICS_OUTPUT_PROTOCOL: "offsets_from 0 layout_EFI_GRAPHICS_OUTPUT_PROTOCOL =
    [(''QueryMode'', 0), (''SetMode'', 8), (''Blt'', 16), (''Mode'', 24)]"
  by (simp add: layout_EFI_GRAPHICS_OUTPUT_PROTOCOL_def member_defs offsets_compute)

lemmas offsets_computed = offsets_EFI_TABLE_HEADER offsets_EFI_MEMORY_DESCRIPTOR offsets_EFI_SIMPLE_TEXT_OUTPUT_PROTOCOL offsets_EFI_BOOT_SERVICES offsets_EFI_CONFIGURATION_TABLE offsets_EFI_SYSTEM_TABLE offsets_EFI_LOADED_IMAGE_PROTOCOL offsets_EFI_FILE_PROTOCOL offsets_EFI_SIMPLE_FILE_SYSTEM_PROTOCOL offsets_EFI_FILE_INFO offsets_EFI_PIXEL_BITMASK offsets_EFI_GRAPHICS_OUTPUT_MODE_INFORMATION offsets_EFI_GRAPHICS_OUTPUT_PROTOCOL_MODE offsets_EFI_GRAPHICS_OUTPUT_PROTOCOL

lemma sizes_computed:
  "sizeof layout_EFI_TABLE_HEADER = 24" "sizeof layout_EFI_MEMORY_DESCRIPTOR = 40"
  "sizeof layout_EFI_BOOT_SERVICES = 376" "sizeof layout_EFI_SYSTEM_TABLE = 120"
  "sizeof layout_EFI_CONFIGURATION_TABLE = 24" "sizeof layout_EFI_FILE_PROTOCOL = 88"
  "sizeof layout_EFI_FILE_INFO = 88" "sizeof layout_EFI_GRAPHICS_OUTPUT_PROTOCOL = 32"
  by (simp_all add: sizeof_def layout_defs member_defs)

text \<open>
  The declarations have the layout the UEFI specification gives these tables: the sizes and
  offsets the header asserts at compile time, and the offset and size of every member the loader uses.
\<close>

lemma efi_abi_layout:
  "sizeof layout_EFI_TABLE_HEADER = 24 \<and> sizeof layout_EFI_MEMORY_DESCRIPTOR = 40 \<and>
   offset_in layout_EFI_BOOT_SERVICES ''AllocatePages'' = 40 \<and>
   offset_in layout_EFI_BOOT_SERVICES ''FreePages'' = 48 \<and>
   offset_in layout_EFI_BOOT_SERVICES ''GetMemoryMap'' = 56 \<and>
   offset_in layout_EFI_BOOT_SERVICES ''AllocatePool'' = 64 \<and>
   offset_in layout_EFI_BOOT_SERVICES ''FreePool'' = 72 \<and>
   offset_in layout_EFI_BOOT_SERVICES ''HandleProtocol'' = 152 \<and>
   offset_in layout_EFI_BOOT_SERVICES ''ExitBootServices'' = 232 \<and>
   offset_in layout_EFI_BOOT_SERVICES ''Stall'' = 248 \<and>
   offset_in layout_EFI_BOOT_SERVICES ''SetWatchdogTimer'' = 256 \<and>
   offset_in layout_EFI_BOOT_SERVICES ''LocateProtocol'' = 320 \<and>
   sizeof layout_EFI_BOOT_SERVICES = 376 \<and>
   offset_in layout_EFI_SYSTEM_TABLE ''ConOut'' = 64 \<and>
   offset_in layout_EFI_SYSTEM_TABLE ''BootServices'' = 96 \<and>
   offset_in layout_EFI_SYSTEM_TABLE ''NumberOfTableEntries'' = 104 \<and>
   offset_in layout_EFI_SYSTEM_TABLE ''ConfigurationTable'' = 112 \<and>
   sizeof layout_EFI_SYSTEM_TABLE = 120 \<and> sizeof layout_EFI_CONFIGURATION_TABLE = 24 \<and>
   offset_in layout_EFI_LOADED_IMAGE_PROTOCOL ''DeviceHandle'' = 24 \<and>
   offset_in layout_EFI_FILE_PROTOCOL ''Open'' = 8 \<and> offset_in layout_EFI_FILE_PROTOCOL ''Close'' = 16 \<and>
   offset_in layout_EFI_FILE_PROTOCOL ''Read'' = 32 \<and> offset_in layout_EFI_FILE_PROTOCOL ''GetInfo'' = 64 \<and>
   sizeof layout_EFI_FILE_PROTOCOL = 88 \<and> offset_in layout_EFI_FILE_INFO ''FileSize'' = 8 \<and>
   sizeof layout_EFI_FILE_INFO = 88 \<and> sizeof layout_EFI_GRAPHICS_OUTPUT_PROTOCOL = 32 \<and>
   offset_in layout_EFI_GRAPHICS_OUTPUT_PROTOCOL ''Mode'' = 24 \<and>
   offset_in layout_EFI_GRAPHICS_OUTPUT_PROTOCOL_MODE ''FrameBufferBase'' = 24 \<and>
   offset_in layout_EFI_GRAPHICS_OUTPUT_MODE_INFORMATION ''PixelsPerScanLine'' = 32"
  by (simp_all add: sizes_computed offset_in_def offsets_computed)

end
