(* ===== verification/Program.thy ===== *)
theory Program
  imports Main
begin

text \<open>
  Code that threads a state and may stop early: a program takes a state to a value or a reason to
  stop, with the state it leaves.  The loader and the kernel's entry are written with it;
  \<open>andthen\<close> skips what follows a stop, as the code after a function that does not return is
  skipped.
\<close>

type_synonym ('s, 'e, 'a) program = "'s \<Rightarrow> ('e + 'a) \<times> 's"

definition give :: "'a \<Rightarrow> ('s, 'e, 'a) program" where
  "give x = (\<lambda>s. (Inr x, s))"

definition stop_with :: "'e \<Rightarrow> ('s, 'e, 'a) program" where
  "stop_with e = (\<lambda>s. (Inl e, s))"

definition andthen :: "('s, 'e, 'a) program \<Rightarrow> ('a \<Rightarrow> ('s, 'e, 'b) program) \<Rightarrow> ('s, 'e, 'b) program" where
  "andthen m k = (\<lambda>s. case m s of (Inl e, s') \<Rightarrow> (Inl e, s') | (Inr x, s') \<Rightarrow> k x s')"

text \<open>Pieces one after the other, and a piece that runs only if a condition fails.\<close>

definition in_turn :: "('s, 'e, unit) program list \<Rightarrow> ('s, 'e, unit) program" where
  "in_turn ps = foldr (\<lambda>p q. andthen p (\<lambda>_. q)) ps (give ())"

definition unless :: "bool \<Rightarrow> ('s, 'e, unit) program \<Rightarrow> ('s, 'e, unit) program" where
  "unless c p = (if c then give () else p)"

lemma andthenE:
  assumes "andthen m k s = (Inr y, s')"
  obtains x s1 where "m s = (Inr x, s1)" and "k x s1 = (Inr y, s')"
  using assms by (auto simp: andthen_def split: prod.splits sum.splits)

lemma giveD: "give x s = (Inr y, s') \<Longrightarrow> y = x \<and> s' = s"
  by (simp add: give_def)

lemma giveE: "give x s = (Inr y, s') \<Longrightarrow> (x = y \<Longrightarrow> s' = s \<Longrightarrow> thesis) \<Longrightarrow> thesis"
  by (simp add: give_def)

lemma stop_with_never [simp]: "stop_with e s \<noteq> (Inr x, s')"
  by (simp add: stop_with_def)

text \<open>Total correctness: the program ends with a value, and value and state satisfy \<open>Q\<close>.\<close>

definition runs :: "('s, 'e, 'a) program \<Rightarrow> 's \<Rightarrow> ('a \<Rightarrow> 's \<Rightarrow> bool) \<Rightarrow> bool" where
  "runs m s Q = (case m s of (Inl _, _) \<Rightarrow> False | (Inr x, s') \<Rightarrow> Q x s')"

named_theorems runs_rule \<open>how each piece runs, as rewrite rules\<close>

lemma runs_andthen [runs_rule]: "runs (andthen m k) s Q = runs m s (\<lambda>x s'. runs (k x) s' Q)"
  by (auto simp: runs_def andthen_def split: prod.splits sum.splits)

lemma runs_give [runs_rule]: "runs (give x) s Q = Q x s"
  by (simp add: runs_def give_def)

lemma runs_stop_with [runs_rule]: "runs (stop_with e) s Q = False"
  by (simp add: runs_def stop_with_def)

lemma runs_in_turn [runs_rule]:
  "runs (in_turn []) s Q = Q () s"
  "runs (in_turn (p # ps)) s Q = runs p s (\<lambda>_ s'. runs (in_turn ps) s' Q)"
  by (simp_all add: in_turn_def runs_andthen runs_give)

lemma runs_unless [runs_rule]: "runs (unless c p) s Q = (if c then Q () s else runs p s Q)"
  by (simp add: unless_def runs_give)

lemma runs_exD: "runs m s Q \<Longrightarrow> \<exists>x s'. m s = (Inr x, s') \<and> Q x s'"
  by (auto simp: runs_def split: prod.splits sum.splits)

lemma runs_post: "runs m s Q \<Longrightarrow> (\<And>x s'. Q x s' \<Longrightarrow> Q' x s') \<Longrightarrow> runs m s Q'"
  by (auto simp: runs_def split: prod.splits sum.splits)

end
