(* ===== verification/Loader.thy ===== *)
theory Loader
  imports MemoryMap Acpi Ram Efi Program
begin

text \<open>
  The UEFI application of \<^verbatim>\<open>bootloader/uefi/main.c\<close>, from \<^verbatim>\<open>efi_main\<close> to the jump into the kernel.

  The firmware is a parameter: a function from the calls made so far with their replies, the
  contents of memory and the call at hand to the reply and the memory afterwards.  The functions
  of the loader thread a state of memory and of that record of calls (\<open>loader\<close>), and end either
  with a value or with a \<open>boot_stop\<close>: the endless loop of \<^verbatim>\<open>die\<close> (\<open>Died\<close>, with the message it
  printed), the one of \<^verbatim>\<open>halt_after_exit_boot_services\<close> (\<open>Halted\<close>), or a call of the validator or
  the translator that does not return (\<open>Stuck\<close>).  \<open>andthen\<close> runs two pieces in sequence, so
  everything after a stop is skipped, as the code after a function that does not return is.

  Automatic variables (\<^verbatim>\<open>li\<close>, \<^verbatim>\<open>infobuf\<close>, \<^verbatim>\<open>sz\<close>, \<^verbatim>\<open>mapkey\<close>, ...) are values of the model; what the
  firmware writes through a pointer to one of them is a field of its reply.  Everything the code
  reaches through an address the firmware gave it (protocol structures, configuration table,
  buffers, the boot information page, the kernel's segments) is read from and written to memory.
\<close>

unbundle bit_operations_syntax

subsection \<open>The firmware as a parameter\<close>

text \<open>The offsets of the structure members the loader reads.\<close>

definition off_NumberOfTableEntries :: u64 where
  "off_NumberOfTableEntries = of_nat (offset_in layout_EFI_SYSTEM_TABLE ''NumberOfTableEntries'')"
definition off_ConfigurationTable :: u64 where
  "off_ConfigurationTable = of_nat (offset_in layout_EFI_SYSTEM_TABLE ''ConfigurationTable'')"
definition off_VendorTable :: u64 where
  "off_VendorTable = of_nat (offset_in layout_EFI_CONFIGURATION_TABLE ''VendorTable'')"
definition off_DeviceHandle :: u64 where
  "off_DeviceHandle = of_nat (offset_in layout_EFI_LOADED_IMAGE_PROTOCOL ''DeviceHandle'')"
definition off_FileSize :: nat where
  "off_FileSize = offset_in layout_EFI_FILE_INFO ''FileSize''"
definition off_gop_Mode :: u64 where
  "off_gop_Mode = of_nat (offset_in layout_EFI_GRAPHICS_OUTPUT_PROTOCOL ''Mode'')"
definition off_mode_Info :: u64 where
  "off_mode_Info = of_nat (offset_in layout_EFI_GRAPHICS_OUTPUT_PROTOCOL_MODE ''Info'')"
definition off_mode_FrameBufferBase :: u64 where
  "off_mode_FrameBufferBase = of_nat (offset_in layout_EFI_GRAPHICS_OUTPUT_PROTOCOL_MODE ''FrameBufferBase'')"
definition off_info_HorizontalResolution :: u64 where
  "off_info_HorizontalResolution =
     of_nat (offset_in layout_EFI_GRAPHICS_OUTPUT_MODE_INFORMATION ''HorizontalResolution'')"
definition off_info_VerticalResolution :: u64 where
  "off_info_VerticalResolution =
     of_nat (offset_in layout_EFI_GRAPHICS_OUTPUT_MODE_INFORMATION ''VerticalResolution'')"
definition off_info_PixelFormat :: u64 where
  "off_info_PixelFormat = of_nat (offset_in layout_EFI_GRAPHICS_OUTPUT_MODE_INFORMATION ''PixelFormat'')"
definition off_info_PixelsPerScanLine :: u64 where
  "off_info_PixelsPerScanLine =
     of_nat (offset_in layout_EFI_GRAPHICS_OUTPUT_MODE_INFORMATION ''PixelsPerScanLine'')"

definition PixelRedGreenBlueReserved8BitPerColor :: u32 where
  "PixelRedGreenBlueReserved8BitPerColor = 0"
definition PixelBlueGreenRedReserved8BitPerColor :: u32 where
  "PixelBlueGreenRedReserved8BitPerColor = 1"

text \<open>The calls the loader makes, with the arguments it passes by value.\<close>

datatype efi_call =
    OutputString "u16 list"
  | SetWatchdogTimer u64 u64 u64 u64
  | HandleProtocol u64 EFI_GUID
  | LocateProtocol EFI_GUID
  | OpenVolume u64
  | FileOpen u64 "u16 list" u64 u64
  | FileGetInfo u64 EFI_GUID u64
  | FileRead u64 u64 u64
  | FileClose u64
  | AllocatePool u32 u64
  | FreePool u64
  | AllocatePages EFI_ALLOCATE_TYPE u32 u64 u64
  | FreePages u64 u64
  | GetMemoryMap u64 u64
  | ExitBootServices u64 u64
  | Stall u64

text \<open>
  \<open>rp_out\<close> is what the call stored through its result pointer (an interface, a handle, a buffer,
  an address), \<open>rp_size\<close> what it left in a size argument, \<open>rp_bytes\<close> the contents of \<^verbatim>\<open>infobuf\<close>.
\<close>

record efi_reply =
  rp_status :: u64
  rp_out :: u64
  rp_size :: u64
  rp_key :: u64
  rp_dsz :: u64
  rp_bytes :: "u8 list"

type_synonym call_record = "(efi_call \<times> efi_reply) list"

type_synonym firmware = "call_record \<Rightarrow> ram \<Rightarrow> efi_call \<Rightarrow> efi_reply \<times> ram"

subsection \<open>Sequencing\<close>

record loader =
  ld_calls :: call_record
  ld_mem :: ram

datatype boot_stop = Died "u16 list" u64 | Halted | Stuck

type_synonym 'a boot = "(loader, boot_stop, 'a) program"

definition peek :: "(ram \<Rightarrow> 'a) \<Rightarrow> 'a boot" where
  "peek f = (\<lambda>s. (Inr (f (ld_mem s)), s))"

definition poke :: "(ram \<Rightarrow> ram) \<Rightarrow> unit boot" where
  "poke f = (\<lambda>s. (Inr (), s\<lparr>ld_mem := f (ld_mem s)\<rparr>))"

definition efi :: "firmware \<Rightarrow> efi_call \<Rightarrow> efi_reply boot" where
  "efi fw c = (\<lambda>s. let (r, m) = fw (ld_calls s) (ld_mem s) c in
     (Inr r, s\<lparr>ld_calls := ld_calls s @ [(c, r)], ld_mem := m\<rparr>))"

subsection \<open>Small helpers\<close>

fun lmemcpy :: "u64 \<Rightarrow> u64 \<Rightarrow> nat \<Rightarrow> ram \<Rightarrow> ram" where
  "lmemcpy d s 0 m = m"
| "lmemcpy d s (Suc n) m = lmemcpy (d + 1) (s + 1) n (m(d := m s))"

fun lmemset :: "u64 \<Rightarrow> u8 \<Rightarrow> nat \<Rightarrow> ram \<Rightarrow> ram" where
  "lmemset d c 0 m = m"
| "lmemset d c (Suc n) m = lmemset (d + 1) c n (m(d := c))"

definition guid_eq :: "u8 list \<Rightarrow> u8 list \<Rightarrow> bool" where
  "guid_eq a b \<longleftrightarrow> field_at a 0 8 = field_at b 0 8 \<and> field_at a 8 8 = field_at b 8 8"

definition pages_for_size :: "u64 \<Rightarrow> u64 option" where
  "pages_for_size n = map_option (\<lambda>rounded. rounded div EFI_PAGE_SIZE) (add_ok n (EFI_PAGE_SIZE - 1))"

text \<open>A \<^verbatim>\<open>CHAR16\<close> literal; \<open>eol\<close> is \<^verbatim>\<open>\r\n\<close>.  \<open>widen\<close> is the conversion from \<^verbatim>\<open>char\<close>, which is signed.\<close>

definition wide :: "string \<Rightarrow> u16 list" where
  "wide = map (\<lambda>c. of_nat (of_char c))"

definition eol :: "u16 list" where "eol = [0x0D, 0x0A]"

definition widen :: "char \<Rightarrow> u16" where
  "widen c = scast (of_nat (of_char c) :: u8)"

definition print :: "firmware \<Rightarrow> u16 list \<Rightarrow> unit boot" where
  "print fw s = andthen (efi fw (OutputString s)) (\<lambda>_. give ())"

definition hexdig :: "u16 list" where "hexdig = wide ''0123456789ABCDEF''"

definition hex_text :: "u64 \<Rightarrow> u16 list" where
  "hex_text v = wide ''0x'' @
     map (\<lambda>i. hexdig ! unat (drop_bit (60 - 4 * i) v AND 0xF)) [0..<16]"

definition print_hex :: "firmware \<Rightarrow> u64 \<Rightarrow> unit boot" where
  "print_hex fw v = print fw (hex_text v)"

definition die :: "firmware \<Rightarrow> u16 list \<Rightarrow> u64 \<Rightarrow> 'a boot" where
  "die fw msg st =
     andthen (print fw (eol @ wide ''SYPAS loader error: '')) (\<lambda>_.
     andthen (print fw msg) (\<lambda>_.
     andthen (print fw (wide '' (status '')) (\<lambda>_.
     andthen (print_hex fw st) (\<lambda>_.
     andthen (print fw (wide '')'' @ eol @ wide ''System halted.'' @ eol)) (\<lambda>_.
     andthen (efi fw (Stall 1000000)) (\<lambda>_. stop_with (Died msg st)))))))"

definition die_ascii :: "firmware \<Rightarrow> u16 list \<Rightarrow> string \<Rightarrow> u64 \<Rightarrow> 'a boot" where
  "die_ascii fw msg detail st =
     andthen (print fw (eol @ wide ''SYPAS loader error: '')) (\<lambda>_.
     andthen (print fw msg) (\<lambda>_.
     andthen (print fw (wide '': '')) (\<lambda>_.
     die fw (map widen (take 63 detail)) st)))"

definition halt_after_exit_boot_services :: "'a boot" where
  "halt_after_exit_boot_services = stop_with Halted"

text \<open>\<^verbatim>\<open>st = call; if (EFI_ERROR(st)) die(msg, st);\<close>\<close>

definition or_die :: "firmware \<Rightarrow> efi_call \<Rightarrow> u16 list \<Rightarrow> efi_reply boot" where
  "or_die fw c msg = andthen (efi fw c) (\<lambda>r.
     if EFI_ERROR (rp_status r) then die fw msg (rp_status r) else give r)"


subsection \<open>Kernel file loading\<close>

definition backslash :: "u16 list" where "backslash = [0x5C]"

definition KERNEL_PATH :: "u16 list" where
  "KERNEL_PATH = backslash @ wide ''SYPAS'' @ backslash @ wide ''KERNEL.ELF''"

definition sizeof_infobuf :: u64 where
  "sizeof_infobuf = of_nat (sizeof layout_EFI_FILE_INFO) + 128 * 2"

definition read_kernel_file :: "firmware \<Rightarrow> u64 \<Rightarrow> (u64 \<times> u64) boot" where
  "read_kernel_file fw img =
     andthen (or_die fw (HandleProtocol img EFI_LOADED_IMAGE_PROTOCOL_GUID)
       (wide ''LoadedImage protocol missing'')) (\<lambda>li.
     andthen (peek (\<lambda>m. load_u64 m (rp_out li + off_DeviceHandle))) (\<lambda>device.
     andthen (or_die fw (HandleProtocol device EFI_SIMPLE_FILE_SYSTEM_PROTOCOL_GUID)
       (wide ''boot volume has no filesystem'')) (\<lambda>fs.
     andthen (or_die fw (OpenVolume (rp_out fs)) (wide ''OpenVolume failed'')) (\<lambda>root.
     andthen (or_die fw (FileOpen (rp_out root) KERNEL_PATH EFI_FILE_MODE_READ 0)
       (KERNEL_PATH @ wide '' not found'')) (\<lambda>f.
     andthen (or_die fw (FileGetInfo (rp_out f) EFI_FILE_INFO_GUID sizeof_infobuf)
       (wide ''GetInfo failed'')) (\<lambda>info.
     let fsize = of_nat (field_at (rp_bytes info) off_FileSize 8) :: u64 in
     if fsize = 0 \<or> fsize > SYPAS_MAX_KERNEL_FILE
     then die fw (wide ''kernel file size is outside loader policy'') EFI_LOAD_ERROR
     else andthen (or_die fw (AllocatePool EfiLoaderData fsize)
       (wide ''out of memory for kernel file'')) (\<lambda>buf.
     andthen (efi fw (FileRead (rp_out f) fsize (rp_out buf))) (\<lambda>rd.
     if EFI_ERROR (rp_status rd) \<or> rp_size rd \<noteq> fsize
     then die fw (wide ''kernel read failed'') (rp_status rd)
     else andthen (efi fw (FileClose (rp_out f))) (\<lambda>_.
       andthen (efi fw (FileClose (rp_out root))) (\<lambda>_.
       give (rp_out buf, fsize)))))))))))"

definition segment_pages :: "elf_segment \<Rightarrow> u64" where
  "segment_pages seg = (seg_page_end seg - seg_page_base seg) div EFI_PAGE_SIZE"

fun load_segments :: "firmware \<Rightarrow> u64 \<Rightarrow> elf_segment list \<Rightarrow> unit boot" where
  "load_segments fw file [] = give ()"
| "load_segments fw file (seg # ss) =
     andthen (or_die fw (AllocatePages AllocateAddress EfiLoaderData (segment_pages seg)
         (seg_page_base seg))
       (wide ''kernel load address is occupied (SYPAS v1 requires its fixed physical base to be free)''))
       (\<lambda>_.
     andthen (poke (lmemset (seg_page_base seg) 0 (unat (seg_page_end seg - seg_page_base seg)))) (\<lambda>_.
     andthen (poke (lmemcpy (seg_paddr seg) (file + seg_offset seg) (unat (seg_filesz seg)))) (\<lambda>_.
     load_segments fw file ss)))"

definition load_kernel_elf :: "firmware \<Rightarrow> u64 \<Rightarrow> u64 \<Rightarrow> elf_load_plan boot" where
  "load_kernel_elf fw file fsize =
     andthen (peek (\<lambda>m. elf_plan_load (ram_bytes m file (unat fsize)) fsize)) (\<lambda>res.
       case res of
         None \<Rightarrow> stop_with Stuck
       | Some (Inl es) \<Rightarrow>
           die_ascii fw (wide ''kernel image rejected'') (elf_status_str es) EFI_LOAD_ERROR
       | Some (Inr plan) \<Rightarrow>
           andthen (load_segments fw file (segs plan)) (\<lambda>_. give plan))"

subsection \<open>Framebuffer and ACPI\<close>

definition load_u32 :: "ram \<Rightarrow> u64 \<Rightarrow> u32" where
  "load_u32 m a = of_nat (le_val (ram_bytes m a 4))"

text \<open>An assignment to a member of the boot information structure at \<open>bi\<close>, and reading one.\<close>

definition bi_store :: "u64 \<Rightarrow> bi_field \<Rightarrow> nat \<Rightarrow> ram \<Rightarrow> ram" where
  "bi_store bi f v m = ram_store m (bi + of_nat (bi_offset f)) (le_bytes (bi_sizeof f) v)"

definition bi_load :: "u64 \<Rightarrow> bi_field \<Rightarrow> ram \<Rightarrow> nat" where
  "bi_load bi f m = le_val (ram_bytes m (bi + of_nat (bi_offset f)) (bi_sizeof f))"

definition fill_framebuffer :: "firmware \<Rightarrow> u64 \<Rightarrow> unit boot" where
  "fill_framebuffer fw bi =
     andthen (poke (bi_store bi BI_fb_format (unat SYPAS_FB_NONE))) (\<lambda>_.
     andthen (efi fw (LocateProtocol EFI_GRAPHICS_OUTPUT_PROTOCOL_GUID)) (\<lambda>gop.
     if EFI_ERROR (rp_status gop) \<or> rp_out gop = 0 then give ()
     else
       andthen (peek (\<lambda>m. load_u64 m (rp_out gop + off_gop_Mode))) (\<lambda>mode.
       andthen (peek (\<lambda>m. load_u64 m (mode + off_mode_Info))) (\<lambda>mi.
       andthen (peek (\<lambda>m. load_u32 m (mi + off_info_PixelFormat))) (\<lambda>format.
       if format \<noteq> PixelBlueGreenRedReserved8BitPerColor \<and>
          format \<noteq> PixelRedGreenBlueReserved8BitPerColor then give ()
       else
         andthen (poke (bi_store bi BI_fb_format
           (unat (if format = PixelBlueGreenRedReserved8BitPerColor then SYPAS_FB_XRGB8888
                  else SYPAS_FB_XBGR8888)))) (\<lambda>_.
         andthen (poke (\<lambda>m. bi_store bi BI_fb_base (unat (load_u64 m (mode + off_mode_FrameBufferBase))) m)) (\<lambda>_.
         andthen (poke (\<lambda>m. bi_store bi BI_fb_width (unat (load_u32 m (mi + off_info_HorizontalResolution))) m)) (\<lambda>_.
         andthen (poke (\<lambda>m. bi_store bi BI_fb_height (unat (load_u32 m (mi + off_info_VerticalResolution))) m)) (\<lambda>_.
         poke (\<lambda>m. bi_store bi BI_fb_pitch (unat (load_u32 m (mi + off_info_PixelsPerScanLine) * 4)) m)))))))))) "

definition rsdp_ok :: "ram \<Rightarrow> u64 \<Rightarrow> bool" where
  "rsdp_ok m a \<longleftrightarrow> sypas_acpi_validate_rsdp (\<lambda>x. Some (m x)) a = Some SYPAS_ACPI_RSDP_OK"

definition table_entry :: "ram \<Rightarrow> u64 \<Rightarrow> nat \<Rightarrow> u8 list \<times> u64" where
  "table_entry m tables i =
     (let ct = tables + of_nat (i * sizeof layout_EFI_CONFIGURATION_TABLE)
      in (ram_bytes m ct 16, load_u64 m (ct + off_VendorTable)))"

fun rsdp_scan :: "ram \<Rightarrow> u64 \<Rightarrow> nat \<Rightarrow> nat \<Rightarrow> u64 \<Rightarrow> u64" where
  "rsdp_scan m tables i 0 v1 = v1"
| "rsdp_scan m tables i (Suc left) v1 =
     (let (vendor, ptr) = table_entry m tables i
      in if guid_eq vendor (guid_bytes EFI_ACPI_20_TABLE_GUID) \<and> rsdp_ok m ptr then ptr
         else rsdp_scan m tables (Suc i) left
           (if guid_eq vendor (guid_bytes EFI_ACPI_10_TABLE_GUID) \<and> rsdp_ok m ptr then ptr else v1))"

definition find_acpi_rsdp :: "ram \<Rightarrow> u64 \<Rightarrow> u64" where
  "find_acpi_rsdp m st =
     rsdp_scan m (load_u64 m (st + off_ConfigurationTable)) 0
       (unat (load_u64 m (st + off_NumberOfTableEntries))) 0"


subsection \<open>Entry\<close>

definition banner :: "u16 list \<Rightarrow> u16 list" where
  "banner version = wide ''SYPAS bootloader '' @ version @ wide '' (boot protocol v1)'' @ eol"

text \<open>The assignments of lines 282 to 293, in their order.\<close>

definition fill_bootinfo :: "firmware \<Rightarrow> u64 \<Rightarrow> u64 \<Rightarrow> elf_load_plan \<Rightarrow> u64 \<Rightarrow> unit boot" where
  "fill_bootinfo fw systab bi plan stack =
     andthen (poke (lmemset bi 0 SYPAS_BOOTINFO_V1_0_SIZE)) (\<lambda>_.
     andthen (poke (bi_store bi BI_magic (unat SYPAS_BOOT_MAGIC))) (\<lambda>_.
     andthen (poke (bi_store bi BI_version_major (unat SYPAS_BOOT_VERSION_MAJOR))) (\<lambda>_.
     andthen (poke (bi_store bi BI_version_minor (unat SYPAS_BOOT_VERSION_MINOR))) (\<lambda>_.
     andthen (poke (bi_store bi BI_size SYPAS_BOOTINFO_V1_0_SIZE)) (\<lambda>_.
     andthen (poke (bi_store bi BI_kernel_phys_base (unat (phys_base plan)))) (\<lambda>_.
     andthen (poke (bi_store bi BI_kernel_size (unat (phys_end plan - phys_base plan)))) (\<lambda>_.
     andthen (poke (bi_store bi BI_stack_base (unat stack))) (\<lambda>_.
     andthen (poke (bi_store bi BI_stack_size (unat (16 * EFI_PAGE_SIZE)))) (\<lambda>_.
     andthen (poke (bi_store bi BI_efi_system_table (unat systab))) (\<lambda>_.
     andthen (poke (\<lambda>m. bi_store bi BI_acpi_rsdp (unat (find_acpi_rsdp m systab)) m)) (\<lambda>_.
     fill_framebuffer fw bi)))))))))))"

definition MAP_SLACK_DESCRIPTORS :: u64 where "MAP_SLACK_DESCRIPTORS = 32"
definition MAP_ENTRIES_PER_DESCRIPTOR :: u64 where
  "MAP_ENTRIES_PER_DESCRIPTOR = 2 * of_nat ELF_MAX_SEGMENTS + 1"

record map_sizes =
  ms_mm_pages :: u64
  ms_map_bytes :: u64
  ms_sypas_cap :: u64
  ms_sypas_pages :: u64
  ms_total_pages :: u64

text \<open>The checked arithmetic of one turn of the sizing loop; \<open>None\<close> where it dies.\<close>

definition map_buffer_sizes :: "u64 \<Rightarrow> u64 \<Rightarrow> map_sizes option" where
  "map_buffer_sizes mmsize dsz =
    (if dsz = 0 then None
     else case mul_ok MAP_SLACK_DESCRIPTORS dsz of None \<Rightarrow> None
     | Some slack \<Rightarrow> (case add_ok mmsize slack of None \<Rightarrow> None
     | Some requested \<Rightarrow> (case pages_for_size requested of None \<Rightarrow> None
     | Some mm_pages \<Rightarrow> (case mul_ok mm_pages EFI_PAGE_SIZE of None \<Rightarrow> None
     | Some bytes \<Rightarrow> (case add_ok requested (dsz - 1) of None \<Rightarrow> None
     | Some rounded \<Rightarrow> (case mul_ok (rounded div dsz) MAP_ENTRIES_PER_DESCRIPTOR of None \<Rightarrow> None
     | Some entries \<Rightarrow> (case add_ok entries 16 of None \<Rightarrow> None
     | Some sypas_cap \<Rightarrow> (case mul_ok sypas_cap (of_nat sizeof_entry) of None \<Rightarrow> None
     | Some sypas_bytes \<Rightarrow> (case pages_for_size sypas_bytes of None \<Rightarrow> None
     | Some sypas_pages \<Rightarrow> (case add_ok mm_pages sypas_pages of None \<Rightarrow> None
     | Some total_pages \<Rightarrow>
         Some \<lparr>ms_mm_pages = mm_pages, ms_map_bytes = bytes, ms_sypas_cap = sypas_cap,
               ms_sypas_pages = sypas_pages, ms_total_pages = total_pages\<rparr>))))))))))"

text \<open>
  The sizing loop; \<open>left\<close> is \<open>4 - grow\<close>.  It leaves with the buffer's address and its sizes.
\<close>

fun size_buffers :: "firmware \<Rightarrow> nat \<Rightarrow> u64 \<Rightarrow> u64 \<Rightarrow> (u64 \<times> map_sizes) boot" where
  "size_buffers fw 0 mmsize dsz = die fw (wide ''memory map keeps growing'') EFI_BUFFER_TOO_SMALL"
| "size_buffers fw (Suc left) mmsize dsz =
     (case map_buffer_sizes mmsize dsz of
        None \<Rightarrow> die fw (wide ''memory map size arithmetic overflow'') EFI_LOAD_ERROR
      | Some z \<Rightarrow>
        andthen (or_die fw (AllocatePages AllocateAnyPages EfiLoaderData (ms_total_pages z) 0)
          (wide ''memory map alloc failed'')) (\<lambda>buf.
        andthen (efi fw (GetMemoryMap (ms_map_bytes z) (rp_out buf))) (\<lambda>r.
        if \<not> EFI_ERROR (rp_status r) \<and> rp_dsz r = dsz then give (rp_out buf, z)
        else if EFI_ERROR (rp_status r) \<and> rp_status r \<noteq> EFI_BUFFER_TOO_SMALL
        then die fw (wide ''GetMemoryMap failed'') (rp_status r)
        else andthen (efi fw (FreePages (rp_out buf) (ms_total_pages z))) (\<lambda>_.
          size_buffers fw left (rp_size r) (rp_dsz r)))))"

text \<open>What a translation that succeeds leaves in the two buffers.\<close>

definition put_map :: "u64 \<Rightarrow> u8 list \<Rightarrow> u64 \<Rightarrow> sypas_memmap_entry list \<Rightarrow> ram \<Rightarrow> ram" where
  "put_map efimap sorted_bs smap out m =
     ram_store (ram_store m efimap sorted_bs) smap (concat (map encode_entry out))"

definition report_overlap :: "firmware \<Rightarrow> sypas_map_diagnostic \<Rightarrow> unit boot" where
  "report_overlap fw d =
     andthen (print fw (eol @ wide ''memory map overlap: descriptor '')) (\<lambda>_.
     andthen (print_hex fw (diag_descriptor_index d)) (\<lambda>_.
     andthen (print fw (wide '' range '')) (\<lambda>_.
     andthen (print_hex fw (diag_base d)) (\<lambda>_.
     andthen (print fw (wide ''..'')) (\<lambda>_.
     andthen (print_hex fw (diag_end d)) (\<lambda>_.
     andthen (print fw (wide '' follows end '')) (\<lambda>_.
     andthen (print_hex fw (diag_previous_end d)) (\<lambda>_.
     print fw eol))))))))"

definition map_rejected :: "firmware \<Rightarrow> sypas_map_status \<Rightarrow> sypas_map_diagnostic \<Rightarrow> 'a boot" where
  "map_rejected fw status d =
     andthen (if status = SYPAS_MAP_ERR_RANGE_OVERLAP then report_overlap fw d else give ()) (\<lambda>_.
     die_ascii fw (wide ''memory map rejected'') (sypas_map_status_str status) EFI_LOAD_ERROR)"

record exit_args =
  xa_img :: u64
  xa_plan :: elf_load_plan
  xa_bi :: u64
  xa_efimap :: u64
  xa_map_bytes :: u64
  xa_smap :: u64
  xa_cap :: u64

text \<open>
  The \<^verbatim>\<open>ExitBootServices\<close> loop; \<open>left\<close> is \<open>3 - attempt\<close>, so attempt 0 is \<open>left = 3\<close> and attempt 3
  is \<open>left = 0\<close>.
\<close>

fun exit_loop :: "firmware \<Rightarrow> exit_args \<Rightarrow> nat \<Rightarrow> unit boot" where
  "exit_loop fw a left =
     andthen (efi fw (GetMemoryMap (xa_map_bytes a) (xa_efimap a))) (\<lambda>r.
     if EFI_ERROR (rp_status r)
     then (if left = 3 then die fw (wide ''GetMemoryMap failed'') (rp_status r)
           else halt_after_exit_boot_services)
     else
       andthen (peek (\<lambda>m. ram_bytes m (xa_efimap a) (unat (rp_size r)))) (\<lambda>bs.
       case sypas_translate_memory_map (xa_efimap a) bs (rp_size r) (rp_dsz r) (xa_plan a) (xa_cap a) of
         None \<Rightarrow> stop_with Stuck
       | Some (Inl (status, diagnostic)) \<Rightarrow>
           (if left = 3 then map_rejected fw status diagnostic else halt_after_exit_boot_services)
       | Some (Inr out) \<Rightarrow>
           (case sort_descriptors bs (unat (rp_size r) div unat (rp_dsz r)) (unat (rp_dsz r)) of
              None \<Rightarrow> stop_with Stuck
            | Some sorted_bs \<Rightarrow>
              andthen (poke (put_map (xa_efimap a) sorted_bs (xa_smap a) out)) (\<lambda>_.
              andthen (poke (bi_store (xa_bi a) BI_memmap (unat (xa_smap a)))) (\<lambda>_.
              andthen (poke (bi_store (xa_bi a) BI_memmap_count (length out))) (\<lambda>_.
              andthen (efi fw (ExitBootServices (xa_img a) (rp_key r))) (\<lambda>x.
              if \<not> EFI_ERROR (rp_status x) then give ()
              else (case left of 0 \<Rightarrow> halt_after_exit_boot_services
                    | Suc left' \<Rightarrow> exit_loop fw a left'))))))))"

text \<open>The registers at the jump: interrupts are off, \<^verbatim>\<open>rbp\<close> is zero.\<close>

record handoff =
  ho_rip :: u64
  ho_rsp :: u64
  ho_rdi :: u64
  ho_rbp :: u64

definition jump_to_kernel :: "u64 \<Rightarrow> u64 \<Rightarrow> u64 \<Rightarrow> handoff boot" where
  "jump_to_kernel entry_addr stack bi =
     peek (\<lambda>m. \<lparr>ho_rip = entry_addr, ho_rsp = stack + of_nat (bi_load bi BI_stack_size m),
       ho_rdi = bi, ho_rbp = 0\<rparr>)"

definition efi_main :: "firmware \<Rightarrow> u16 list \<Rightarrow> u64 \<Rightarrow> u64 \<Rightarrow> handoff boot" where
  "efi_main fw version img systab =
     andthen (print fw (banner version)) (\<lambda>_.
     andthen (efi fw (SetWatchdogTimer 0 0 0 0)) (\<lambda>_.
     andthen (read_kernel_file fw img) (\<lambda>(file, fsize).
     andthen (print fw (wide ''loaded '' @ KERNEL_PATH @ wide '', parsing...'' @ eol)) (\<lambda>_.
     andthen (load_kernel_elf fw file fsize) (\<lambda>plan.
     andthen (efi fw (FreePool file)) (\<lambda>_.
     andthen (or_die fw (AllocatePages AllocateAnyPages EfiLoaderData 1 0)
       (wide ''bootinfo alloc failed'')) (\<lambda>bi_page.
     andthen (or_die fw (AllocatePages AllocateAnyPages EfiLoaderData 16 0)
       (wide ''stack alloc failed'')) (\<lambda>stack.
     let bi = rp_out bi_page; stack_base = rp_out stack in
     andthen (fill_bootinfo fw systab bi plan stack_base) (\<lambda>_.
     andthen (efi fw (GetMemoryMap 0 0)) (\<lambda>q.
     if rp_status q \<noteq> EFI_BUFFER_TOO_SMALL \<or> rp_dsz q = 0
     then die fw (wide ''GetMemoryMap size query failed'') (rp_status q)
     else
       andthen (size_buffers fw 4 (rp_size q) (rp_dsz q)) (\<lambda>(mm_buf, z).
       andthen (print fw (wide ''entering SYPAS kernel...'' @ eol @ eol)) (\<lambda>_.
       andthen (exit_loop fw \<lparr>xa_img = img, xa_plan = plan, xa_bi = bi, xa_efimap = mm_buf,
           xa_map_bytes = ms_map_bytes z, xa_smap = mm_buf + ms_map_bytes z,
           xa_cap = ms_sypas_cap z\<rparr> 3) (\<lambda>_.
       jump_to_kernel (plan_entry plan) stack_base bi)))))))))))))"

declare exit_loop.simps [simp del]

end
