(* ===== verification/Blocks.thy ===== *)
theory Blocks
  imports Loader
begin

text \<open>
  Memory the loader holds: which ranges the calls so far have given it (\<open>owned\<close>), what the
  firmware promises about them (\<open>efi_contract\<close>, the parts of the UEFI specification the loader
  relies on), and assertions \<open>blocks\<close> that list disjoint owned ranges with their contents.  The
  lemmas say what each kind of firmware call and each store does to such a list.
\<close>

unbundle bit_operations_syntax

subsection \<open>Ownership and the firmware's contract\<close>

type_synonym range = "u64 \<times> nat"

definition call_range :: "efi_call \<Rightarrow> efi_reply \<Rightarrow> range option" where
  "call_range c r = (case c of
     AllocatePages t ty n a \<Rightarrow> Some (if t = AllocateAddress then a else rp_out r, unat n * 4096)
   | AllocatePool ty n \<Rightarrow> Some (rp_out r, unat n)
   | _ \<Rightarrow> None)"

definition freed_base :: "efi_call \<Rightarrow> u64 option" where
  "freed_base c = (case c of FreePages a n \<Rightarrow> Some a | FreePool a \<Rightarrow> Some a | _ \<Rightarrow> None)"

definition own_step :: "range list \<Rightarrow> efi_call \<times> efi_reply \<Rightarrow> range list" where
  "own_step own ev = (case ev of (c, r) \<Rightarrow>
     case freed_base c of
       Some a \<Rightarrow> filter (\<lambda>(b, n). b \<noteq> a) own
     | None \<Rightarrow> (case call_range c r of
                 Some rg \<Rightarrow> if EFI_ERROR (rp_status r) then own else rg # own
               | None \<Rightarrow> own))"

definition owned :: "call_record \<Rightarrow> range list" where
  "owned tr = foldl own_step [] tr"

text \<open>The buffer a call may write.\<close>

definition call_buffer :: "efi_call \<Rightarrow> range" where
  "call_buffer c = (case c of
     FileRead f n a \<Rightarrow> (a, unat n)
   | GetMemoryMap n a \<Rightarrow> (a, unat n)
   | _ \<Rightarrow> (0, 0))"

definition within :: "u64 \<Rightarrow> range \<Rightarrow> bool" where
  "within x rg = (case rg of (a, n) \<Rightarrow> in_range x a n)"

definition clear_of :: "range \<Rightarrow> range \<Rightarrow> bool" where
  "clear_of r1 r2 = (case r1 of (a, n) \<Rightarrow> case r2 of (b, k) \<Rightarrow>
     unat a + n \<le> unat b \<or> unat b + k \<le> unat a)"

text \<open>
  The contract: a call leaves alone the memory the loader holds before and after it, the call's
  buffer apart; an
  allocation that succeeds returns memory that is addressable and clear of what the loader holds;
  a memory map that is returned fits the buffer it was asked into.
\<close>

definition keeps_memory :: "firmware \<Rightarrow> bool" where
  "keeps_memory fw \<longleftrightarrow> (\<forall>tr m c x rg. rg \<in> set (owned tr) \<longrightarrow>
     rg \<in> set (owned (tr @ [(c, fst (fw tr m c))])) \<longrightarrow> within x rg \<longrightarrow> \<not> within x (call_buffer c) \<longrightarrow>
     snd (fw tr m c) x = m x)"

definition allocates_fresh :: "firmware \<Rightarrow> bool" where
  "allocates_fresh fw \<longleftrightarrow> (\<forall>tr m c rg. call_range c (fst (fw tr m c)) = Some rg \<longrightarrow>
     \<not> EFI_ERROR (rp_status (fst (fw tr m c))) \<longrightarrow>
     region_ok (fst rg) (snd rg) \<and> (\<forall>rg'\<in>set (owned tr). clear_of rg rg'))"

definition map_fits :: "firmware \<Rightarrow> bool" where
  "map_fits fw \<longleftrightarrow> (\<forall>tr m n a. \<not> EFI_ERROR (rp_status (fst (fw tr m (GetMemoryMap n a)))) \<longrightarrow>
     rp_size (fst (fw tr m (GetMemoryMap n a))) \<le> n)"

definition efi_contract :: "firmware \<Rightarrow> bool" where
  "efi_contract fw \<longleftrightarrow> keeps_memory fw \<and> allocates_fresh fw \<and> map_fits fw"

lemma keeps_memoryD:
  "keeps_memory fw \<Longrightarrow> rg \<in> set (owned tr) \<Longrightarrow> rg \<in> set (owned (tr @ [(c, fst (fw tr m c))])) \<Longrightarrow>
   within x rg \<Longrightarrow> \<not> within x (call_buffer c) \<Longrightarrow> snd (fw tr m c) x = m x"
  unfolding keeps_memory_def by blast

lemma owned_snoc: "owned (tr @ [ev]) = own_step (owned tr) ev"
  by (simp add: owned_def)

subsection \<open>Blocks\<close>

type_synonym block = "u64 \<times> u8 list"

definition extent :: "block \<Rightarrow> range" where
  "extent blk = (fst blk, length (snd blk))"

definition block_at :: "call_record \<Rightarrow> ram \<Rightarrow> block \<Rightarrow> bool" where
  "block_at tr m blk \<longleftrightarrow> snd blk \<noteq> [] \<and> extent blk \<in> set (owned tr) \<and>
     region_ok (fst blk) (length (snd blk)) \<and> ram_bytes m (fst blk) (length (snd blk)) = snd blk"

definition apart :: "block \<Rightarrow> block \<Rightarrow> bool" where
  "apart p q \<longleftrightarrow> clear_of (extent p) (extent q)"

definition blocks :: "call_record \<Rightarrow> ram \<Rightarrow> block list \<Rightarrow> bool" where
  "blocks tr m H \<longleftrightarrow> (\<forall>blk\<in>set H. block_at tr m blk) \<and> sorted_wrt apart H"

lemma clear_of_sym: "clear_of r1 r2 \<longleftrightarrow> clear_of r2 r1"
  by (auto simp: clear_of_def split: prod.splits)

lemma apart_sym: "apart p q \<longleftrightarrow> apart q p"
  by (simp add: apart_def clear_of_sym)

lemma clear_of_within: "clear_of r1 r2 \<Longrightarrow> within x r1 \<Longrightarrow> \<not> within x r2"
  by (auto simp: clear_of_def within_def in_range_def split: prod.splits)

lemma blocks_Nil [simp]: "blocks tr m []"
  by (simp add: blocks_def)

lemma blocks_Cons:
  "blocks tr m (p # H) \<longleftrightarrow> block_at tr m p \<and> (\<forall>q\<in>set H. apart p q) \<and> blocks tr m H"
  by (auto simp: blocks_def)

lemma blocks_append:
  "blocks tr m (G @ H) \<longleftrightarrow> blocks tr m G \<and> blocks tr m H \<and> (\<forall>p\<in>set G. \<forall>q\<in>set H. apart p q)"
  by (auto simp: blocks_def sorted_wrt_append)

lemma blocks_swap: "blocks tr m (G @ H) \<longleftrightarrow> blocks tr m (H @ G)"
  by (auto simp: blocks_append apart_sym)

lemma blocks_member: "blocks tr m H \<Longrightarrow> blk \<in> set H \<Longrightarrow> block_at tr m blk"
  by (simp add: blocks_def)

lemma block_at_cong:
  assumes "block_at tr m blk" and "extent blk \<in> set (owned tr')"
    and "\<And>x. within x (extent blk) \<Longrightarrow> m' x = m x"
  shows "block_at tr' m' blk"
proof -
  have "ram_bytes m' (fst blk) (length (snd blk)) = ram_bytes m (fst blk) (length (snd blk))"
    using assms by (intro ram_bytes_cong) (auto simp: within_def extent_def block_at_def)
  with assms show ?thesis by (simp add: block_at_def)
qed

lemma blocks_cong:
  assumes "blocks tr m H" and "\<And>blk. blk \<in> set H \<Longrightarrow> extent blk \<in> set (owned tr')"
    and "\<And>blk x. blk \<in> set H \<Longrightarrow> within x (extent blk) \<Longrightarrow> m' x = m x"
  shows "blocks tr' m' H"
  using assms by (auto simp: blocks_def intro: block_at_cong)

subsection \<open>Firmware calls on blocks\<close>

lemma apart_base:
  assumes "block_at tr m p" and "block_at tr m q" and "apart p q"
  shows "fst p \<noteq> fst q"
  using assms by (auto simp: apart_def clear_of_def extent_def block_at_def)

text \<open>A call that frees nothing keeps every block clear of its buffer.\<close>

lemma call_keeps_blocks:
  assumes "keeps_memory fw" and "fw tr m c = (r, m')" and "freed_base c = None"
    and "blocks tr m H" and "\<And>blk. blk \<in> set H \<Longrightarrow> clear_of (extent blk) (call_buffer c)"
  shows "blocks (tr @ [(c, r)]) m' H"
proof (rule blocks_cong [OF assms(4)])
  fix blk assume b: "blk \<in> set H"
  then have o: "extent blk \<in> set (owned tr)" using assms(4) by (auto simp: blocks_def block_at_def)
  then show o': "extent blk \<in> set (owned (tr @ [(c, r)]))"
    using assms(3) by (simp add: owned_snoc own_step_def split: option.split)
  fix x assume x: "within x (extent blk)"
  then have "\<not> within x (call_buffer c)" using assms(5) [OF b] clear_of_within by blast
  with keeps_memoryD [OF assms(1) o, of c m x] o' x show "m' x = m x" by (simp add: assms(2))
qed

lemma clear_of_empty: "clear_of rg (0, 0)"
  by (simp add: clear_of_def split: prod.split)

text \<open>A call with a block as its buffer: the block's contents change within the buffer.\<close>

lemma call_fills_block:
  assumes "keeps_memory fw" and "fw tr m c = (r, m')" and "freed_base c = None"
    and "call_buffer c = (a, n)" and "n \<le> length bs"
    and "blocks tr m ((a, bs) # H)"
  shows "\<exists>bs'. length bs' = length bs \<and> blocks (tr @ [(c, r)]) m' ((a, bs') # H)"
proof -
  let ?tr = "tr @ [(c, r)]"
  have H: "blocks tr m H" "block_at tr m (a, bs)" "\<forall>q\<in>set H. apart (a, bs) q"
    using assms(6) by (simp_all add: blocks_Cons)
  have "clear_of (extent q) (call_buffer c)" if "q \<in> set H" for q
    using that H(3) assms(4,5) by (auto simp: apart_def clear_of_def extent_def split: prod.splits)
  with call_keeps_blocks [OF assms(1-3) H(1)] have K: "blocks ?tr m' H" .
  let ?bs = "ram_bytes m' a (length bs)"
  have "extent (a, bs) \<in> set (owned ?tr)"
    using H(2) assms(3) by (auto simp: block_at_def owned_snoc own_step_def split: option.split)
  then have "block_at ?tr m' (a, ?bs)" using H(2)
    by (auto simp: block_at_def extent_def) (metis length_ram_bytes list.size(3) length_0_conv)
  moreover have "\<forall>q\<in>set H. apart (a, ?bs) q" using H(3) by (simp add: apart_def extent_def)
  ultimately show ?thesis using K by (intro exI [of _ ?bs]) (simp add: blocks_Cons)
qed

lemma call_allocates:
  assumes "efi_contract fw" and "fw tr m c = (r, m')" and "\<not> EFI_ERROR (rp_status r)"
    and "call_range c r = Some (a, n)" and "0 < n" and "blocks tr m H"
  shows "\<exists>bs. length bs = n \<and> blocks (tr @ [(c, r)]) m' ((a, bs) # H)"
proof -
  let ?tr = "tr @ [(c, r)]" and ?bs = "ram_bytes m' a n"
  have c: "freed_base c = None" "call_buffer c = (0, 0)"
    using assms(4) by (auto simp: call_range_def freed_base_def call_buffer_def split: efi_call.splits)
  have k: "keeps_memory fw" and f: "allocates_fresh fw" using assms(1) by (simp_all add: efi_contract_def)
  have K: "blocks ?tr m' H"
    using call_keeps_blocks [OF k assms(2) c(1) assms(6)] by (simp add: c(2) clear_of_empty)
  have fr: "region_ok a n \<and> (\<forall>rg'\<in>set (owned tr). clear_of (a, n) rg')"
    using f assms(2-4) unfolding allocates_fresh_def by (metis fst_conv snd_conv)
  have "(a, n) \<in> set (owned ?tr)"
    using c(1) assms(3,4) by (simp add: owned_snoc own_step_def)
  then have "block_at ?tr m' (a, ?bs)" using fr assms(5)
    by (auto simp: block_at_def extent_def) (metis length_ram_bytes list.size(3) less_numeral_extra(3))
  moreover have "\<forall>q\<in>set H. apart (a, ?bs) q"
    using fr assms(6) by (auto simp: apart_def extent_def blocks_def block_at_def)
  ultimately show ?thesis using K by (intro exI [of _ ?bs]) (simp add: blocks_Cons)
qed

lemma call_frees:
  assumes "keeps_memory fw" and "fw tr m c = (r, m')" and "freed_base c = Some a"
    and "blocks tr m ((a, bs) # H)"
  shows "blocks (tr @ [(c, r)]) m' H"
proof (rule blocks_cong [where tr = tr and m = m])
  show H: "blocks tr m H" using assms(4) by (simp add: blocks_Cons)
  have c: "call_buffer c = (0, 0)"
    using assms(3) by (auto simp: freed_base_def call_buffer_def split: efi_call.splits)
  fix blk assume b: "blk \<in> set H"
  then have o: "extent blk \<in> set (owned tr)" using H by (auto simp: blocks_def block_at_def)
  have "fst blk \<noteq> a"
    using apart_base [of tr m "(a, bs)" blk] assms(4) b H by (auto simp: blocks_Cons blocks_def)
  with o show o': "extent blk \<in> set (owned (tr @ [(c, r)]))"
    using assms(3) by (auto simp: owned_snoc own_step_def extent_def)
  fix x assume x: "within x (extent blk)"
  have "\<not> within x (call_buffer c)" by (simp add: c within_def in_range_def)
  with keeps_memoryD [OF assms(1) o, of c m x] o' x show "m' x = m x" by (simp add: assms(2))
qed

subsection \<open>Stores\<close>

definition patch :: "u8 list \<Rightarrow> nat \<Rightarrow> u8 list \<Rightarrow> u8 list" where
  "patch bs off xs = take off bs @ xs @ drop (off + length xs) bs"

lemma length_patch [simp]: "off + length xs \<le> length bs \<Longrightarrow> length (patch bs off xs) = length bs"
  by (simp add: patch_def)

lemma nth_patch:
  assumes "off + length xs \<le> length bs" and "i < length bs"
  shows "patch bs off xs ! i = (if off \<le> i \<and> i < off + length xs then xs ! (i - off) else bs ! i)"
  using assms by (auto simp: patch_def nth_append)

lemma ram_bytes_store_inside:
  assumes "region_ok a n" and "off + length xs \<le> n"
  shows "ram_bytes (ram_store m (a + of_nat off) xs) a n = patch (ram_bytes m a n) off xs"
proof (rule nth_equalityI)
  show "length (ram_bytes (ram_store m (a + of_nat off) xs) a n) = length (patch (ram_bytes m a n) off xs)"
    using assms(2) by simp
  fix i assume "i < length (ram_bytes (ram_store m (a + of_nat off) xs) a n)"
  then have i: "i < n" by simp
  have u: "unat (a + of_nat i) = unat a + i"
    using i assms(1) by (intro unat_add_of_nat) (simp add: region_ok_def)
  show "ram_bytes (ram_store m (a + of_nat off) xs) a n ! i = patch (ram_bytes m a n) off xs ! i"
  proof (cases "xs = []")
    case True
    have "ram_store m (a + of_nat off) [] = m" by (simp add: ram_store_def)
    moreover have "patch (ram_bytes m a n) off [] = ram_bytes m a n" by (simp add: patch_def)
    ultimately show ?thesis using True by simp
  next
    case False
    then have o: "off < n" using assms(2) by (cases xs) auto
    then have uo: "unat (a + of_nat off) = unat a + off"
      using assms(1) by (intro unat_add_of_nat) (simp add: region_ok_def)
    have r: "region_ok (a + of_nat off) (length xs)"
      using uo assms by (simp add: region_ok_def)
    have in_iff: "in_range (a + of_nat i) (a + of_nat off) (length xs) \<longleftrightarrow> off \<le> i \<and> i < off + length xs"
      using u uo by (auto simp: in_range_def)
    show ?thesis
    proof (cases "off \<le> i \<and> i < off + length xs")
      case True
      then have "ram_store m (a + of_nat off) xs (a + of_nat i) = xs ! (i - off)"
        using ram_store_in [of "a + of_nat i" "a + of_nat off" xs m] in_iff u uo by simp
      with True i assms(2) show ?thesis by (simp add: nth_patch) (simp add: ram_bytes_def)
    next
      case False
      then have "ram_store m (a + of_nat off) xs (a + of_nat i) = m (a + of_nat i)"
        using ram_store_out [OF r] in_iff by simp
      with False i assms(2) show ?thesis
        by (subst nth_patch) (auto simp: ram_bytes_def)
    qed
  qed
qed

text \<open>Storing inside a block changes that block and no other.\<close>

lemma store_in_block:
  assumes "blocks tr m ((a, bs) # H)" and "off + length xs \<le> length bs"
  shows "blocks tr (ram_store m (a + of_nat off) xs) ((a, patch bs off xs) # H)"
proof -
  let ?m = "ram_store m (a + of_nat off) xs"
  have B: "block_at tr m (a, bs)" "\<forall>q\<in>set H. apart (a, bs) q" "blocks tr m H"
    using assms(1) by (simp_all add: blocks_Cons)
  then have r: "region_ok a (length bs)" and c: "ram_bytes m a (length bs) = bs"
    by (simp_all add: block_at_def)
  have "block_at tr ?m (a, patch bs off xs)"
    using B(1) assms(2) ram_bytes_store_inside [OF r assms(2), of m] c
    by (auto simp: block_at_def extent_def)
      (metis length_patch list.size(3) length_0_conv)
  moreover have "\<forall>q\<in>set H. apart (a, patch bs off xs) q"
    using B(2) assms(2) by (simp add: apart_def extent_def)
  moreover have "blocks tr ?m H"
  proof (rule blocks_cong [OF B(3)])
    fix q x assume q: "q \<in> set H" and x: "within x (extent q)"
    show "?m x = m x"
    proof (cases "xs = []")
      case False
      then have "off < length bs" using assms(2) by (cases xs) auto
      then have uo: "unat (a + of_nat off) = unat a + off"
        using r by (intro unat_add_of_nat) (simp add: region_ok_def)
      have "\<not> within x (extent (a, bs))"
        using B(2) q x clear_of_within [of "extent q" "extent (a, bs)"] by (auto simp: apart_def clear_of_sym)
      then have "\<not> in_range x (a + of_nat off) (length xs)"
        using uo assms(2) by (auto simp: within_def extent_def in_range_def)
      moreover have "region_ok (a + of_nat off) (length xs)"
        using r uo assms(2) by (simp add: region_ok_def)
      ultimately show ?thesis by (intro ram_store_out)
    qed (simp add: ram_store_def)
  qed (use B(3) in \<open>auto simp: blocks_def block_at_def\<close>)
  ultimately show ?thesis by (simp add: blocks_Cons)
qed

end
