(* ===== verification/Staging.thy ===== *)
theory Staging
  imports Blocks
begin

text \<open>
  What the loader has staged in memory before the memory map is taken: the kernel file, the
  segments of its load plan and the boot information page, as lists of disjoint blocks
  (\<^verbatim>\<open>read_kernel_file\<close>, \<^verbatim>\<open>load_kernel_elf\<close> and lines 278 to 293 of \<^verbatim>\<open>efi_main\<close>).
\<close>

unbundle bit_operations_syntax

subsection \<open>Running the pieces\<close>

definition holding :: "block list \<Rightarrow> loader \<Rightarrow> bool" where
  "holding H s \<longleftrightarrow> blocks (ld_calls s) (ld_mem s) H"

lemma efiD: "efi fw c s = (Inr r, s') \<Longrightarrow>
    fw (ld_calls s) (ld_mem s) c = (r, ld_mem s') \<and> ld_calls s' = ld_calls s @ [(c, r)]"
  by (auto simp: efi_def Let_def split: prod.splits)

lemma die_never [simp]: "die fw msg st s \<noteq> (Inr x, s')"
  by (auto simp: die_def andthen_def stop_with_def split: prod.splits sum.splits)

lemma die_ascii_never [simp]: "die_ascii fw msg detail st s \<noteq> (Inr x, s')"
  unfolding die_ascii_def by (auto elim!: andthenE)

lemma halt_never [simp]: "halt_after_exit_boot_services s \<noteq> (Inr x, s')"
  by (simp add: halt_after_exit_boot_services_def)

lemma map_rejected_never [simp]: "map_rejected fw status d s \<noteq> (Inr x, s')"
  unfolding map_rejected_def by (auto elim!: andthenE)

lemma peekD: "peek f s = (Inr y, s') \<Longrightarrow> y = f (ld_mem s) \<and> s' = s"
  by (auto simp: peek_def)

lemma pokeD: "poke f s = (Inr y, s') \<Longrightarrow> s' = s\<lparr>ld_mem := f (ld_mem s)\<rparr>"
  by (simp add: poke_def)

lemma or_dieD: "or_die fw c msg s = (Inr r, s') \<Longrightarrow> efi fw c s = (Inr r, s') \<and> \<not> EFI_ERROR (rp_status r)"
  unfolding or_die_def by (auto elim!: andthenE dest!: giveD split: if_splits)

lemma if_dieE:
  assumes "(if b then die fw msg st else k) s = (Inr y, s')"
  obtains "\<not> b" and "k s = (Inr y, s')"
  using assms by (auto split: if_splits)

text \<open>Pieces that change no block.\<close>

definition keeping :: "'a boot \<Rightarrow> bool" where
  "keeping m \<longleftrightarrow> (\<forall>s x s' H. m s = (Inr x, s') \<longrightarrow> holding H s \<longrightarrow> holding H s')"

named_theorems keeping_rule \<open>pieces of the loader that keep every block\<close>

lemma keepingD: "keeping m \<Longrightarrow> m s = (Inr x, s') \<Longrightarrow> holding H s \<Longrightarrow> holding H s'"
  unfolding keeping_def by blast

lemma keeping_give [keeping_rule]: "keeping (give x)"
  by (auto simp: keeping_def dest: giveD)

lemma keeping_peek [keeping_rule]: "keeping (peek f)"
  by (auto simp: keeping_def dest: peekD)

lemma keeping_die [keeping_rule]: "keeping (die fw msg st)"
  by (simp add: keeping_def)

lemma keeping_andthen [keeping_rule]: "keeping m \<Longrightarrow> (\<And>x. keeping (k x)) \<Longrightarrow> keeping (andthen m k)"
  unfolding keeping_def by (blast elim: andthenE)

lemma keeping_if [keeping_rule]: "keeping x \<Longrightarrow> keeping y \<Longrightarrow> keeping (if b then x else y)"
  by simp

definition harmless :: "efi_call \<Rightarrow> bool" where
  "harmless c \<longleftrightarrow> freed_base c = None \<and> call_buffer c = (0, 0)"

lemma harmless_calls [simp]:
  "harmless (OutputString s)" "harmless (SetWatchdogTimer i j k l)" "harmless (HandleProtocol h g)"
  "harmless (LocateProtocol g)" "harmless (OpenVolume v)" "harmless (FileOpen d p i j)"
  "harmless (FileGetInfo f g i)" "harmless (FileClose f)" "harmless (ExitBootServices i k)"
  "harmless (GetMemoryMap 0 0)"
  by (simp_all add: harmless_def freed_base_def call_buffer_def)

lemma keeping_efi [keeping_rule]:
  assumes "efi_contract fw" and "harmless c"
  shows "keeping (efi fw c)"
  unfolding keeping_def
proof (intro allI impI)
  fix s r s' H assume "efi fw c s = (Inr r, s')" and H: "holding H s"
  from efiD [OF this(1)] show "holding H s'"
    using assms H call_keeps_blocks [of fw "ld_calls s" "ld_mem s" c r "ld_mem s'" H]
    by (simp add: holding_def efi_contract_def harmless_def clear_of_empty)
qed

lemma keeping_or_die [keeping_rule]: "efi_contract fw \<Longrightarrow> harmless c \<Longrightarrow> keeping (or_die fw c msg)"
  unfolding or_die_def by (intro keeping_rule)

lemma keeping_print [keeping_rule]: "efi_contract fw \<Longrightarrow> keeping (print fw s)"
  unfolding print_def by (intro keeping_rule) simp_all

lemma allocationD:
  assumes "efi_contract fw" and "or_die fw c msg s = (Inr r, s')" and "call_range c r = Some (a, n)"
    and "0 < n" and "holding H s"
  shows "\<exists>bs. length bs = n \<and> holding ((a, bs) # H) s'"
proof -
  from or_dieD [OF assms(2)] have "efi fw c s = (Inr r, s')" and ok: "\<not> EFI_ERROR (rp_status r)" by simp_all
  from efiD [OF this(1)] have f: "fw (ld_calls s) (ld_mem s) c = (r, ld_mem s')"
    and c: "ld_calls s' = ld_calls s @ [(c, r)]" by simp_all
  from call_allocates [OF assms(1) f ok assms(3,4)] assms(5) show ?thesis
    by (simp add: holding_def c)
qed

lemma fillD:
  assumes "efi_contract fw" and "efi fw c s = (Inr r, s')" and "freed_base c = None"
    and "call_buffer c = (a, n)" and "n \<le> length bs" and "holding ((a, bs) # H) s"
  shows "\<exists>bs'. length bs' = length bs \<and> holding ((a, bs') # H) s'"
proof -
  from efiD [OF assms(2)] have f: "fw (ld_calls s) (ld_mem s) c = (r, ld_mem s')"
    and c: "ld_calls s' = ld_calls s @ [(c, r)]" by simp_all
  have k: "keeps_memory fw" using assms(1) by (simp add: efi_contract_def)
  from call_fills_block [OF k f assms(3-5)] assms(6) show ?thesis by (simp add: holding_def c)
qed

lemma freeD:
  assumes "efi_contract fw" and "efi fw c s = (Inr r, s')" and "freed_base c = Some a"
    and "holding ((a, bs) # H) s"
  shows "holding H s'"
proof -
  from efiD [OF assms(2)] have f: "fw (ld_calls s) (ld_mem s) c = (r, ld_mem s')"
    and c: "ld_calls s' = ld_calls s @ [(c, r)]" by simp_all
  have k: "keeps_memory fw" using assms(1) by (simp add: efi_contract_def)
  from call_frees [OF k f assms(3)] assms(4) show ?thesis by (simp add: holding_def c)
qed

lemma holding_swap: "holding (p # q # H) s \<longleftrightarrow> holding (q # p # H) s"
  by (auto simp: holding_def blocks_Cons apart_sym)

lemma holding_append: "holding (G @ H) s \<longleftrightarrow> holding (H @ G) s"
  by (simp add: holding_def blocks_swap)

lemma holding_tl: "holding (p # H) s \<Longrightarrow> holding H s"
  by (simp add: holding_def blocks_Cons)

lemma holding_bytes:
  "holding ((a, bs) # H) s \<Longrightarrow> ram_bytes (ld_mem s) a (length bs) = bs \<and> region_ok a (length bs)"
  by (simp add: holding_def blocks_Cons block_at_def)

lemma ram_bytes_part:
  assumes "ram_bytes m a (length bs) = bs" and "off + n \<le> length bs"
  shows "ram_bytes m (a + of_nat off) n = take n (drop off bs)"
proof (rule nth_equalityI)
  show "length (ram_bytes m (a + of_nat off) n) = length (take n (drop off bs))" using assms(2) by simp
  fix i assume "i < length (ram_bytes m (a + of_nat off) n)"
  then have i: "i < n" by simp
  have "ram_bytes m a (length bs) ! (off + i) = m (a + of_nat (off + i))"
    using i assms(2) by (simp add: ram_bytes_def)
  then have "bs ! (off + i) = m (a + of_nat (off + i))" using assms(1) by simp
  then show "ram_bytes m (a + of_nat off) n ! i = take n (drop off bs) ! i"
    using i assms(2) by (simp add: ram_bytes_def add.assoc)
qed

lemma pokeD_store:
  assumes "poke f s = (Inr u, s')" and "holding ((a, bs) # H) s"
    and "f (ld_mem s) = ram_store (ld_mem s) (a + of_nat off) xs" and "off + length xs \<le> length bs"
  shows "holding ((a, patch bs off xs) # H) s'"
  using pokeD [OF assms(1)] store_in_block [of "ld_calls s" "ld_mem s" a bs H off xs] assms(2-4)
  by (simp add: holding_def)

subsection \<open>The copy loops\<close>

lemma ram_store_Nil: "ram_store m d [] = m"
  by (simp add: ram_store_def)

lemma ram_store_Cons:
  assumes "length bs < 2 ^ 64"
  shows "ram_store m d (b # bs) = ram_store (m(d := b)) (d + 1) bs"
proof
  fix x
  show "ram_store m d (b # bs) x = ram_store (m(d := b)) (d + 1) bs x"
  proof (cases "x = d")
    case True
    have "x - (d + 1) = - 1" using True by simp
    then have "unat (x - (d + 1)) = 2 ^ 64 - 1"
      by (simp only: unsigned_minus_1_eq_mask) (simp add: mask_eq_exp_minus_1)
    with assms True show ?thesis by (simp add: ram_store_def)
  next
    case False
    then have "unat (x - d) = Suc (unat (x - (d + 1)))"
      by (simp add: diff_diff_eq [symmetric] unat_minus_one unat_gt_0)
    with False show ?thesis by (simp add: ram_store_def)
  qed
qed

lemma lmemset_store: "n < 2 ^ 64 \<Longrightarrow> lmemset d c n m = ram_store m d (replicate n c)"
  by (induction n arbitrary: d m) (simp_all add: ram_store_Nil ram_store_Cons)

lemma ram_bytes_Suc: "ram_bytes m a (Suc n) = m a # ram_bytes m (a + 1) n"
  by (simp add: ram_bytes_def map_upt_Suc ac_simps del: upt_Suc)

lemma lmemcpy_store:
  assumes "n < 2 ^ 64" and "\<And>i j. i < n \<Longrightarrow> j < n \<Longrightarrow> s + of_nat i \<noteq> d + of_nat j"
  shows "lmemcpy d s n m = ram_store m d (ram_bytes m s n)"
  using assms
proof (induction n arbitrary: d s m)
  case 0
  then show ?case by (simp add: ram_bytes_def ram_store_Nil)
next
  case (Suc n)
  have ne: "s + 1 + of_nat i \<noteq> d + 1 + of_nat j" if "i < n" "j < n" for i j
    using Suc.prems(2) [of "Suc i" "Suc j"] that by (simp add: ac_simps)
  have "ram_bytes (m(d := m s)) (s + 1) n = ram_bytes m (s + 1) n"
  proof (rule nth_equalityI)
    fix i assume "i < length (ram_bytes (m(d := m s)) (s + 1) n)"
    then have "i < n" by simp
    moreover from this have "s + 1 + of_nat i \<noteq> d" using Suc.prems(2) [of "Suc i" 0] by (simp add: ac_simps)
    ultimately show "ram_bytes (m(d := m s)) (s + 1) n ! i = ram_bytes m (s + 1) n ! i"
      by (simp add: ram_bytes_def)
  qed simp
  moreover have "lmemcpy (d + 1) (s + 1) n (m(d := m s)) =
      ram_store (m(d := m s)) (d + 1) (ram_bytes (m(d := m s)) (s + 1) n)"
    by (rule Suc.IH) (use ne Suc.prems(1) in simp_all)
  moreover have "length (ram_bytes m (s + 1) n) < 2 ^ 64" using Suc.prems(1) by simp
  ultimately show ?case by (simp only: lmemcpy.simps ram_bytes_Suc ram_store_Cons)
qed


subsection \<open>Reading the kernel file\<close>

text \<open>\<open>raw\<close> is what a complete read left in its buffer, at some point of the calls \<open>tr\<close>.\<close>

definition file_read :: "firmware \<Rightarrow> call_record \<Rightarrow> u8 list \<Rightarrow> bool" where
  "file_read fw tr raw \<longleftrightarrow> (\<exists>tr1 tr2 m f a r m'. tr = tr1 @ (FileRead f (of_nat (length raw)) a, r) # tr2 \<and>
     fw tr1 m (FileRead f (of_nat (length raw)) a) = (r, m') \<and> \<not> EFI_ERROR (rp_status r) \<and>
     rp_size r = of_nat (length raw) \<and> ram_bytes m' a (length raw) = raw)"

lemma file_read_append: "file_read fw tr raw \<Longrightarrow> file_read fw (tr @ tr') raw"
  unfolding file_read_def by (metis append.assoc append_Cons)

lemma extends_calls:
  "efi fw c s = (Inr r, s') \<Longrightarrow> file_read fw (ld_calls s) raw \<Longrightarrow> file_read fw (ld_calls s') raw"
  by (drule efiD) (auto intro: file_read_append)

lemma read_kernel_fileE:
  assumes "read_kernel_file fw img s = (Inr (buf, fsize), s')"
  obtains f bufr rd c d root s6 s7 s8 s9 where "fsize \<noteq> 0" and "buf = rp_out bufr"
    and "or_die fw (AllocatePool EfiLoaderData fsize) (wide ''out of memory for kernel file'') s6 = (Inr bufr, s7)"
    and "efi fw (FileRead f fsize (rp_out bufr)) s7 = (Inr rd, s8)"
    and "\<not> EFI_ERROR (rp_status rd)" and "rp_size rd = fsize"
    and "efi fw (FileClose f) s8 = (Inr c, s9)" and "efi fw (FileClose root) s9 = (Inr d, s')"
  using assms unfolding read_kernel_file_def Let_def
  by (elim andthenE if_dieE giveE) (rule that; simp only: prod.inject de_Morgan_disj not_not; blast)

lemma read_kernel_fileD:
  assumes "efi_contract fw" and "read_kernel_file fw img s = (Inr (buf, fsize), s')"
  shows "\<exists>raw. length raw = unat fsize \<and> 0 < length raw \<and> file_read fw (ld_calls s') raw \<and>
    holding [(buf, raw)] s'"
proof -
  from assms(2) obtain f bufr rd c d root s6 s7 s8 s9 where n: "fsize \<noteq> 0" and buf: "buf = rp_out bufr"
    and al: "or_die fw (AllocatePool EfiLoaderData fsize) (wide ''out of memory for kernel file'') s6 = (Inr bufr, s7)"
    and rd: "efi fw (FileRead f fsize (rp_out bufr)) s7 = (Inr rd, s8)"
      "\<not> EFI_ERROR (rp_status rd)" "rp_size rd = fsize"
    and cl: "efi fw (FileClose f) s8 = (Inr c, s9)" "efi fw (FileClose root) s9 = (Inr d, s')"
    by (rule read_kernel_fileE)
  have pos: "0 < unat fsize" using n by (simp add: unat_gt_0)
  have cr: "call_range (AllocatePool EfiLoaderData fsize) bufr = Some (buf, unat fsize)"
    using buf by (simp add: call_range_def)
  have e0: "holding [] s6" by (simp add: holding_def)
  obtain bs where bs: "length bs = unat fsize" "holding [(buf, bs)] s7"
    using allocationD [OF assms(1) al cr pos e0] by blast
  obtain raw where raw: "length raw = unat fsize" "holding [(buf, raw)] s8"
    using fillD [OF assms(1) rd(1), of buf "unat fsize" bs "[]"] bs buf
    by (auto simp: freed_base_def call_buffer_def)
  have "ram_bytes (ld_mem s8) buf (length raw) = raw" using holding_bytes [OF raw(2)] by simp
  then have "file_read fw (ld_calls s8) raw"
    unfolding file_read_def using efiD [OF rd(1)] rd(2,3) raw(1) buf
    by - (rule exI [of _ "ld_calls s7"], rule exI [of _ "[]"], auto)
  then have fr: "file_read fw (ld_calls s') raw"
    using extends_calls [OF cl(2)] extends_calls [OF cl(1)] by blast
  have q: "keeping (efi fw (FileClose c))" for c using assms(1) by (simp add: keeping_efi)
  have "holding [(buf, raw)] s'" using keepingD [OF q cl(2)] keepingD [OF q cl(1)] raw(2) by blast
  with raw(1) pos fr show ?thesis by auto
qed


subsection \<open>Loading the segments\<close>

text \<open>The pages of a segment: zeros around the bytes of the file.\<close>

definition segment_image :: "u8 list \<Rightarrow> elf_segment \<Rightarrow> u8 list" where
  "segment_image raw seg = patch (replicate (unat (seg_page_end seg - seg_page_base seg)) 0)
     (unat (seg_paddr seg - seg_page_base seg))
     (take (unat (seg_filesz seg)) (drop (unat (seg_offset seg)) raw))"

definition segment_block :: "u8 list \<Rightarrow> elf_segment \<Rightarrow> block" where
  "segment_block raw seg = (seg_page_base seg, segment_image raw seg)"

lemma segment_sizes:
  assumes "segment_wf fsz seg"
  shows "unat (seg_page_end seg - seg_page_base seg) = unat (seg_page_end seg) - unat (seg_page_base seg)"
    "unat (segment_pages seg) * 4096 = unat (seg_page_end seg - seg_page_base seg)"
    "0 < unat (seg_page_end seg - seg_page_base seg)"
    "unat (seg_paddr seg - seg_page_base seg) = unat (seg_paddr seg) - unat (seg_page_base seg)"
    "unat (seg_paddr seg - seg_page_base seg) + unat (seg_filesz seg) \<le>
       unat (seg_page_end seg - seg_page_base seg)"
proof -
  have w: "unat (seg_page_base seg) mod 4096 = 0" "unat (seg_page_end seg) mod 4096 = 0"
    "unat (seg_page_base seg) \<le> unat (seg_paddr seg)" "0 < unat (seg_memsz seg)"
    "unat (seg_filesz seg) \<le> unat (seg_memsz seg)"
    "unat (seg_paddr seg) + unat (seg_memsz seg) \<le> unat (seg_page_end seg)"
    using assms by (simp_all add: segment_wf_def)
  then have le: "seg_page_base seg \<le> seg_page_end seg" "seg_page_base seg \<le> seg_paddr seg"
    by (simp_all add: word_le_nat_alt)
  show a: "unat (seg_page_end seg - seg_page_base seg) = unat (seg_page_end seg) - unat (seg_page_base seg)"
    using le by (simp add: unat_sub)
  show b: "unat (seg_paddr seg - seg_page_base seg) = unat (seg_paddr seg) - unat (seg_page_base seg)"
    using le by (simp add: unat_sub)
  have "unat (seg_page_end seg - seg_page_base seg) mod 4096 = 0"
    using a w(1,2) by (metis mod_0_imp_dvd dvd_diff_nat mod_0_imp_dvd dvd_imp_mod_0)
  then show "unat (segment_pages seg) * 4096 = unat (seg_page_end seg - seg_page_base seg)"
    by (auto simp: segment_pages_def EFI_PAGE_SIZE_def unat_div_distrib)
  show "0 < unat (seg_page_end seg - seg_page_base seg)" using a w by simp
  show "unat (seg_paddr seg - seg_page_base seg) + unat (seg_filesz seg) \<le>
       unat (seg_page_end seg - seg_page_base seg)" using a b w by simp
qed

lemma load_segmentD:
  assumes "efi_contract fw" and wf: "segment_wf (length raw) seg"
    and "load_segments fw buf (seg # ss) s = (Inr (), s')" and "holding ((buf, raw) # K) s"
  shows "\<exists>s1. load_segments fw buf ss s1 = (Inr (), s') \<and> holding ((buf, raw) # segment_block raw seg # K) s1 \<and>
    (\<forall>f. file_read fw (ld_calls s) f \<longrightarrow> file_read fw (ld_calls s1) f)"
proof -
  note z = segment_sizes [OF wf]
  let ?n = "unat (seg_page_end seg - seg_page_base seg)" and ?b = "seg_page_base seg"
  let ?off = "unat (seg_paddr seg - seg_page_base seg)" and ?fsz = "unat (seg_filesz seg)"
  let ?data = "take ?fsz (drop (unat (seg_offset seg)) raw)"
  from assms(3) obtain msg r u v s1 s2 s3 where
    al: "or_die fw (AllocatePages AllocateAddress EfiLoaderData (segment_pages seg) ?b) msg s = (Inr r, s1)" and
    st: "poke (lmemset ?b 0 ?n) s1 = (Inr u, s2)" and
    cp: "poke (lmemcpy (seg_paddr seg) (buf + seg_offset seg) ?fsz) s2 = (Inr v, s3)" and
    rest: "load_segments fw buf ss s3 = (Inr (), s')"
    unfolding load_segments.simps by (elim andthenE) blast
  have cr: "call_range (AllocatePages AllocateAddress EfiLoaderData (segment_pages seg) ?b) r = Some (?b, ?n)"
    using z(2) by (simp add: call_range_def)
  obtain bs where bs: "length bs = ?n" "holding ((?b, bs) # (buf, raw) # K) s1"
    using allocationD [OF assms(1) al cr z(3) assms(4)] by blast
  have n64: "?n < 2 ^ 64" using unat_u64_less by blast
  have "holding ((?b, patch bs 0 (replicate ?n 0)) # (buf, raw) # K) s2"
    using st bs n64 by (intro pokeD_store [OF st bs(2)]) (simp_all add: lmemset_store)
  moreover have "patch bs 0 (replicate ?n 0) = replicate ?n 0" using bs(1) by (simp add: patch_def)
  ultimately have h2: "holding ((?b, replicate ?n 0) # (buf, raw) # K) s2" by simp
  then have h2': "holding ((buf, raw) # (?b, replicate ?n 0) # K) s2" by (simp add: holding_swap)
  have fsz: "unat (seg_offset seg) + ?fsz \<le> length raw" using wf by (simp add: segment_wf_def)
  have src: "ram_bytes (ld_mem s2) (buf + seg_offset seg) ?fsz = ?data"
    using ram_bytes_part [of "ld_mem s2" buf raw "unat (seg_offset seg)" ?fsz] holding_bytes [OF h2'] fsz by simp
  have dst: "seg_paddr seg = ?b + of_nat ?off" by simp
  have apart: "buf + seg_offset seg + of_nat i \<noteq> seg_paddr seg + of_nat j" if ij: "i < ?fsz" "j < ?fsz" for i j
  proof
    assume eq: "buf + seg_offset seg + of_nat i = seg_paddr seg + of_nat j"
    have r1: "region_ok buf (length raw)" and r2: "region_ok ?b ?n"
      using holding_bytes [OF h2'] holding_bytes [OF h2] by simp_all
    have "buf + seg_offset seg + of_nat i = buf + of_nat (unat (seg_offset seg) + i)" by simp
    then have u1: "unat (buf + seg_offset seg + of_nat i) = unat buf + (unat (seg_offset seg) + i)"
      using r1 fsz ij by (simp only:) (rule unat_add_of_nat, simp add: region_ok_def)
    have "seg_paddr seg + of_nat j = ?b + of_nat (?off + j)" by simp
    then have u2: "unat (seg_paddr seg + of_nat j) = unat ?b + (?off + j)"
      using r2 z(5) ij by (simp only:) (rule unat_add_of_nat, simp add: region_ok_def)
    have "clear_of (buf, length raw) (?b, ?n)"
      using h2' by (simp add: holding_def blocks_Cons apart_def extent_def)
    then show False using eq u1 u2 fsz z(5) ij by (auto simp: clear_of_def)
  qed
  have "lmemcpy (seg_paddr seg) (buf + seg_offset seg) ?fsz (ld_mem s2) = ram_store (ld_mem s2) (?b + of_nat ?off) ?data"
    using lmemcpy_store [OF _ apart] unat_u64_less [of "seg_filesz seg"] src dst by simp
  then have "holding ((?b, patch (replicate ?n 0) ?off ?data) # (buf, raw) # K) s3"
    using z(5) fsz by (intro pokeD_store [OF cp h2]) simp_all
  then have "holding ((buf, raw) # segment_block raw seg # K) s3"
    by (simp add: holding_swap segment_block_def segment_image_def)
  moreover have "file_read fw (ld_calls s3) f" if "file_read fw (ld_calls s) f" for f
    using that or_dieD [OF al] extends_calls pokeD [OF st] pokeD [OF cp] by fastforce
  ultimately show ?thesis using rest by blast
qed

lemma load_segmentsD:
  assumes "efi_contract fw" and "\<forall>seg\<in>set ss. segment_wf (length raw) seg"
    and "load_segments fw buf ss s = (Inr (), s')" and "holding ((buf, raw) # K) s"
  shows "holding ((buf, raw) # map (segment_block raw) (rev ss) @ K) s' \<and>
    (\<forall>f. file_read fw (ld_calls s) f \<longrightarrow> file_read fw (ld_calls s') f)"
  using assms(2-)
proof (induction ss arbitrary: s K)
  case Nil
  then show ?case by (auto dest: giveD)
next
  case (Cons seg ss)
  then obtain s1 where s1: "load_segments fw buf ss s1 = (Inr (), s')"
    "holding ((buf, raw) # segment_block raw seg # K) s1"
    "\<forall>f. file_read fw (ld_calls s) f \<longrightarrow> file_read fw (ld_calls s1) f"
    using load_segmentD [OF assms(1) _ Cons.prems(2,3)] by auto
  from Cons.IH [OF _ s1(1,2)] Cons.prems(1) s1(3) show ?case by simp
qed

subsection \<open>The boot information page\<close>

lemma field_at_patch_same:
  "off + length xs \<le> length bs \<Longrightarrow> field_at (patch bs off xs) off (length xs) = le_val xs"
  by (simp add: field_at_def patch_def)

lemma field_at_patch_other:
  assumes "off + length xs \<le> length bs" and "off' + n \<le> off \<or> off + length xs \<le> off'"
  shows "field_at (patch bs off xs) off' n = field_at bs off' n"
proof -
  have "take n (drop off' (patch bs off xs)) = take n (drop off' bs)"
    by (rule nth_equalityI) (use assms in \<open>auto simp: nth_patch\<close>)
  then show ?thesis by (simp add: field_at_def)
qed

lemma bi_fields_apart:
  "f \<noteq> g \<Longrightarrow> bi_offset f + bi_sizeof f \<le> bi_offset g \<or> bi_offset g + bi_sizeof g \<le> bi_offset f"
  by (cases f; cases g) (simp_all add: bi_offset_values bi_sizeof_values)

lemma bi_field_inside: "bi_offset f + bi_sizeof f \<le> SYPAS_BOOTINFO_V1_0_SIZE"
  by (cases f) (simp_all add: bi_offset_values bi_sizeof_values SYPAS_BOOTINFO_V1_0_SIZE_def)

text \<open>An assignment seen through the reader: the member takes the value, the others keep theirs.\<close>

lemma bi_value_patch:
  assumes "360 \<le> length bs"
  shows "bi_value (patch bs (bi_offset f) (le_bytes (bi_sizeof f) v)) g =
    (if g = f then v mod 256 ^ bi_sizeof f else bi_value bs g)"
proof -
  have len: "bi_offset f + length (le_bytes (bi_sizeof f) v) \<le> length bs"
    using bi_field_inside [of f] assms by (simp add: SYPAS_BOOTINFO_V1_0_SIZE_def)
  then show ?thesis
    using field_at_patch_same [OF len] field_at_patch_other [OF len, of "bi_offset g" "bi_sizeof g"]
      bi_fields_apart [of g f]
    by (auto simp: bi_value_def le_val_le_bytes)
qed

lemma drop_patch:
  assumes "off + length xs \<le> k" and "k \<le> length bs"
  shows "drop k (patch bs off xs) = drop k bs"
  by (rule nth_equalityI) (use assms in \<open>simp_all add: nth_patch\<close>)

lemma bi_load_after_store:
  assumes "region_ok bi 360"
  shows "ram_bytes (bi_store bi f v m) bi 360 = patch (ram_bytes m bi 360) (bi_offset f) (le_bytes (bi_sizeof f) v)"
  unfolding bi_store_def using bi_field_inside [of f]
  by (intro ram_bytes_store_inside [OF assms]) (simp add: SYPAS_BOOTINFO_V1_0_SIZE_def)

lemma of_nat_mod_width:
  "of_nat (v mod 65536) = (of_nat v :: u16)" "of_nat (v mod 4294967296) = (of_nat v :: u32)"
  "of_nat (v mod 18446744073709551616) = (of_nat v :: u64)"
  by (simp_all add: word_unat_eq_iff unat_of_nat)

text \<open>
  C21: the loader's assignments and the kernel's reads mean the same member, at the offset the header
  asserts.  For every member but the command line, in the order of the table: assigning a value to
  it in the loader writes its bytes, little endian, at the asserted offset from the structure and
  nowhere else, and what the kernel reads afterwards is the structure it would have read before with
  this one member replaced.  The command line is the 256 bytes from offset 104 to the end of the 360.
\<close>

theorem bootinfo_members_agree:
  assumes "region_ok bi 360"
  shows "SYPAS_BOOTINFO_V1_0_SIZE = 360 \<and>
    bi_cmdline (decode_bootinfo (ram_bytes m bi 360)) = ram_bytes m (bi + 104) 256 \<and>
    (\<forall>(f, off, n, assign) \<in> set
      [(BI_magic, 0, 8, \<lambda>b. b\<lparr>bi_magic := of_nat v\<rparr>),
       (BI_version_major, 8, 2, \<lambda>b. b\<lparr>bi_version_major := of_nat v\<rparr>),
       (BI_version_minor, 10, 2, \<lambda>b. b\<lparr>bi_version_minor := of_nat v\<rparr>),
       (BI_size, 12, 4, \<lambda>b. b\<lparr>bi_size := of_nat v\<rparr>),
       (BI_memmap, 16, 8, \<lambda>b. b\<lparr>bi_memmap := of_nat v\<rparr>),
       (BI_memmap_count, 24, 8, \<lambda>b. b\<lparr>bi_memmap_count := of_nat v\<rparr>),
       (BI_fb_base, 32, 8, \<lambda>b. b\<lparr>bi_fb_base := of_nat v\<rparr>),
       (BI_fb_width, 40, 4, \<lambda>b. b\<lparr>bi_fb_width := of_nat v\<rparr>),
       (BI_fb_height, 44, 4, \<lambda>b. b\<lparr>bi_fb_height := of_nat v\<rparr>),
       (BI_fb_pitch, 48, 4, \<lambda>b. b\<lparr>bi_fb_pitch := of_nat v\<rparr>),
       (BI_fb_format, 52, 4, \<lambda>b. b\<lparr>bi_fb_format := of_nat v\<rparr>),
       (BI_acpi_rsdp, 56, 8, \<lambda>b. b\<lparr>bi_acpi_rsdp := of_nat v\<rparr>),
       (BI_efi_system_table, 64, 8, \<lambda>b. b\<lparr>bi_efi_system_table := of_nat v\<rparr>),
       (BI_kernel_phys_base, 72, 8, \<lambda>b. b\<lparr>bi_kernel_phys_base := of_nat v\<rparr>),
       (BI_kernel_size, 80, 8, \<lambda>b. b\<lparr>bi_kernel_size := of_nat v\<rparr>),
       (BI_stack_base, 88, 8, \<lambda>b. b\<lparr>bi_stack_base := of_nat v\<rparr>),
       (BI_stack_size, 96, 8, \<lambda>b. b\<lparr>bi_stack_size := of_nat v\<rparr>)].
       bi_store bi f v m = ram_store m (bi + of_nat off) (le_bytes n v) \<and>
       decode_bootinfo (ram_bytes (bi_store bi f v m) bi 360) = assign (decode_bootinfo (ram_bytes m bi 360)))"
proof -
  let ?bs = "ram_bytes m bi 360"
  have len: "360 \<le> length ?bs" by simp
  have cmd: "drop 104 ?bs = ram_bytes m (bi + 104) 256"
    by (rule nth_equalityI) (simp_all add: ram_bytes_def algebra_simps)
  show ?thesis
    by (simp add: bi_load_after_store [OF assms] decode_bootinfo_def bi_value_patch [OF len]
        of_nat_mod_width bi_sizeof_values bi_offset_values(18))
      (simp add: bi_store_def bi_offset_values bi_sizeof_values SYPAS_BOOTINFO_V1_0_SIZE_def drop_patch cmd)
qed

theorem bootinfo_members_agree_witness:
  "bi_kernel_size (decode_bootinfo (ram_bytes (bi_store 0xA000 BI_kernel_size 0x21000 (\<lambda>_. 0x5A)) 0xA000 360)) =
     0x21000 \<and>
   bi_stack_base (decode_bootinfo (ram_bytes (bi_store 0xA000 BI_kernel_size 0x21000 (\<lambda>_. 0x5A)) 0xA000 360)) =
     0x5A5A5A5A5A5A5A5A \<and>
   ram_bytes (bi_store 0xA000 BI_kernel_size 0x21000 (\<lambda>_. 0x5A)) 0xA050 4 = [0, 0x10, 2, 0]"
proof -
  let ?m = "(\<lambda>_. 0x5A) :: ram"
  have r: "region_ok 0xA000 360" by (simp add: region_ok_def)
  have "take 8 (drop 88 (ram_bytes ?m 0xA000 360)) = replicate 8 0x5A"
    by (rule nth_equalityI) (simp_all add: ram_bytes_def)
  also have "replicate 8 0x5A = [0x5A, 0x5A, 0x5A, 0x5A, 0x5A, 0x5A, 0x5A, 0x5A :: u8]" by code_simp
  finally have fives: "take 8 (drop 88 (ram_bytes ?m 0xA000 360)) =
      [0x5A, 0x5A, 0x5A, 0x5A, 0x5A, 0x5A, 0x5A, 0x5A]" .
  note agree = bootinfo_members_agree [OF r, of ?m "0x21000", THEN conjunct2, THEN conjunct2]
  have "bi_store 0xA000 BI_kernel_size 0x21000 ?m = ram_store ?m (0xA000 + of_nat 80) (le_bytes 8 0x21000) \<and>
      decode_bootinfo (ram_bytes (bi_store 0xA000 BI_kernel_size 0x21000 ?m) 0xA000 360) =
      (\<lambda>b. b\<lparr>bi_kernel_size := of_nat 0x21000\<rparr>) (decode_bootinfo (ram_bytes ?m 0xA000 360))"
    by (rule bspec [OF agree, of "(BI_kernel_size, 80, 8, \<lambda>b. b\<lparr>bi_kernel_size := of_nat 0x21000\<rparr>)",
          unfolded prod.case]) simp
  note s = conjunct1 [OF this] conjunct2 [OF this]
  have "bi_stack_base (decode_bootinfo (ram_bytes ?m 0xA000 360)) = 0x5A5A5A5A5A5A5A5A"
    by (simp add: decode_bootinfo_def bi_value_def bi_offset_values bi_sizeof_values field_at_def fives)
  moreover have eight: "(8::nat) = Suc (Suc (Suc (Suc (Suc (Suc (Suc (Suc 0)))))))" by simp
  have "le_bytes 8 0x21000 = [0, 0x10, 2, 0, 0, 0, 0, 0]"
    unfolding eight le_bytes.simps by simp
  then have "ram_bytes (bi_store 0xA000 BI_kernel_size 0x21000 ?m) 0xA050 4 = [0, 0x10, 2, 0]"
    by (simp add: s(1) ram_bytes_def ram_store_def upt_conv_Cons)
  ultimately show ?thesis unfolding s(2) by simp
qed

text \<open>What is known of the members: \<open>env f = Some v\<close> if member \<open>f\<close> is known to hold \<open>v\<close>.\<close>

definition bi_env :: "u8 list \<Rightarrow> (bi_field \<rightharpoonup> nat) \<Rightarrow> bool" where
  "bi_env bs env \<longleftrightarrow> (\<forall>f v. env f = Some v \<longrightarrow> bi_value bs f = v)"

definition bi_holding :: "u64 \<Rightarrow> (bi_field \<rightharpoonup> nat) \<Rightarrow> block list \<Rightarrow> loader \<Rightarrow> bool" where
  "bi_holding bi env H s \<longleftrightarrow> (\<exists>bs. length bs = 4096 \<and> holding ((bi, bs) # H) s \<and> bi_env bs env)"

lemma bi_env_store:
  assumes "bi_env bs env" and "length bs = 4096"
  shows "bi_env (patch bs (bi_offset f) (le_bytes (bi_sizeof f) v)) (env(f \<mapsto> v mod 256 ^ bi_sizeof f))"
  using assms by (simp add: bi_env_def bi_value_patch)

lemma bi_storeD:
  assumes "poke (\<lambda>m. bi_store bi f (g m) m) s = (Inr u, s')" and "bi_holding bi env H s"
  shows "bi_holding bi (env(f \<mapsto> g (ld_mem s) mod 256 ^ bi_sizeof f)) H s'"
proof -
  obtain bs where bs: "length bs = 4096" "holding ((bi, bs) # H) s" "bi_env bs env"
    using assms(2) by (auto simp: bi_holding_def)
  have len: "bi_offset f + length (le_bytes (bi_sizeof f) (g (ld_mem s))) \<le> length bs"
    using bi_field_inside [of f] bs(1) by (simp add: SYPAS_BOOTINFO_V1_0_SIZE_def)
  have "holding ((bi, patch bs (bi_offset f) (le_bytes (bi_sizeof f) (g (ld_mem s)))) # H) s'"
    by (rule pokeD_store [OF assms(1) bs(2) _ len]) (simp add: bi_store_def)
  then show ?thesis using bi_env_store [OF bs(3,1)] len unfolding bi_holding_def
    by (intro exI conjI) (simp_all add: bs(1))
qed

text \<open>Partial correctness of a piece; the pieces after a stop do not matter.\<close>

definition ensures :: "(loader \<Rightarrow> bool) \<Rightarrow> 'a boot \<Rightarrow> ('a \<Rightarrow> loader \<Rightarrow> bool) \<Rightarrow> bool" where
  "ensures P m Q \<longleftrightarrow> (\<forall>s x s'. m s = (Inr x, s') \<longrightarrow> P s \<longrightarrow> Q x s')"

lemma ensuresD: "ensures P m Q \<Longrightarrow> m s = (Inr x, s') \<Longrightarrow> P s \<Longrightarrow> Q x s'"
  unfolding ensures_def by blast

lemma ensures_andthen:
  "ensures P m R \<Longrightarrow> (\<And>x. ensures (R x) (k x) Q) \<Longrightarrow> ensures P (andthen m k) Q"
  unfolding ensures_def by (blast elim: andthenE)

lemma ensures_andthen_inv:
  "ensures P m (\<lambda>_. P) \<Longrightarrow> (\<And>x. ensures P (k x) (\<lambda>_. Q)) \<Longrightarrow> ensures P (andthen m k) (\<lambda>_. Q)"
  by (rule ensures_andthen)

lemma ensures_if: "ensures P x Q \<Longrightarrow> ensures P y Q \<Longrightarrow> ensures P (if b then x else y) Q"
  by simp

lemma ensures_post: "ensures P m Q \<Longrightarrow> (\<And>x s. Q x s \<Longrightarrow> Q' x s) \<Longrightarrow> ensures P m Q'"
  unfolding ensures_def by blast

lemma ensures_pre: "(\<And>s. P s \<Longrightarrow> P' s) \<Longrightarrow> ensures P' m Q \<Longrightarrow> ensures P m Q"
  unfolding ensures_def by blast

lemma ensures_bi_set:
  "ensures (bi_holding bi env H) (poke (bi_store bi f v))
     (\<lambda>_. bi_holding bi (env(f \<mapsto> v mod 256 ^ bi_sizeof f)) H)"
  unfolding ensures_def using bi_storeD [where g = "\<lambda>_. v"] by blast

lemma bi_holding_weaken: "bi_holding bi env H s \<Longrightarrow> env' \<subseteq>\<^sub>m env \<Longrightarrow> bi_holding bi env' H s"
  unfolding bi_holding_def bi_env_def map_le_def by (metis domI)

lemma ensures_bi_some:
  "ensures (bi_holding bi env H) (poke (\<lambda>m. bi_store bi f (g m) m))
     (\<lambda>_. bi_holding bi (env(f := None)) H)"
  unfolding ensures_def
proof (intro allI impI)
  fix s u s' assume "poke (\<lambda>m. bi_store bi f (g m) m) s = (Inr u, s')" "bi_holding bi env H s"
  from bi_storeD [OF this] show "bi_holding bi (env(f := None)) H s'"
    by (rule bi_holding_weaken) (auto simp: map_le_def)
qed

lemma ensures_bi_quiet: "keeping m \<Longrightarrow> ensures (bi_holding bi env H) m (\<lambda>_. bi_holding bi env H)"
  unfolding ensures_def bi_holding_def by (blast dest: keepingD)

lemma ensures_bi_clear:
  assumes "0 < n" and "n = 4096"
  shows "ensures (\<lambda>s. \<exists>bs. length bs = n \<and> holding ((bi, bs) # H) s)
    (poke (lmemset bi 0 SYPAS_BOOTINFO_V1_0_SIZE)) (\<lambda>_. bi_holding bi (\<lambda>_. Some 0) H)"
  unfolding ensures_def
proof (intro allI impI)
  fix s u s' assume p: "poke (lmemset bi 0 SYPAS_BOOTINFO_V1_0_SIZE) s = (Inr u, s')"
  assume "\<exists>bs. length bs = n \<and> holding ((bi, bs) # H) s"
  then obtain bs where bs: "length bs = 4096" "holding ((bi, bs) # H) s" using assms by blast
  let ?z = "replicate SYPAS_BOOTINFO_V1_0_SIZE 0"
  have len: "0 + length ?z \<le> length bs" using bs(1) by (simp add: SYPAS_BOOTINFO_V1_0_SIZE_def)
  have h: "holding ((bi, patch bs 0 ?z) # H) s'"
    by (rule pokeD_store [OF p bs(2) _ len]) (simp add: lmemset_store SYPAS_BOOTINFO_V1_0_SIZE_def)
  have zero: "le_val (replicate k 0) = 0" for k by (induction k) simp_all
  have "bi_value (patch bs 0 ?z) f = 0" for f
  proof -
    have "take (bi_sizeof f) (drop (bi_offset f) (patch bs 0 ?z)) = replicate (bi_sizeof f) 0"
      by (rule nth_equalityI) (use bi_field_inside [of f] len in \<open>auto simp: nth_patch\<close>)
    then show ?thesis by (simp add: bi_value_def field_at_def zero)
  qed
  with h len bs(1) show "bi_holding bi (\<lambda>_. Some 0) H s'"
    unfolding bi_holding_def by (intro exI [of _ "patch bs 0 ?z"]) (simp add: bi_env_def)
qed


text \<open>The members the loader sets before the memory map is known.\<close>

definition header_env :: "u64 \<Rightarrow> elf_load_plan \<Rightarrow> u64 \<Rightarrow> bi_field \<rightharpoonup> nat" where
  "header_env systab plan stack =
     [BI_magic \<mapsto> unat SYPAS_BOOT_MAGIC, BI_version_major \<mapsto> unat SYPAS_BOOT_VERSION_MAJOR,
      BI_version_minor \<mapsto> unat SYPAS_BOOT_VERSION_MINOR, BI_size \<mapsto> SYPAS_BOOTINFO_V1_0_SIZE,
      BI_kernel_phys_base \<mapsto> unat (phys_base plan),
      BI_kernel_size \<mapsto> unat (phys_end plan - phys_base plan),
      BI_stack_base \<mapsto> unat stack, BI_stack_size \<mapsto> unat (16 * EFI_PAGE_SIZE),
      BI_efi_system_table \<mapsto> unat systab, BI_cmdline \<mapsto> 0]"

lemma fill_bootinfo_ensures:
  assumes "efi_contract fw"
  shows "ensures (\<lambda>s. \<exists>bs. length bs = 4096 \<and> holding ((bi, bs) # H) s)
    (fill_bootinfo fw systab bi plan stack) (\<lambda>_. bi_holding bi (header_env systab plan stack) H)"
proof -
  have fb: "ensures (bi_holding bi (header_env systab plan stack) H) (fill_framebuffer fw bi)
      (\<lambda>_. bi_holding bi (header_env systab plan stack) H)"
  proof -
    have keep: "ensures (bi_holding bi (header_env systab plan stack) H) (poke (\<lambda>m. bi_store bi f (g m) m))
        (\<lambda>_. bi_holding bi (header_env systab plan stack) H)"
      if "header_env systab plan stack f = None" for f and g :: "ram \<Rightarrow> nat"
    proof (rule ensures_post [OF ensures_bi_some])
      fix s assume "bi_holding bi ((header_env systab plan stack)(f := None)) H s"
      then show "bi_holding bi (header_env systab plan stack) H s"
        using that by (simp add: fun_upd_idem)
    qed
    have none: "header_env systab plan stack f = None"
      if "f \<in> {BI_fb_format, BI_fb_base, BI_fb_width, BI_fb_height, BI_fb_pitch}" for f
      using that by (auto simp: header_env_def)
    show ?thesis unfolding fill_framebuffer_def
      by (intro ensures_andthen_inv ensures_if keep ensures_bi_quiet keeping_rule assms)
        (simp_all add: none)
  qed
  show ?thesis unfolding fill_bootinfo_def
    by (rule ensures_andthen, rule ensures_bi_clear, simp, simp, (rule ensures_andthen, rule ensures_bi_set)+,
        rule ensures_andthen, rule ensures_bi_some, rule ensures_pre [OF bi_holding_weaken fb], assumption)
      (auto simp: map_le_def header_env_def bi_sizeof_values unat_mod_self SYPAS_BOOTINFO_V1_0_SIZE_def
        SYPAS_BOOT_MAGIC_def SYPAS_BOOT_VERSION_MAJOR_def SYPAS_BOOT_VERSION_MINOR_def EFI_PAGE_SIZE_def)
qed

end
