(* ===== verification/Handoff.thy ===== *)
theory Handoff
  imports Staging
begin

text \<open>
  The memory map on its way to the kernel: the sizing of its buffers (\<open>map_buffer_capacity\<close>: any map
  that fits the buffer can be translated without running out of room), the translated entries in
  memory, and the \<^verbatim>\<open>ExitBootServices\<close> loop, which leaves the translation of the map whose key the
  successful call used.
\<close>

subsection \<open>Sizing the memory-map buffers\<close>

lemma pages_for_size_SomeD:
  assumes "pages_for_size n = Some p"
  shows "unat n \<le> unat p * 4096" and "unat p = (unat n + 4095) div 4096" and "unat p * 4096 < unat n + 4096"
proof -
  from assms obtain rd where "add_ok n 4095 = Some rd" and p: "p = rd div 4096"
    by (auto simp: pages_for_size_def EFI_PAGE_SIZE_def)
  then have "unat rd = unat n + 4095" by (simp add: add_ok_Some_iff)
  with p show p': "unat p = (unat n + 4095) div 4096" by (simp add: unat_div_distrib)
  show "unat n \<le> unat p * 4096" unfolding p' by linarith
  show "unat p * 4096 < unat n + 4096" unfolding p' by linarith
qed

lemma map_buffer_sizesD:
  assumes "map_buffer_sizes mmsize dsz = Some z"
  shows "unat (ms_map_bytes z) = unat (ms_mm_pages z) * 4096"
    and "unat (ms_total_pages z) = unat (ms_mm_pages z) + unat (ms_sypas_pages z)"
    and "unat (ms_sypas_cap z) * 24 \<le> unat (ms_sypas_pages z) * 4096"
    and "unat (ms_map_bytes z) < unat mmsize + 32 * unat dsz + 4096"
    and "unat mmsize + 32 * unat dsz \<le> unat (ms_map_bytes z)"
    and "unat (ms_sypas_cap z) = (unat mmsize + 32 * unat dsz + (unat dsz - 1)) div unat dsz * 33 + 16"
    and "0 < unat dsz"
proof -
  from assms obtain slack requested rounded entries sypas_bytes where
    d0: "dsz \<noteq> 0" and a: "mul_ok MAP_SLACK_DESCRIPTORS dsz = Some slack" "add_ok mmsize slack = Some requested"
    "pages_for_size requested = Some (ms_mm_pages z)" "mul_ok (ms_mm_pages z) EFI_PAGE_SIZE = Some (ms_map_bytes z)"
    "add_ok requested (dsz - 1) = Some rounded"
    "mul_ok (rounded div dsz) MAP_ENTRIES_PER_DESCRIPTOR = Some entries"
    "add_ok entries 16 = Some (ms_sypas_cap z)" "mul_ok (ms_sypas_cap z) (of_nat sizeof_entry) = Some sypas_bytes"
    "pages_for_size sypas_bytes = Some (ms_sypas_pages z)"
    "add_ok (ms_mm_pages z) (ms_sypas_pages z) = Some (ms_total_pages z)"
    by (auto simp: map_buffer_sizes_def split: if_splits option.splits)
  have dpos: "0 < unat dsz" using d0 by (simp add: unat_gt_0)
  then have d1: "unat (dsz - 1) = unat dsz - 1" using d0 by (simp add: unat_minus_one)
  have rq: "unat requested = unat mmsize + 32 * unat dsz"
    using a(1,2) by (simp add: mul_ok_Some_iff add_ok_Some_iff MAP_SLACK_DESCRIPTORS_def)
  show mb: "unat (ms_map_bytes z) = unat (ms_mm_pages z) * 4096"
    using a(4) by (simp add: mul_ok_Some_iff EFI_PAGE_SIZE_def)
  show "unat (ms_total_pages z) = unat (ms_mm_pages z) + unat (ms_sypas_pages z)"
    using a(10) by (simp add: add_ok_Some_iff)
  have "unat sypas_bytes = unat (ms_sypas_cap z) * 24"
    using a(8) by (simp add: mul_ok_Some_iff sizeof_entry_def)
  then show "unat (ms_sypas_cap z) * 24 \<le> unat (ms_sypas_pages z) * 4096"
    using pages_for_size_SomeD(1) [OF a(9)] by simp
  show "unat (ms_map_bytes z) < unat mmsize + 32 * unat dsz + 4096"
    "unat mmsize + 32 * unat dsz \<le> unat (ms_map_bytes z)"
    using pages_for_size_SomeD(1,3) [OF a(3)] mb rq by simp_all
  have "unat rounded = unat mmsize + 32 * unat dsz + (unat dsz - 1)"
    using a(5) rq d1 by (simp add: add_ok_Some_iff)
  then have "unat entries = (unat mmsize + 32 * unat dsz + (unat dsz - 1)) div unat dsz * 33"
    using a(6) by (simp add: mul_ok_Some_iff MAP_ENTRIES_PER_DESCRIPTOR_def ELF_MAX_SEGMENTS_def unat_div_distrib)
  then show "unat (ms_sypas_cap z) = (unat mmsize + 32 * unat dsz + (unat dsz - 1)) div unat dsz * 33 + 16"
    using a(7) by (simp add: add_ok_Some_iff)
  show "0 < unat dsz" by (rule dpos)
qed

text \<open>Any map that fits the buffer, with the stride it was sized for, leaves room for every split.\<close>

lemma map_buffer_capacity:
  assumes "map_buffer_sizes mmsize dsz = Some z" and "40 \<le> unat dsz" and "unat sz \<le> unat (ms_map_bytes z)"
  shows "unat sz div unat dsz + 2 * 16 \<le> unat (ms_sypas_cap z)"
proof -
  note D = map_buffer_sizesD [OF assms(1)]
  let ?d = "unat dsz" and ?q = "unat mmsize + 32 * unat dsz"
  have "unat sz div ?d \<le> (?q + 4096) div ?d"
    using assms(3) D(4) by (intro div_le_mono) linarith
  also have "\<dots> \<le> (?q + 103 * ?d) div ?d" using assms(2) by (intro div_le_mono) linarith
  also have "\<dots> = ?q div ?d + 103" using D(7) by (simp only: div_mult_self1 mult.commute) simp
  finally have n: "unat sz div ?d \<le> ?q div ?d + 103" .
  have q32: "32 \<le> ?q div ?d" using D(7) by (simp add: div_mult_self1)
  have "?q div ?d \<le> (?q + (?d - 1)) div ?d" by (intro div_le_mono) simp
  with n q32 show ?thesis unfolding D(6) by linarith
qed

lemma size_buffersD:
  assumes "efi_contract fw" and "size_buffers fw left mmsize dsz s = (Inr (buf, z), s')" and "holding H s"
  shows "\<exists>bs mm ds. map_buffer_sizes mm ds = Some z \<and> length bs = unat (ms_total_pages z) * 4096 \<and>
    holding ((buf, bs) # H) s'"
  using assms(2,3)
proof (induction left arbitrary: mmsize dsz s)
  case 0
  then show ?case by simp
next
  case (Suc left)
  then obtain z1 where z1: "map_buffer_sizes mmsize dsz = Some z1"
    by (auto split: option.splits)
  note D = map_buffer_sizesD [OF z1]
  from Suc.prems(1) z1 obtain r r2 s1 s2 where
    al: "or_die fw (AllocatePages AllocateAnyPages EfiLoaderData (ms_total_pages z1) 0)
      (wide ''memory map alloc failed'') s = (Inr r, s1)" and
    gm: "efi fw (GetMemoryMap (ms_map_bytes z1) (rp_out r)) s1 = (Inr r2, s2)" and
    rest: "(if \<not> EFI_ERROR (rp_status r2) \<and> rp_dsz r2 = dsz then give (rp_out r, z1)
        else if EFI_ERROR (rp_status r2) \<and> rp_status r2 \<noteq> EFI_BUFFER_TOO_SMALL
        then die fw (wide ''GetMemoryMap failed'') (rp_status r2)
        else andthen (efi fw (FreePages (rp_out r) (ms_total_pages z1))) (\<lambda>_.
          size_buffers fw left (rp_size r2) (rp_dsz r2))) s2 = (Inr (buf, z), s')"
    by simp (elim andthenE, blast)
  have cr: "call_range (AllocatePages AllocateAnyPages EfiLoaderData (ms_total_pages z1) 0) r =
      Some (rp_out r, unat (ms_total_pages z1) * 4096)" by (simp add: call_range_def)
  have pos: "0 < unat (ms_total_pages z1) * 4096" using D(1,2,5,7) by linarith
  obtain bs where bs: "length bs = unat (ms_total_pages z1) * 4096" "holding ((rp_out r, bs) # H) s1"
    using allocationD [OF assms(1) al cr pos Suc.prems(2)] by blast
  have le: "unat (ms_map_bytes z1) \<le> length bs" using bs(1) D(1,2) by simp
  obtain bs' where bs': "length bs' = length bs" "holding ((rp_out r, bs') # H) s2"
    using fillD [OF assms(1) gm _ _ le bs(2)] by (auto simp: freed_base_def call_buffer_def)
  show ?case
  proof (cases "\<not> EFI_ERROR (rp_status r2) \<and> rp_dsz r2 = dsz")
    case True
    with rest have "buf = rp_out r" "z = z1" "s' = s2" by (auto dest!: giveD)
    with z1 bs(1) bs' show ?thesis by auto
  next
    case False
    with rest obtain f s3 where "efi fw (FreePages (rp_out r) (ms_total_pages z1)) s2 = (Inr f, s3)"
      and again: "size_buffers fw left (rp_size r2) (rp_dsz r2) s3 = (Inr (buf, z), s')"
      by (auto split: if_splits elim!: andthenE)
    from freeD [OF assms(1) this(1) _ bs'(2)] have "holding H s3" by (simp add: freed_base_def)
    from Suc.IH [OF again this] show ?thesis .
  qed
qed

subsection \<open>The translated map in memory\<close>

lemma sort_descriptors_length:
  assumes "length bs = n * ds" and "40 \<le> ds" and "ds \<le> MAX_EFI_DESCRIPTOR_SIZE"
    and "sort_descriptors bs n ds = Some sorted_bs"
  shows "length sorted_bs = length bs"
proof -
  let ?cs = "chunks bs ds"
  have "concat ?cs = bs" "length ?cs = n" using assms(1,2) by (simp_all add: concat_chunks)
  then have "sorted_bs = concat (sort_key chunk_key ?cs)"
    using sort_descriptors_chunks [OF chunked_chunks [of ds bs]] assms(2-4) by simp
  moreover have "chunked ds (sort_key chunk_key ?cs)" using chunked_chunks [of ds bs] by (simp add: chunked_def)
  ultimately show ?thesis using assms(1) \<open>length ?cs = n\<close> by (simp add: length_concat_chunked)
qed

lemma append_entry_within:
  assumes "append_entry out cap base e ty = Inr out'" and "length out \<le> unat cap"
  shows "length out' \<le> unat cap"
proof -
  have "length out < unat cap" if "of_nat (length out) \<noteq> cap"
    using that assms(2) by (cases "length out = unat cap") auto
  then show ?thesis using assms
    by (auto simp: append_entry_def Let_def split: if_splits option.splits)
qed

lemma tag_ranges_within:
  assumes "tag_ranges ss cap type e c out t = Some (Inr (out', t', c'))" and "length out \<le> unat cap"
  shows "length out' \<le> unat cap"
proof -
  define post where "post = (\<lambda>(cap :: u64) r. case r of Inl (_ :: sypas_map_status) \<Rightarrow> True
    | Inr (out' :: sypas_memmap_entry list, t' :: u64, c' :: u64) \<Rightarrow> length out' \<le> unat cap)"
  have "length out \<le> unat cap \<longrightarrow> post cap (Inr (out', t', c'))"
  proof (rule tag_ranges.raw_induct [OF _ assms(1)], intro impI)
    fix f ss cap type e c out t r
    assume IH: "\<And>ss cap type e c out t r. f ss cap type e c out t = Some r \<Longrightarrow>
        length out \<le> unat cap \<longrightarrow> post cap r"
      and body: "(case next_kernel_segment ss c e of
        None \<Rightarrow> Some (Inr (out, t, c))
      | Some s \<Rightarrow>
        let lo = (if seg_page_base s > c then seg_page_base s else c);
            hi = (if seg_page_end s < e then seg_page_end s else e)
        in case append_entry out cap c lo type of
             Inl err \<Rightarrow> Some (Inl err)
           | Inr out1 \<Rightarrow>
             (case append_entry out1 cap lo hi SYPAS_MEM_KERNEL of
                Inl err \<Rightarrow> Some (Inl err)
              | Inr out2 \<Rightarrow>
                (case add_ok t (hi - lo) of
                   None \<Rightarrow> Some (Inl SYPAS_MAP_ERR_OUTPUT_OVERFLOW)
                 | Some t' \<Rightarrow> f ss cap type e hi out2 t'))) = Some r"
      and pre: "length out \<le> unat cap"
    show "post cap r"
    proof (cases "next_kernel_segment ss c e")
      case None
      with body pre show ?thesis by (auto simp: post_def)
    next
      case (Some s)
      show ?thesis
      proof (cases r)
        case (Inr q)
        with body Some obtain b lo hi out1 out2 t1 where "append_entry out cap b lo type = Inr out1"
          "append_entry out1 cap lo hi SYPAS_MEM_KERNEL = Inr out2" "f ss cap type e hi out2 t1 = Some r"
          by (auto simp: Let_def split: sum.splits option.splits)
        with pre IH show ?thesis using append_entry_within by metis
      qed (simp add: post_def)
    qed
  qed
  with assms(2) show ?thesis by (simp add: post_def)
qed

lemma translate_descriptor_within:
  assumes "translate_descriptor efi_map ds k d ss cap prev tagged out = Some (Inr (out', tagged', e))"
    and "length out \<le> unat cap"
  shows "length out' \<le> unat cap"
  using assms unfolding translate_descriptor_def Let_def
  by (simp split: if_split_asm option.split_asm sum.split_asm prod.split_asm)
    (metis append_entry_within tag_ranges_within)+

lemma translate_loop_within:
  "translate_loop efi_map bs ds ss cap k n prev tagged out = Some (Inr (out', tagged')) \<Longrightarrow>
   length out \<le> unat cap \<Longrightarrow> length out' \<le> unat cap"
proof (induction n arbitrary: k prev tagged out)
  case (Suc n)
  from Suc.prems(1) obtain d out1 tagged1 e where
    "translate_descriptor efi_map ds k d ss cap prev tagged out = Some (Inr (out1, tagged1, e))"
    "translate_loop efi_map bs ds ss cap (Suc k) n e tagged1 out1 = Some (Inr (out', tagged'))"
    by (auto split: option.splits sum.splits)
  with Suc show ?case using translate_descriptor_within by blast
qed simp

lemma translate_within:
  assumes "sypas_translate_memory_map efi_map bs sz dsz plan cap = Some (Inr out)"
  shows "length out \<le> unat cap"
proof -
  from assms obtain sbs tagged where "translate_loop efi_map sbs (unat dsz) (segs plan) cap 0
      (unat sz div unat dsz) 0 0 [] = Some (Inr (out, tagged))"
    by (auto simp: sypas_translate_memory_map_def Let_def split: if_splits option.splits sum.splits)
  from translate_loop_within [OF this] show ?thesis by simp
qed

lemma translate_strides:
  assumes "sypas_translate_memory_map efi_map bs sz dsz plan cap = Some (Inr out)"
  shows "40 \<le> unat dsz" "unat dsz \<le> MAX_EFI_DESCRIPTOR_SIZE" "unat sz mod unat dsz = 0"
  using assms
  by (auto simp: sypas_translate_memory_map_def sizeof_descriptor_def word_unat_eq_iff
      unat_mod_distrib split: if_splits)

lemma chunked_entries: "chunked sizeof_entry (map encode_entry out)"
  by (simp add: chunked_def encode_entry_def sizeof_entry_def)

lemma length_encoded: "length (concat (map encode_entry out)) = length out * sizeof_entry"
  using length_concat_chunked [OF chunked_entries] by simp

lemma map_entries_encoded:
  assumes "ram_bytes m a (length out * sizeof_entry) = concat (map encode_entry out)"
  shows "map_entries m a (length out) = out"
proof (rule nth_equalityI)
  fix i assume "i < length (map_entries m a (length out))"
  then have i: "i < length out" by (simp add: map_entries_def)
  have "Suc i * sizeof_entry \<le> length out * sizeof_entry" by (rule mult_le_mono1) (use i in simp)
  then have le: "i * sizeof_entry + sizeof_entry \<le> length (concat (map encode_entry out))"
    by (simp only: length_encoded) simp
  have "ram_bytes m a (length (concat (map encode_entry out))) = concat (map encode_entry out)"
    by (simp only: length_encoded assms)
  from ram_bytes_part [OF this le]
  have "ram_bytes m (a + of_nat (i * sizeof_entry)) sizeof_entry = encode_entry (out ! i)"
    using chunk_at [OF chunked_entries, of i out] i by simp
  with i show "map_entries m a (length out) ! i = out ! i"
    by (simp add: map_entries_def map_entry_def decode_encode_entry)
qed (simp add: map_entries_def)

text \<open>Storing both results inside the map block.\<close>

lemma put_mapD:
  assumes "poke (put_map mm sorted_bs (mm + of_nat off) out) s = (Inr u, s')"
    and "holding ((mm, mbs) # H) s" and "length sorted_bs \<le> off"
    and "off + length out * sizeof_entry \<le> length mbs"
  shows "\<exists>mbs'. length mbs' = length mbs \<and> holding ((mm, mbs') # H) s' \<and>
    take (length out * sizeof_entry) (drop off mbs') = concat (map encode_entry out)"
proof -
  let ?es = "concat (map encode_entry out)" and ?mbs1 = "patch mbs 0 sorted_bs"
  have l1: "0 + length sorted_bs \<le> length mbs" using assms(3,4) by simp
  have "blocks (ld_calls s) (ram_store (ld_mem s) (mm + of_nat 0) sorted_bs) ((mm, ?mbs1) # H)"
    using store_in_block [OF _ l1] assms(2) by (simp only: holding_def)
  moreover have l2: "off + length ?es \<le> length ?mbs1"
    using assms(4) l1 by (simp add: length_encoded del: length_concat)
  ultimately have "blocks (ld_calls s) (ram_store (ram_store (ld_mem s) (mm + of_nat 0) sorted_bs) (mm + of_nat off) ?es)
      ((mm, patch ?mbs1 off ?es) # H)"
    by (rule store_in_block)
  then have "holding ((mm, patch ?mbs1 off ?es) # H) s'"
    using pokeD [OF assms(1)] by (simp add: holding_def put_map_def)
  moreover have "take (length out * sizeof_entry) (drop off (patch ?mbs1 off ?es)) = ?es"
    using l2 length_encoded [of out] by (simp add: patch_def del: length_concat)
  ultimately show ?thesis using l2 l1 by (intro exI [of _ "patch ?mbs1 off ?es"]) simp
qed

subsection \<open>The exit loop\<close>

text \<open>
  The last two calls of the run: the map the kernel gets is the translation of what the firmware
  put into the buffer, and the exit that followed succeeded.
\<close>

definition exited_with :: "firmware \<Rightarrow> exit_args \<Rightarrow> call_record \<Rightarrow> sypas_memmap_entry list \<Rightarrow> bool" where
  "exited_with fw a calls out \<longleftrightarrow> (\<exists>tr r x m m1.
     calls = tr @ [(GetMemoryMap (xa_map_bytes a) (xa_efimap a), r), (ExitBootServices (xa_img a) (rp_key r), x)] \<and>
     \<not> EFI_ERROR (rp_status x) \<and>
     fw tr m (GetMemoryMap (xa_map_bytes a) (xa_efimap a)) = (r, m1) \<and> \<not> EFI_ERROR (rp_status r) \<and>
     sypas_translate_memory_map (xa_efimap a) (ram_bytes m1 (xa_efimap a) (unat (rp_size r))) (rp_size r)
       (rp_dsz r) (xa_plan a) (xa_cap a) = Some (Inr out))"

definition map_ready :: "exit_args \<Rightarrow> (bi_field \<rightharpoonup> nat) \<Rightarrow> block list \<Rightarrow> nat \<Rightarrow> sypas_memmap_entry list \<Rightarrow>
    loader \<Rightarrow> bool" where
  "map_ready a env H n out s \<longleftrightarrow> (\<exists>mbs. length mbs = n \<and>
     bi_holding (xa_bi a) (env(BI_memmap \<mapsto> unat (xa_smap a), BI_memmap_count \<mapsto> length out))
       ((xa_efimap a, mbs) # H) s \<and>
     take (length out * sizeof_entry) (drop (unat (xa_map_bytes a)) mbs) = concat (map encode_entry out))"

lemma bi_holding_second:
  assumes "\<And>bs. holding ((c, mbs) # (bi, bs) # H) s \<Longrightarrow> \<exists>mbs'. P mbs' \<and> holding ((c, mbs') # (bi, bs) # H) s'"
    and "bi_holding bi env ((c, mbs) # H) s"
  shows "\<exists>mbs'. P mbs' \<and> bi_holding bi env ((c, mbs') # H) s'"
proof -
  obtain bs where bs: "length bs = 4096" "holding ((bi, bs) # (c, mbs) # H) s" "bi_env bs env"
    using assms(2) by (auto simp: bi_holding_def)
  then obtain mbs' where "P mbs'" "holding ((c, mbs') # (bi, bs) # H) s'"
    using assms(1) by (auto simp: holding_swap)
  then show ?thesis using bs by (auto simp: bi_holding_def holding_swap)
qed

text \<open>The steps of a turn that gets as far as the exit call.\<close>

definition exit_rest :: "firmware \<Rightarrow> exit_args \<Rightarrow> nat \<Rightarrow> efi_reply \<Rightarrow> unit boot" where
  "exit_rest fw a left x = (if \<not> EFI_ERROR (rp_status x) then give ()
     else (case left of 0 \<Rightarrow> halt_after_exit_boot_services | Suc left' \<Rightarrow> exit_loop fw a left'))"

lemma exit_loop_steps:
  assumes run: "exit_loop fw a left s = (Inr (), s')"
  obtains r s1 out sorted_bs u1 u2 u3 x s3 s4 s5 s2 where
    "efi fw (GetMemoryMap (xa_map_bytes a) (xa_efimap a)) s = (Inr r, s1)" "\<not> EFI_ERROR (rp_status r)"
    "sypas_translate_memory_map (xa_efimap a) (ram_bytes (ld_mem s1) (xa_efimap a) (unat (rp_size r))) (rp_size r)
       (rp_dsz r) (xa_plan a) (xa_cap a) = Some (Inr out)"
    "sort_descriptors (ram_bytes (ld_mem s1) (xa_efimap a) (unat (rp_size r)))
       (unat (rp_size r) div unat (rp_dsz r)) (unat (rp_dsz r)) = Some sorted_bs"
    "poke (put_map (xa_efimap a) sorted_bs (xa_smap a) out) s1 = (Inr u1, s3)"
    "poke (bi_store (xa_bi a) BI_memmap (unat (xa_smap a))) s3 = (Inr u2, s4)"
    "poke (bi_store (xa_bi a) BI_memmap_count (length out)) s4 = (Inr u3, s5)"
    "efi fw (ExitBootServices (xa_img a) (rp_key r)) s5 = (Inr x, s2)" "exit_rest fw a left x s2 = (Inr (), s')"
proof -
  note rest = exit_rest_def [symmetric]
  note r0 = run [unfolded exit_loop.simps [of fw a left] rest]
  from r0 obtain r s1 where g: "efi fw (GetMemoryMap (xa_map_bytes a) (xa_efimap a)) s = (Inr r, s1)"
    and r1: "(if EFI_ERROR (rp_status r)
        then (if left = 3 then die fw (wide ''GetMemoryMap failed'') (rp_status r)
              else halt_after_exit_boot_services)
        else andthen (peek (\<lambda>m. ram_bytes m (xa_efimap a) (unat (rp_size r)))) (\<lambda>bs.
          case sypas_translate_memory_map (xa_efimap a) bs (rp_size r) (rp_dsz r) (xa_plan a) (xa_cap a) of
            None \<Rightarrow> stop_with Stuck
          | Some (Inl (status, diagnostic)) \<Rightarrow>
              (if left = 3 then map_rejected fw status diagnostic else halt_after_exit_boot_services)
          | Some (Inr out) \<Rightarrow>
              (case sort_descriptors bs (unat (rp_size r) div unat (rp_dsz r)) (unat (rp_dsz r)) of
                 None \<Rightarrow> stop_with Stuck
               | Some sorted_bs \<Rightarrow>
                 andthen (poke (put_map (xa_efimap a) sorted_bs (xa_smap a) out)) (\<lambda>_.
                 andthen (poke (bi_store (xa_bi a) BI_memmap (unat (xa_smap a)))) (\<lambda>_.
                 andthen (poke (bi_store (xa_bi a) BI_memmap_count (length out))) (\<lambda>_.
                 andthen (efi fw (ExitBootServices (xa_img a) (rp_key r))) (exit_rest fw a left))))))) s1 = (Inr (), s')"
    by (rule andthenE)
  have ok: "\<not> EFI_ERROR (rp_status r)" using r1 by (auto split: if_splits)
  then obtain out sorted_bs where
    tr: "sypas_translate_memory_map (xa_efimap a) (ram_bytes (ld_mem s1) (xa_efimap a) (unat (rp_size r))) (rp_size r)
       (rp_dsz r) (xa_plan a) (xa_cap a) = Some (Inr out)" and
    so: "sort_descriptors (ram_bytes (ld_mem s1) (xa_efimap a) (unat (rp_size r)))
       (unat (rp_size r) div unat (rp_dsz r)) (unat (rp_dsz r)) = Some sorted_bs" and
    r2: "andthen (poke (put_map (xa_efimap a) sorted_bs (xa_smap a) out)) (\<lambda>_.
       andthen (poke (bi_store (xa_bi a) BI_memmap (unat (xa_smap a)))) (\<lambda>_.
       andthen (poke (bi_store (xa_bi a) BI_memmap_count (length out))) (\<lambda>_.
       andthen (efi fw (ExitBootServices (xa_img a) (rp_key r))) (exit_rest fw a left)))) s1 = (Inr (), s')"
    using r1 by (auto elim!: andthenE dest!: peekD split: option.splits sum.splits prod.splits if_splits)
  from r2 show thesis by (elim andthenE) (rule that [OF g ok tr so])
qed

text \<open>The map as it is written down: both buffers keep their place, and the boot information points at the entries.\<close>

lemma map_writtenD:
  assumes fw: "efi_contract fw" and smap: "xa_smap a = xa_efimap a + xa_map_bytes a"
    and room: "unat (xa_map_bytes a) + unat (xa_cap a) * sizeof_entry \<le> length mbs"
    and st: "bi_holding (xa_bi a) env ((xa_efimap a, mbs) # H) s1"
    and sl: "length sorted_bs \<le> unat (xa_map_bytes a)" and cap: "length out \<le> unat (xa_cap a)"
    and p1: "poke (put_map (xa_efimap a) sorted_bs (xa_smap a) out) s1 = (Inr u1, s3)"
    and p2: "poke (bi_store (xa_bi a) BI_memmap (unat (xa_smap a))) s3 = (Inr u2, s4)"
    and p3: "poke (bi_store (xa_bi a) BI_memmap_count (length out)) s4 = (Inr u3, s5)"
  shows "map_ready a env H (length mbs) out s5 \<and> ld_calls s5 = ld_calls s1"
proof -
  let ?mm = "xa_efimap a" and ?off = "unat (xa_map_bytes a)"
  have roomy: "?off + length out * sizeof_entry \<le> length mbs" using room cap by (simp add: sizeof_entry_def)
  have "\<exists>mbs2. (length mbs2 = length mbs \<and>
      take (length out * sizeof_entry) (drop ?off mbs2) = concat (map encode_entry out)) \<and>
      bi_holding (xa_bi a) env ((?mm, mbs2) # H) s3"
    by (rule bi_holding_second [OF _ st])
      (use put_mapD [of ?mm sorted_bs ?off out s1 u1 s3 mbs] p1 smap sl roomy in auto)
  then obtain mbs2 where m2: "length mbs2 = length mbs"
    "take (length out * sizeof_entry) (drop ?off mbs2) = concat (map encode_entry out)"
    "bi_holding (xa_bi a) env ((?mm, mbs2) # H) s3" by auto
  have cnt: "length out < 2 ^ 64" using cap unat_u64_less [of "xa_cap a"] by linarith
  have "bi_holding (xa_bi a) (env(BI_memmap \<mapsto> unat (xa_smap a) mod 256 ^ bi_sizeof BI_memmap,
      BI_memmap_count \<mapsto> length out mod 256 ^ bi_sizeof BI_memmap_count)) ((?mm, mbs2) # H) s5"
    by (rule ensuresD [OF ensures_bi_set p3], rule ensuresD [OF ensures_bi_set p2], rule m2(3))
  moreover have "unat (xa_smap a) mod 256 ^ bi_sizeof BI_memmap = unat (xa_smap a)"
    "length out mod 256 ^ bi_sizeof BI_memmap_count = length out"
    using cnt by (simp_all add: bi_sizeof_values unat_mod_self)
  ultimately have "map_ready a env H (length mbs) out s5" using m2(1,2) by (auto simp: map_ready_def)
  then show ?thesis using pokeD [OF p1] pokeD [OF p2] pokeD [OF p3] by simp
qed

lemma exit_turnD:
  assumes fw: "efi_contract fw" and smap: "xa_smap a = xa_efimap a + xa_map_bytes a"
    and room: "unat (xa_map_bytes a) + unat (xa_cap a) * sizeof_entry \<le> length mbs"
    and st: "bi_holding (xa_bi a) env ((xa_efimap a, mbs) # H) s"
    and run: "exit_loop fw a left s = (Inr (), s')"
  obtains out r x s2 where "map_ready a env H (length mbs) out s2"
    and "ld_calls s2 = ld_calls s @ [(GetMemoryMap (xa_map_bytes a) (xa_efimap a), r),
        (ExitBootServices (xa_img a) (rp_key r), x)]"
    and "\<not> EFI_ERROR (rp_status x) \<Longrightarrow> s' = s2 \<and> exited_with fw a (ld_calls s2) out"
    and "EFI_ERROR (rp_status x) \<Longrightarrow> \<exists>l. left = Suc l \<and> exit_loop fw a l s2 = (Inr (), s')"
  using run
proof (rule exit_loop_steps)
  fix r x :: efi_reply and s1 s2 s3 s4 s5 :: loader and out sorted_bs u1 u2 u3
  let ?g = "GetMemoryMap (xa_map_bytes a) (xa_efimap a)" and ?mm = "xa_efimap a"
  let ?bs = "ram_bytes (ld_mem s1) ?mm (unat (rp_size r))"
  assume g: "efi fw ?g s = (Inr r, s1)" and ok: "\<not> EFI_ERROR (rp_status r)"
    and tr: "sypas_translate_memory_map ?mm ?bs (rp_size r) (rp_dsz r) (xa_plan a) (xa_cap a) = Some (Inr out)"
    and so: "sort_descriptors ?bs (unat (rp_size r) div unat (rp_dsz r)) (unat (rp_dsz r)) = Some sorted_bs"
    and p: "poke (put_map ?mm sorted_bs (xa_smap a) out) s1 = (Inr u1, s3)"
      "poke (bi_store (xa_bi a) BI_memmap (unat (xa_smap a))) s3 = (Inr u2, s4)"
      "poke (bi_store (xa_bi a) BI_memmap_count (length out)) s4 = (Inr u3, s5)"
    and x: "efi fw (ExitBootServices (xa_img a) (rp_key r)) s5 = (Inr x, s2)"
    and e: "exit_rest fw a left x s2 = (Inr (), s')"
  note gD = efiD [OF g] and ds = translate_strides [OF tr]
  have fits: "unat (rp_size r) \<le> unat (xa_map_bytes a)"
    using fw gD ok unfolding efi_contract_def map_fits_def by (metis fst_conv word_le_nat_alt)
  have "length ?bs = unat (rp_size r) div unat (rp_dsz r) * unat (rp_dsz r)"
    using ds(3) by (metis length_ram_bytes div_mult_mod_eq add_0_right)
  then have sl: "length sorted_bs \<le> unat (xa_map_bytes a)"
    using sort_descriptors_length [OF _ ds(1,2) so] fits by simp
  have "\<exists>mbs1. length mbs1 = length mbs \<and> bi_holding (xa_bi a) env ((?mm, mbs1) # H) s1"
    by (rule bi_holding_second [OF _ st], rule fillD [OF fw g])
      (use le_trans [OF le_add1 room] in \<open>simp_all add: freed_base_def call_buffer_def\<close>)
  then obtain mbs1 where m1: "length mbs1 = length mbs" "bi_holding (xa_bi a) env ((?mm, mbs1) # H) s1"
    by blast
  have W: "map_ready a env H (length mbs) out s5" "ld_calls s5 = ld_calls s1"
    using map_writtenD [OF fw smap _ m1(2) sl translate_within [OF tr] p] room m1(1) by simp_all
  have ready: "map_ready a env H (length mbs) out s2"
    using W(1) ensuresD [OF ensures_bi_quiet [OF keeping_efi [OF fw]] x] unfolding map_ready_def by fastforce
  have calls: "ld_calls s2 = ld_calls s @ [(?g, r), (ExitBootServices (xa_img a) (rp_key r), x)]"
    using efiD [OF x] gD W(2) by simp
  show thesis
  proof (rule that [OF ready calls])
    assume nx: "\<not> EFI_ERROR (rp_status x)"
    then have "s' = s2" using e by (auto simp: exit_rest_def dest: giveD)
    moreover have "exited_with fw a (ld_calls s2) out"
      using calls gD tr nx ok unfolding exited_with_def by blast
    ultimately show "s' = s2 \<and> exited_with fw a (ld_calls s2) out" ..
  next
    assume "EFI_ERROR (rp_status x)"
    then show "\<exists>l. left = Suc l \<and> exit_loop fw a l s2 = (Inr (), s')"
      using e by (cases left) (auto simp: exit_rest_def)
  qed
qed

lemma exit_loopD:
  assumes "efi_contract fw" and "xa_smap a = xa_efimap a + xa_map_bytes a"
    and "unat (xa_map_bytes a) + unat (xa_cap a) * sizeof_entry \<le> length mbs"
    and "bi_holding (xa_bi a) env ((xa_efimap a, mbs) # H) s"
    and "exit_loop fw a left s = (Inr (), s')"
  shows "\<exists>out new. map_ready a env H (length mbs) out s' \<and> exited_with fw a (ld_calls s') out \<and>
    ld_calls s' = ld_calls s @ new"
  using assms(3-)
proof (induction left arbitrary: s env mbs)
  case 0
  obtain out r x s2 where t: "map_ready a env H (length mbs) out s2"
    "ld_calls s2 = ld_calls s @ [(GetMemoryMap (xa_map_bytes a) (xa_efimap a), r),
        (ExitBootServices (xa_img a) (rp_key r), x)]"
    "\<not> EFI_ERROR (rp_status x) \<Longrightarrow> s' = s2 \<and> exited_with fw a (ld_calls s2) out"
    "EFI_ERROR (rp_status x) \<Longrightarrow> \<exists>l. 0 = Suc l \<and> exit_loop fw a l s2 = (Inr (), s')"
    by (rule exit_turnD [OF assms(1,2) 0]) blast
  then show ?case by (cases "EFI_ERROR (rp_status x)") auto
next
  case (Suc left)
  obtain out r x s2 where t: "map_ready a env H (length mbs) out s2"
    "ld_calls s2 = ld_calls s @ [(GetMemoryMap (xa_map_bytes a) (xa_efimap a), r),
        (ExitBootServices (xa_img a) (rp_key r), x)]"
    "\<not> EFI_ERROR (rp_status x) \<Longrightarrow> s' = s2 \<and> exited_with fw a (ld_calls s2) out"
    "EFI_ERROR (rp_status x) \<Longrightarrow> \<exists>l. Suc left = Suc l \<and> exit_loop fw a l s2 = (Inr (), s')"
    by (rule exit_turnD [OF assms(1,2) Suc.prems]) blast
  show ?case
  proof (cases "EFI_ERROR (rp_status x)")
    case True
    with t(4) have again: "exit_loop fw a left s2 = (Inr (), s')" by simp
    from t(1) obtain mbs2 where m2: "length mbs2 = length mbs"
      "bi_holding (xa_bi a) (env(BI_memmap \<mapsto> unat (xa_smap a), BI_memmap_count \<mapsto> length out))
         ((xa_efimap a, mbs2) # H) s2" by (auto simp: map_ready_def)
    have room: "unat (xa_map_bytes a) + unat (xa_cap a) * sizeof_entry \<le> length mbs2"
      using Suc.prems(1) m2(1) by simp
    from Suc.IH [OF room m2(2) again] obtain out' new where
      o: "map_ready a (env(BI_memmap \<mapsto> unat (xa_smap a), BI_memmap_count \<mapsto> length out)) H (length mbs) out' s'"
      "exited_with fw a (ld_calls s') out'" "ld_calls s' = ld_calls s2 @ new"
      unfolding m2(1) by blast
    have "env(BI_memmap \<mapsto> u, BI_memmap_count \<mapsto> v, BI_memmap \<mapsto> u, BI_memmap_count \<mapsto> w) =
        env(BI_memmap \<mapsto> u, BI_memmap_count \<mapsto> w)" for u v w by (auto simp: fun_eq_iff)
    then have "map_ready a env H (length mbs) out' s'" using o(1) unfolding map_ready_def by (simp only:)
    with o(2,3) t(2) show ?thesis by auto
  next
    case False
    with t show ?thesis by auto
  qed
qed

end
