(* ===== verification/LoaderTrace.thy ===== *)
theory LoaderTrace
  imports Loader
begin

text \<open>
  The order of the loader's firmware calls: nothing but the \<^verbatim>\<open>GetMemoryMap\<close> and \<^verbatim>\<open>ExitBootServices\<close>
  recovery pair after the first \<^verbatim>\<open>ExitBootServices\<close>, whatever the firmware answers.
\<close>

subsection \<open>Which calls a piece of the loader makes\<close>

definition runs_within :: "(efi_call \<Rightarrow> bool) \<Rightarrow> (boot_stop \<Rightarrow> bool) \<Rightarrow> 'a boot \<Rightarrow> bool" where
  "runs_within P E m \<longleftrightarrow> (\<forall>s. \<exists>new. ld_calls (snd (m s)) = ld_calls s @ new \<and>
     list_all (\<lambda>(c, _). P c) new \<and> (case fst (m s) of Inl e \<Rightarrow> E e | Inr _ \<Rightarrow> True))"

named_theorems boot_rule \<open>calls of the loader's pieces\<close>

lemma within_give [boot_rule]: "runs_within P E (give x)"
  by (simp add: runs_within_def give_def)

lemma within_stop [boot_rule]: "E e \<Longrightarrow> runs_within P E (stop_with e)"
  by (simp add: runs_within_def stop_with_def)

lemma within_peek [boot_rule]: "runs_within P E (peek f)"
  by (simp add: runs_within_def peek_def)

lemma within_poke [boot_rule]: "runs_within P E (poke f)"
  by (simp add: runs_within_def poke_def)

lemma within_efi [boot_rule]: "P c \<Longrightarrow> runs_within P E (efi fw c)"
  by (simp add: runs_within_def efi_def Let_def split_beta)

lemma within_andthen [boot_rule]:
  assumes "runs_within P E m" and "\<And>x. runs_within P E (k x)"
  shows "runs_within P E (andthen m k)"
  unfolding runs_within_def
proof
  fix s
  obtain res s1 where m: "m s = (res, s1)" by fastforce
  with assms(1) obtain new where n: "ld_calls s1 = ld_calls s @ new"
    "list_all (\<lambda>(c, _). P c) new" "case res of Inl e \<Rightarrow> E e | Inr _ \<Rightarrow> True"
    unfolding runs_within_def by (metis fst_conv snd_conv)
  show "\<exists>new. ld_calls (snd (andthen m k s)) = ld_calls s @ new \<and> list_all (\<lambda>(c, _). P c) new \<and>
      (case fst (andthen m k s) of Inl e \<Rightarrow> E e | Inr _ \<Rightarrow> True)"
  proof (cases res)
    case (Inl e)
    with n m show ?thesis by (simp add: andthen_def)
  next
    case (Inr x)
    obtain new2 where "ld_calls (snd (k x s1)) = ld_calls s1 @ new2"
      "list_all (\<lambda>(c, _). P c) new2" "case fst (k x s1) of Inl e \<Rightarrow> E e | Inr _ \<Rightarrow> True"
      using assms(2) [of x] unfolding runs_within_def by blast
    with n m Inr show ?thesis by (simp add: andthen_def)
  qed
qed

lemma runs_if [boot_rule]:
  "(b \<Longrightarrow> runs_within P E x) \<Longrightarrow> (\<not> b \<Longrightarrow> runs_within P E y) \<Longrightarrow> runs_within P E (if b then x else y)"
  by simp

lemma runs_prod [boot_rule]: "(\<And>a b. runs_within P E (f a b)) \<Longrightarrow> runs_within P E (case x of (a, b) \<Rightarrow> f a b)"
  by (cases x) simp

lemma runs_option [boot_rule]:
  "runs_within P E n \<Longrightarrow> (\<And>y. runs_within P E (f y)) \<Longrightarrow>
   runs_within P E (case x of None \<Rightarrow> n | Some y \<Rightarrow> f y)"
  by (cases x) simp_all

lemma runs_sum [boot_rule]:
  "(\<And>y. runs_within P E (f y)) \<Longrightarrow> (\<And>y. runs_within P E (g y)) \<Longrightarrow>
   runs_within P E (case x of Inl y \<Rightarrow> f y | Inr y \<Rightarrow> g y)"
  by (cases x) simp_all

lemma runs_let [boot_rule]: "(\<And>y. runs_within P E (f y)) \<Longrightarrow> runs_within P E (Let x f)"
  by simp

fun is_exit :: "efi_call \<Rightarrow> bool" where
  "is_exit (ExitBootServices img key) = True"
| "is_exit _ = False"

abbreviation before_exit :: "'a boot \<Rightarrow> bool" where
  "before_exit \<equiv> runs_within (\<lambda>c. \<not> is_exit c) (\<lambda>e. e \<noteq> Halted)"

lemma before_exit_print [boot_rule]: "before_exit (print fw s)"
  unfolding print_def by (intro boot_rule) simp_all

lemma before_exit_print_hex [boot_rule]: "before_exit (print_hex fw v)"
  unfolding print_hex_def by (intro boot_rule)

lemma before_exit_die [boot_rule]: "before_exit (die fw msg st)"
  unfolding die_def by (intro boot_rule) simp_all

lemma before_exit_die_ascii [boot_rule]: "before_exit (die_ascii fw msg detail st)"
  unfolding die_ascii_def by (intro boot_rule)

lemma before_exit_or_die [boot_rule]: "\<not> is_exit c \<Longrightarrow> before_exit (or_die fw c msg)"
  unfolding or_die_def by (intro boot_rule) simp_all

lemma before_exit_read_kernel_file [boot_rule]: "before_exit (read_kernel_file fw img)"
  unfolding read_kernel_file_def by (intro boot_rule) simp_all

lemma before_exit_load_segments [boot_rule]: "before_exit (load_segments fw file ss)"
proof (induction ss)
  case (Cons seg ss)
  then show ?case unfolding load_segments.simps by (intro boot_rule) simp_all
qed (simp add: boot_rule)

lemma before_exit_load_kernel_elf [boot_rule]: "before_exit (load_kernel_elf fw file fsize)"
  unfolding load_kernel_elf_def by (intro boot_rule) simp_all

lemma before_exit_fill_bootinfo [boot_rule]: "before_exit (fill_bootinfo fw systab bi plan stack)"
  unfolding fill_bootinfo_def fill_framebuffer_def by (intro boot_rule) simp_all

lemma before_exit_size_buffers [boot_rule]: "before_exit (size_buffers fw left mmsize dsz)"
proof (induction left arbitrary: mmsize dsz)
  case (Suc left)
  then show ?case unfolding size_buffers.simps by (intro boot_rule) simp_all
qed (simp add: boot_rule)

lemma before_exit_map_rejected [boot_rule]: "before_exit (map_rejected fw status d)"
  unfolding map_rejected_def report_overlap_def by (intro boot_rule)

lemma before_exit_jump [boot_rule]: "before_exit (jump_to_kernel entry_addr stack bi)"
  unfolding jump_to_kernel_def by (intro boot_rule)

text \<open>A piece that never calls \<^verbatim>\<open>ExitBootServices\<close>, as a fact about one run.\<close>

lemma before_exitE:
  assumes "before_exit m" and "m s = (res, s')"
  obtains new where "ld_calls s' = ld_calls s @ new" "list_all (\<lambda>(c, _). \<not> is_exit c) new" "res \<noteq> Inl Halted"
proof -
  from assms obtain new where "ld_calls s' = ld_calls s @ new" "list_all (\<lambda>(c, _). \<not> is_exit c) new"
    "case res of Inl e \<Rightarrow> e \<noteq> Halted | Inr _ \<Rightarrow> True"
    unfolding runs_within_def by (metis fst_conv snd_conv)
  with that show ?thesis by (cases res) auto
qed

text \<open>\<^verbatim>\<open>die\<close> does not return.\<close>

lemma andthen_stops: "(\<And>x s. \<exists>e. fst (k x s) = Inl e) \<Longrightarrow> \<exists>e. fst (andthen m k s) = Inl e"
  by (simp add: andthen_def split: prod.split sum.split)

lemma stop_with_stops: "\<exists>e. fst (stop_with e' s) = Inl e"
  by (simp add: stop_with_def)

lemma die_stops_fst: "\<exists>e. fst (die fw msg st s) = Inl e"
  unfolding die_def by (intro andthen_stops stop_with_stops)

lemma die_ascii_stops_fst: "\<exists>e. fst (die_ascii fw msg detail st s) = Inl e"
  unfolding die_ascii_def by (intro andthen_stops die_stops_fst)

lemma map_rejected_stops_fst: "\<exists>e. fst (map_rejected fw status d s) = Inl e"
  unfolding map_rejected_def by (intro andthen_stops die_ascii_stops_fst)

lemma die_stops: "die fw msg st s = (res, s') \<Longrightarrow> \<exists>e. res = Inl e"
  by (metis die_stops_fst fst_conv)

lemma map_rejected_stops: "map_rejected fw status d s = (res, s') \<Longrightarrow> \<exists>e. res = Inl e"
  by (metis map_rejected_stops_fst fst_conv)

subsection \<open>The exit loop\<close>

text \<open>
  The calls from the one before the first \<^verbatim>\<open>ExitBootServices\<close> on: map and exit in turn, each exit
  with the key of the map just read, a further pair only after an exit that failed.
\<close>

fun exit_pairs :: "u64 \<Rightarrow> u64 \<Rightarrow> u64 \<Rightarrow> call_record \<Rightarrow> bool" where
  "exit_pairs img n buf [] = True"
| "exit_pairs img n buf [(c, r)] = (c = GetMemoryMap n buf)"
| "exit_pairs img n buf ((c, r) # (d, x) # rest) =
     (c = GetMemoryMap n buf \<and> \<not> EFI_ERROR (rp_status r) \<and>
      d = ExitBootServices img (rp_key r) \<and> (rest = [] \<or> EFI_ERROR (rp_status x)) \<and>
      exit_pairs img n buf rest)"

definition exits :: "call_record \<Rightarrow> call_record" where
  "exits tr = filter (\<lambda>(c, _). is_exit c) tr"

text \<open>How the run ended against the calls \<open>post\<close> of the exit phase.\<close>

definition exit_outcome :: "boot_stop + 'a \<Rightarrow> call_record \<Rightarrow> bool" where
  "exit_outcome res post = (case res of
     Inr h \<Rightarrow> exits post \<noteq> [] \<and> last post = last (exits post) \<and> \<not> EFI_ERROR (rp_status (snd (last post)))
   | Inl (Died msg st) \<Rightarrow> post = []
   | Inl Halted \<Rightarrow> exits post \<noteq> [] \<and> EFI_ERROR (rp_status (snd (last (exits post))))
   | Inl Stuck \<Rightarrow> True)"

lemma exits_Nil [simp]: "exits [] = []"
  by (simp add: exits_def)

lemma exits_append [simp]: "exits (xs @ ys) = exits xs @ exits ys"
  by (simp add: exits_def)

lemma exits_none: "list_all (\<lambda>(c, _). \<not> is_exit c) xs \<Longrightarrow> exits xs = []"
  by (auto simp: exits_def list_all_iff filter_empty_conv)


text \<open>One turn: it ends at the map, or makes the exit call and returns, gives up or goes on.\<close>

lemma exit_turn:
  assumes "exit_loop fw a left s = (res, s')"
  obtains
    (map_failed) r new where "ld_calls s' = ld_calls s @ (GetMemoryMap (xa_map_bytes a) (xa_efimap a), r) # new"
      "left = 3" "list_all (\<lambda>(c, _). \<not> is_exit c) new" "res \<noteq> Inl Halted" "\<exists>e. res = Inl e"
  | (given_up) r where "ld_calls s' = ld_calls s @ [(GetMemoryMap (xa_map_bytes a) (xa_efimap a), r)]"
      "left \<noteq> 3" "res = Inl Halted"
  | (stuck) r where "ld_calls s' = ld_calls s @ [(GetMemoryMap (xa_map_bytes a) (xa_efimap a), r)]"
      "res = Inl Stuck"
  | (exited) r x where "ld_calls s' = ld_calls s @ [(GetMemoryMap (xa_map_bytes a) (xa_efimap a), r),
        (ExitBootServices (xa_img a) (rp_key r), x)]" "\<not> EFI_ERROR (rp_status r)"
      "\<not> EFI_ERROR (rp_status x)" "res = Inr ()"
  | (refused) r x s1 where "ld_calls s1 = ld_calls s @ [(GetMemoryMap (xa_map_bytes a) (xa_efimap a), r),
        (ExitBootServices (xa_img a) (rp_key r), x)]" "\<not> EFI_ERROR (rp_status r)"
      "EFI_ERROR (rp_status x)"
      "(case left of 0 \<Rightarrow> halt_after_exit_boot_services | Suc l \<Rightarrow> exit_loop fw a l) s1 = (res, s')"
proof -
  let ?g = "GetMemoryMap (xa_map_bytes a) (xa_efimap a)"
  obtain r m1 where g: "fw (ld_calls s) (ld_mem s) ?g = (r, m1)" by fastforce
  let ?s1 = "s\<lparr>ld_calls := ld_calls s @ [(?g, r)], ld_mem := m1\<rparr>"
  let ?bs = "ram_bytes m1 (xa_efimap a) (unat (rp_size r))"
  let ?t = "sypas_translate_memory_map (xa_efimap a) ?bs (rp_size r) (rp_dsz r) (xa_plan a) (xa_cap a)"
  have died: thesis if "before_exit d" "d ?s1 = (res, s')" "left = 3" "\<exists>e. res = Inl e" for d :: "unit boot"
  proof -
    from that(1,2) obtain new where "ld_calls s' = ld_calls ?s1 @ new"
      "list_all (\<lambda>(c, _). \<not> is_exit c) new" "res \<noteq> Inl Halted" by (rule before_exitE)
    then show thesis using that(3,4) by (intro map_failed [of r new]) auto
  qed
  note run0 = assms [unfolded exit_loop.simps [of fw a left]]
  note ex = andthen_def efi_def g peek_def poke_def stop_with_def
    halt_after_exit_boot_services_def give_def
  consider "EFI_ERROR (rp_status r)" | st d where "\<not> EFI_ERROR (rp_status r)" "?t = Some (Inl (st, d))"
    | "\<not> EFI_ERROR (rp_status r)" "?t = None" | out where "\<not> EFI_ERROR (rp_status r)" "?t = Some (Inr out)"
    by (metis option.exhaust sum.exhaust surj_pair)
  then show thesis
  proof cases
    case 1
    show thesis
    proof (cases "left = 3")
      case True
      with 1 run0 have "die fw (wide ''GetMemoryMap failed'') (rp_status r) ?s1 = (res, s')"
        by (simp add: ex)
      then show thesis by (rule died [OF before_exit_die _ True])
        (use \<open>die fw _ _ ?s1 = _\<close> die_stops in blast)
    next
      case False
      with 1 run0 show thesis by (intro given_up) (auto simp: ex)
    qed
  next
    case 2
    show thesis
    proof (cases "left = 3")
      case True
      with 2 run0 have d: "map_rejected fw st d ?s1 = (res, s')" by (simp add: ex)
      then show thesis by (rule died [OF before_exit_map_rejected _ True]) (use d map_rejected_stops in blast)
    next
      case False
      with 2 run0 show thesis by (intro given_up) (auto simp: ex)
    qed
  next
    case 3
    with run0 show thesis by (intro stuck) (auto simp: ex)
  next
    case (4 out)
    show thesis
    proof (cases "sort_descriptors ?bs (unat (rp_size r) div unat (rp_dsz r)) (unat (rp_dsz r))")
      case None
      with 4 run0 show thesis by (intro stuck) (auto simp: ex)
    next
      case (Some sorted_bs)
      let ?m2 = "bi_store (xa_bi a) BI_memmap_count (length out)
        (bi_store (xa_bi a) BI_memmap (unat (xa_smap a)) (put_map (xa_efimap a) sorted_bs (xa_smap a) out m1))"
      obtain x m3 where x: "fw (ld_calls s @ [(?g, r)]) ?m2 (ExitBootServices (xa_img a) (rp_key r)) = (x, m3)"
        by fastforce
      let ?s2 = "?s1\<lparr>ld_calls := ld_calls ?s1 @ [(ExitBootServices (xa_img a) (rp_key r), x)], ld_mem := m3\<rparr>"
      have run: "exit_loop fw a left s = (if \<not> EFI_ERROR (rp_status x) then (Inr (), ?s2)
          else (case left of 0 \<Rightarrow> halt_after_exit_boot_services | Suc l \<Rightarrow> exit_loop fw a l) ?s2)"
        by (subst exit_loop.simps) (simp add: 4 Some ex x)
      show thesis
      proof (cases "EFI_ERROR (rp_status x)")
        case True
        with run assms 4(1) show thesis by (intro refused [of ?s2 r x]) auto
      next
        case False
        with run assms 4(1) show thesis by (intro exited [of r x]) auto
      qed
    qed
  qed
qed


abbreviation pairs_of :: "exit_args \<Rightarrow> call_record \<Rightarrow> bool" where
  "pairs_of a \<equiv> exit_pairs (xa_img a) (xa_map_bytes a) (xa_efimap a)"

lemma exits_pair [simp]:
  "exits [(GetMemoryMap n b, r)] = []"
  "exits ((GetMemoryMap n b, r) # (ExitBootServices i k, x) # rest) =
     (ExitBootServices i k, x) # exits rest"
  by (simp_all add: exits_def)

lemma exit_loop_retries:
  assumes "exit_loop fw a left s = (res, s')" and "left < 3"
  shows "\<exists>post. ld_calls s' = ld_calls s @ post \<and> pairs_of a post \<and> length (exits post) \<le> Suc left \<and>
    post \<noteq> [] \<and>
    (case res of Inr _ \<Rightarrow> exit_outcome res post
     | Inl e \<Rightarrow> e = Stuck \<or> e = Halted \<and> (exits post \<noteq> [] \<longrightarrow> EFI_ERROR (rp_status (snd (last (exits post))))))"
  using assms
proof (induction left arbitrary: s)
  case 0
  from 0(1) show ?case
  proof (cases rule: exit_turn)
    case (refused r x s1)
    then show ?thesis by (auto simp: halt_after_exit_boot_services_def stop_with_def)
  qed (use 0(2) in \<open>auto simp: exit_outcome_def\<close>)
next
  case (Suc left)
  from Suc.prems(1) show ?case
  proof (cases rule: exit_turn)
    case (refused r x s1)
    let ?pair = "[(GetMemoryMap (xa_map_bytes a) (xa_efimap a), r), (ExitBootServices (xa_img a) (rp_key r), x)]"
    from refused(4) have "exit_loop fw a left s1 = (res, s')" by simp
    from Suc.IH [OF this] Suc.prems(2) obtain post where p: "ld_calls s' = ld_calls s1 @ post"
      "pairs_of a post" "length (exits post) \<le> Suc left" "post \<noteq> []"
      "case res of Inr _ \<Rightarrow> exit_outcome res post
       | Inl e \<Rightarrow> e = Stuck \<or> e = Halted \<and> (exits post \<noteq> [] \<longrightarrow> EFI_ERROR (rp_status (snd (last (exits post)))))"
      by auto
    with refused(1-3) show ?thesis
      by (intro exI [of _ "?pair @ post"])
        (auto simp: exit_outcome_def last_append split: sum.splits)
  qed (use Suc.prems(2) in \<open>auto simp: exit_outcome_def\<close>)
qed

lemma exit_loop_calls:
  assumes "exit_loop fw a 3 s = (res, s')"
  shows "\<exists>pre post. ld_calls s' = ld_calls s @ pre @ post \<and> exits pre = [] \<and> pairs_of a post \<and>
    length (exits post) \<le> 4 \<and> exit_outcome res post"
  using assms
proof (cases rule: exit_turn)
  case (map_failed r new)
  then obtain e where e: "res = Inl e" "e \<noteq> Halted" by auto
  have "exits ((GetMemoryMap (xa_map_bytes a) (xa_efimap a), r) # new) = []"
    using map_failed(3) by (intro exits_none) simp
  with map_failed(1) e show ?thesis
    by - (rule exI [of _ "(GetMemoryMap (xa_map_bytes a) (xa_efimap a), r) # new"], rule exI [of _ "[]"], cases e; simp add: exit_outcome_def exits_def)
next
  case (stuck r)
  then show ?thesis
    by - (rule exI [of _ "[]"], rule exI [of _ "[(GetMemoryMap (xa_map_bytes a) (xa_efimap a), r)]"], simp add: exit_outcome_def)
next
  case (exited r x)
  then show ?thesis
    by - (rule exI [of _ "[]"], rule exI [of _ "[(GetMemoryMap (xa_map_bytes a) (xa_efimap a), r),
        (ExitBootServices (xa_img a) (rp_key r), x)]"], simp add: exit_outcome_def exits_def)
next
  case (refused r x s1)
  let ?pair = "[(GetMemoryMap (xa_map_bytes a) (xa_efimap a), r), (ExitBootServices (xa_img a) (rp_key r), x)]"
  from refused(4) have "exit_loop fw a 2 s1 = (res, s')" by (simp add: numeral_3_eq_3 numeral_2_eq_2)
  from exit_loop_retries [OF this] obtain post where p: "ld_calls s' = ld_calls s1 @ post"
    "pairs_of a post" "length (exits post) \<le> 3" "post \<noteq> []"
    "case res of Inr _ \<Rightarrow> exit_outcome res post
     | Inl e \<Rightarrow> e = Stuck \<or> e = Halted \<and> (exits post \<noteq> [] \<longrightarrow> EFI_ERROR (rp_status (snd (last (exits post)))))"
    by auto
  with refused(1-3) show ?thesis
    by - (rule exI [of _ "[]"], rule exI [of _ "?pair @ post"], auto simp: exit_outcome_def last_append split: sum.splits)
qed simp


subsection \<open>The whole run\<close>

text \<open>The calls \<open>new\<close> of a piece that ends with \<open>res\<close> are an exit-free part and an exit phase.\<close>

definition exit_phase :: "u64 \<Rightarrow> call_record \<Rightarrow> boot_stop + 'a \<Rightarrow> bool" where
  "exit_phase img new res \<longleftrightarrow> (\<exists>pre post n buf. new = pre @ post \<and> exits pre = [] \<and>
     exit_pairs img n buf post \<and> length (exits post) \<le> 4 \<and> exit_outcome res post)"

definition exit_shape :: "u64 \<Rightarrow> 'a boot \<Rightarrow> bool" where
  "exit_shape img m \<longleftrightarrow>
     (\<forall>s. \<exists>new. ld_calls (snd (m s)) = ld_calls s @ new \<and> exit_phase img new (fst (m s)))"

lemma exit_phase_stopped: "exits new = [] \<Longrightarrow> e \<noteq> Halted \<Longrightarrow> exit_phase img new (Inl e)"
  unfolding exit_phase_def
  by (rule exI [of _ new], rule exI [of _ "[]"]) (cases e; simp add: exit_outcome_def)

lemma exit_phase_later: "exits new = [] \<Longrightarrow> exit_phase img rest res \<Longrightarrow> exit_phase img (new @ rest) res"
  unfolding exit_phase_def by (metis append_assoc append_Nil exits_append)

lemma shape_andthen:
  assumes "before_exit m" and "\<And>x. exit_shape img (k x)"
  shows "exit_shape img (andthen m k)"
  unfolding exit_shape_def
proof
  fix s
  obtain res s1 where m: "m s = (res, s1)" by fastforce
  from before_exitE [OF assms(1) m] obtain new where new: "ld_calls s1 = ld_calls s @ new"
    "exits new = []" "res \<noteq> Inl Halted" by (metis exits_none)
  show "\<exists>new. ld_calls (snd (andthen m k s)) = ld_calls s @ new \<and> exit_phase img new (fst (andthen m k s))"
  proof (cases res)
    case (Inl e)
    with new m show ?thesis
      by (intro exI [of _ new]) (simp add: andthen_def exit_phase_stopped)
  next
    case (Inr x)
    obtain rest where "ld_calls (snd (k x s1)) = ld_calls s1 @ rest" "exit_phase img rest (fst (k x s1))"
      using assms(2) [of x] unfolding exit_shape_def by blast
    with new m Inr show ?thesis
      by (intro exI [of _ "new @ rest"]) (simp add: andthen_def exit_phase_later)
  qed
qed

lemma shape_die: "exit_shape img (die fw msg st :: 'a boot)"
  unfolding exit_shape_def
proof
  fix s
  obtain res :: "boot_stop + 'a" and s1 where m: "die fw msg st s = (res, s1)" by fastforce
  then obtain e where e: "res = Inl e" using die_stops by blast
  from before_exitE [OF before_exit_die m] obtain new where "ld_calls s1 = ld_calls s @ new"
    "exits new = []" "res \<noteq> Inl Halted" by (metis exits_none)
  with m e show "\<exists>new. ld_calls (snd ((die fw msg st :: 'a boot) s)) = ld_calls s @ new \<and>
      exit_phase img new (fst ((die fw msg st :: 'a boot) s))"
    by (intro exI [of _ new]) (simp add: exit_phase_stopped)
qed

lemma shape_exit_and_jump:
  assumes "xa_img a = img"
  shows "exit_shape img (andthen (exit_loop fw a 3) (\<lambda>_. jump_to_kernel entry_addr stack bi))"
  unfolding exit_shape_def
proof
  fix s
  obtain res s1 where m: "exit_loop fw a 3 s = (res, s1)" by fastforce
  from exit_loop_calls [OF m] obtain pre post where p: "ld_calls s1 = ld_calls s @ pre @ post"
    "exits pre = []" "pairs_of a post" "length (exits post) \<le> 4" "exit_outcome res post" by blast
  let ?m = "andthen (exit_loop fw a 3) (\<lambda>_. jump_to_kernel entry_addr stack bi) s"
  have "snd ?m = s1"
    by (auto simp: andthen_def m jump_to_kernel_def peek_def split: sum.split)
  moreover have "exit_outcome (fst ?m) post"
    using p(5) by (cases res) (auto simp: andthen_def m jump_to_kernel_def peek_def exit_outcome_def)
  ultimately show "\<exists>new. ld_calls (snd ?m) = ld_calls s @ new \<and> exit_phase img new (fst ?m)"
    using p(1-4) assms unfolding exit_phase_def by auto
qed

lemma shape_let_pair: "(\<And>u v. exit_shape img (k u v)) \<Longrightarrow> exit_shape img (case x of (u, v) \<Rightarrow> k u v)"
  by (cases x) simp

lemma shape_if:
  "exit_shape img x \<Longrightarrow> exit_shape img y \<Longrightarrow> exit_shape img (if b then x else y)"
  by simp

lemma before_exit_efi: "\<not> is_exit c \<Longrightarrow> before_exit (efi fw c)"
  by (intro boot_rule)

lemmas shape_rules = shape_andthen shape_let_pair shape_if shape_die before_exit_print
  before_exit_efi before_exit_read_kernel_file before_exit_load_kernel_elf before_exit_or_die
  before_exit_fill_bootinfo before_exit_size_buffers

lemma shape_efi_main: "exit_shape img (efi_main fw version img systab)"
  unfolding efi_main_def Let_def
  by (intro shape_exit_and_jump shape_rules) simp_all

text \<open>
  C40: whatever the firmware answers, the calls of a run of the loader split into a part without
  \<^verbatim>\<open>ExitBootServices\<close> and a part of at most four attempts in which nothing but a fresh
  \<^verbatim>\<open>GetMemoryMap\<close> precedes each attempt and each uses the key of that map; the loader jumps only
  after a successful attempt and makes no call after it, dies (and prints) only before the first
  attempt, and halts silently only after a failed one.
\<close>

theorem efi_main_exit_protocol:
  "\<exists>pre post n buf. ld_calls (snd (efi_main fw version img systab \<lparr>ld_calls = [], ld_mem = m\<rparr>)) = pre @ post \<and>
     exits pre = [] \<and> exit_pairs img n buf post \<and> length (exits post) \<le> 4 \<and>
     exit_outcome (fst (efi_main fw version img systab \<lparr>ld_calls = [], ld_mem = m\<rparr>)) post"
proof -
  from shape_efi_main [of img fw version systab, unfolded exit_shape_def, THEN spec, of "\<lparr>ld_calls = [], ld_mem = m\<rparr>"]
  have "exit_phase img (ld_calls (snd (efi_main fw version img systab \<lparr>ld_calls = [], ld_mem = m\<rparr>)))
      (fst (efi_main fw version img systab \<lparr>ld_calls = [], ld_mem = m\<rparr>))" by auto
  then show ?thesis by (simp only: exit_phase_def)
qed

end
