(* ===== verification/DemoFirmware.thy ===== *)
theory DemoFirmware
  imports Blocks
begin

text \<open>
  A small firmware that keeps the contract: one loadable file (the image of \<^theory_text>\<open>Elf\<close>), allocations at
  fixed addresses that are refused once they would overlap, a memory map of two descriptors (free
  memory and the loader's own, which it returns as long as all the loader holds lies in the latter), no
  graphics.  A run of the loader on it reaches the jump (\<open>demo_run\<close>).
\<close>

subsection \<open>The firmware\<close>

definition demo_map :: "u8 list" where
  "demo_map =
     [7,0,0,0, 0,0,0,0, 0,0,0x10,0,0,0,0,0, 0,0,0,0,0,0,0,0, 0,3,0,0,0,0,0,0, 0,0,0,0,0,0,0,0,
      2,0,0,0, 0,0,0,0, 0,0,0x40,0,0,0,0,0, 0,0,0,0,0,0,0,0, 0,0xFC,3,0,0,0,0,0, 0,0,0,0,0,0,0,0]"

definition in_zone :: "range \<Rightarrow> bool" where
  "in_zone rg \<longleftrightarrow> 0x400000 \<le> unat (fst rg) \<and> unat (fst rg) + snd rg \<le> 0x40000000"

definition plain_reply :: "u64 \<Rightarrow> u64 \<Rightarrow> efi_reply" where
  "plain_reply st v = \<lparr>rp_status = st, rp_out = v, rp_size = 0, rp_key = 0, rp_dsz = 0, rp_bytes = []\<rparr>"

definition demo_place :: "efi_call \<Rightarrow> u64" where
  "demo_place c = (case c of
     AllocatePool ty n \<Rightarrow> 0x8000000
   | AllocatePages t ty n a \<Rightarrow> if t = AllocateAddress then a else if n = 1 then 0x10000000
       else if n = 16 then 0x20000000 else 0x30000000
   | _ \<Rightarrow> 0)"

definition free_range :: "range list \<Rightarrow> range \<Rightarrow> bool" where
  "free_range own rg \<longleftrightarrow> region_ok (fst rg) (snd rg) \<and> list_all (clear_of rg) own"

definition demo_reply :: "range list \<Rightarrow> efi_call \<Rightarrow> efi_reply" where
  "demo_reply own c = (case c of
     LocateProtocol g \<Rightarrow> plain_reply EFI_NOT_FOUND 0
   | FileGetInfo f g n \<Rightarrow> (plain_reply 0 0)\<lparr>rp_bytes := replicate 8 0 @ le_bytes 8 124\<rparr>
   | FileRead f n a \<Rightarrow> (plain_reply 0 0)\<lparr>rp_size := (if n = 124 \<and> region_ok a 124 then 124 else 0)\<rparr>
   | AllocatePool ty n \<Rightarrow>
       plain_reply (if free_range own (demo_place c, unat n) then 0 else EFI_NOT_FOUND) (demo_place c)
   | AllocatePages t ty n a \<Rightarrow>
       plain_reply (if free_range own (demo_place c, unat n * 4096) then 0 else EFI_NOT_FOUND) (demo_place c)
   | GetMemoryMap n a \<Rightarrow> (plain_reply (if 80 \<le> n \<and> region_ok a 80 \<and> list_all in_zone own
         then 0 else EFI_BUFFER_TOO_SMALL) 0)\<lparr>rp_size := 80, rp_key := 7, rp_dsz := 40\<rparr>
   | _ \<Rightarrow> plain_reply 0 0)"

definition demo_mem :: "efi_call \<Rightarrow> ram \<Rightarrow> ram" where
  "demo_mem c m = (case c of
     FileRead f n a \<Rightarrow> if n = 124 \<and> region_ok a 124 then ram_store m a example_image else m
   | GetMemoryMap n a \<Rightarrow> if 80 \<le> n \<and> region_ok a 80 then ram_store m a demo_map else m
   | _ \<Rightarrow> m)"

definition demo_firmware :: firmware where
  "demo_firmware tr m c = (demo_reply (owned tr) c, demo_mem c m)"

lemma demo_map_length: "length demo_map = 80"
  by (simp add: demo_map_def)

lemma EFI_NOT_FOUND_error: "EFI_ERROR EFI_NOT_FOUND" "EFI_ERROR EFI_BUFFER_TOO_SMALL" "\<not> EFI_ERROR 0"
  by (simp_all add: EFI_ERROR_def EFI_NOT_FOUND_def EFI_BUFFER_TOO_SMALL_def EFI_ERROR_BIT_def)

lemma demo_contract: "efi_contract demo_firmware"
  unfolding efi_contract_def
proof (intro conjI)
  have "demo_mem c m x = m x" if "\<not> within x (call_buffer c)" for c m x
  proof (cases c)
    case (FileRead f n a)
    with that show ?thesis
      using ram_store_out [of a example_image x m]
      by (auto simp: demo_mem_def call_buffer_def within_def example_length)
  next
    case (GetMemoryMap n a)
    have "\<not> in_range x a 80" if "80 \<le> n" "\<not> in_range x a (unat n)"
      using that by (auto simp: in_range_def word_le_nat_alt)
    with GetMemoryMap that show ?thesis
      using ram_store_out [of a demo_map x m]
      by (auto simp: demo_mem_def call_buffer_def within_def demo_map_length)
  qed (simp_all add: demo_mem_def)
  then show "keeps_memory demo_firmware" by (simp add: keeps_memory_def demo_firmware_def)
  show "allocates_fresh demo_firmware"
    unfolding allocates_fresh_def demo_firmware_def fst_conv
    by (auto simp: call_range_def demo_reply_def plain_reply_def demo_place_def free_range_def
        list_all_iff EFI_NOT_FOUND_error split: efi_call.splits if_splits)
  show "map_fits demo_firmware"
    by (auto simp: map_fits_def demo_firmware_def demo_reply_def plain_reply_def EFI_NOT_FOUND_error
        split: if_splits)
qed

subsection \<open>Its pieces, run\<close>

lemma runs_peek [runs_rule]: "runs (peek f) s Q = Q (f (ld_mem s)) s"
  by (simp add: runs_def peek_def)

lemma runs_poke [runs_rule]: "runs (poke f) s Q = Q () (s\<lparr>ld_mem := f (ld_mem s)\<rparr>)"
  by (simp add: runs_def poke_def)

lemma runs_efi [runs_rule]: "runs (efi demo_firmware c) s Q =
    Q (demo_reply (owned (ld_calls s)) c)
      (s\<lparr>ld_calls := ld_calls s @ [(c, demo_reply (owned (ld_calls s)) c)], ld_mem := demo_mem c (ld_mem s)\<rparr>)"
  by (simp add: runs_def efi_def demo_firmware_def Let_def)

lemma owned_Nil: "owned [] = []" by (simp add: owned_def)

lemma runs_or_die [runs_rule]: "runs (or_die fw c msg) s Q = runs (efi fw c) s (\<lambda>r s'.
    runs (if EFI_ERROR (rp_status r) then die fw msg (rp_status r) else give r) s' Q)"
  by (simp add: or_die_def runs_andthen)

lemma runs_print [runs_rule]: "runs (print demo_firmware t) s Q =
    Q () (s\<lparr>ld_calls := ld_calls s @ [(OutputString t, plain_reply 0 0)], ld_mem := ld_mem s\<rparr>)"
  by (simp add: print_def runs_rule demo_reply_def demo_mem_def)

lemmas demo_defs = demo_reply_def demo_mem_def demo_place_def plain_reply_def free_range_def region_ok_def
  owned_snoc own_step_def freed_base_def call_range_def EFI_NOT_FOUND_error clear_of_def in_zone_def

subsection \<open>The run\<close>

lemma demo_image_stored: "ram_bytes (ram_store m 0x8000000 example_image) 0x8000000 124 = example_image"
  using ram_bytes_store_same [of "0x8000000" example_image m] by (simp add: example_length region_ok_def)

lemma demo_map_stored: "ram_bytes (ram_store m 0x30000000 demo_map) 0x30000000 80 = demo_map"
  using ram_bytes_store_same [of "0x30000000" demo_map m] by (simp add: demo_map_length region_ok_def)

lemma info_file_size: "(of_nat (field_at (replicate 8 0 @ le_bytes 8 124) off_FileSize 8) :: u64) = 124"
  by (simp add: off_FileSize_def offset_in_def offsets_computed field_at_def le_val_le_bytes)

lemma owned_append: "owned (tr @ evs) = foldl own_step (owned tr) evs"
  by (simp add: owned_def)

lemma demo_read:
  assumes "owned (ld_calls s) = []"
  shows "runs (read_kernel_file demo_firmware img) s (\<lambda>r s'. r = (0x8000000, 124) \<and>
    owned (ld_calls s') = [(0x8000000, 124)] \<and> ram_bytes (ld_mem s') 0x8000000 124 = example_image)"
  using assms unfolding read_kernel_file_def
  by (simp add: runs_rule demo_defs owned_append Let_def SYPAS_MAX_KERNEL_FILE_def info_file_size demo_image_stored)

lemma example_load_phdrs: "load_phdrs example_image = [decode_phdr example_phdr_bytes]"
  by (simp add: load_phdrs_def example_phdrs phdr_loadable_def example_phdr PT_LOAD_def)

lemma example_plan_segs: "segs (image_plan example_image) = [segment_of (decode_phdr example_phdr_bytes)]"
  by (simp add: image_plan_def example_load_phdrs plan_add_def plan_init_def Let_def)

lemma example_segment_values:
  "seg_page_base (segment_of (decode_phdr example_phdr_bytes)) = 0x400000"
  "seg_page_end (segment_of (decode_phdr example_phdr_bytes)) = 0x401000"
  by (simp_all add: segment_of_def example_phdr ELF_PAGE_MASK_def)

lemma example_accepted: "elf_plan_load example_image 124 = Some (Inr (image_plan example_image))"
  using elf_plan_load_accepts [of example_image 124] example_valid by (simp add: example_length)

lemma demo_elf:
  assumes "owned (ld_calls s) = [(0x8000000, 124)]" and "ram_bytes (ld_mem s) 0x8000000 124 = example_image"
  shows "runs (load_kernel_elf demo_firmware 0x8000000 124) s (\<lambda>plan s'. plan = image_plan example_image \<and>
    owned (ld_calls s') = [(0x400000, 0x1000), (0x8000000, 124)])"
  using assms unfolding load_kernel_elf_def
  by (simp add: runs_rule demo_defs owned_append example_accepted example_plan_segs segment_pages_def
      EFI_PAGE_SIZE_def example_segment_values)

lemma demo_bootinfo:
  "runs (fill_bootinfo demo_firmware systab bi plan stack) s
     (\<lambda>u s'. owned (ld_calls s') = owned (ld_calls s))"
  unfolding fill_bootinfo_def fill_framebuffer_def
  by (simp add: runs_rule demo_defs owned_append)

definition demo_sizes :: map_sizes where
  "demo_sizes = \<lparr>ms_mm_pages = 1, ms_map_bytes = 4096, ms_sypas_cap = 1138, ms_sypas_pages = 7, ms_total_pages = 8\<rparr>"

lemma demo_map_buffer_sizes: "map_buffer_sizes 80 40 = Some demo_sizes"
  by (simp add: map_buffer_sizes_def demo_sizes_def mul_ok_def add_ok_def pages_for_size_def EFI_PAGE_SIZE_def
      MAP_SLACK_DESCRIPTORS_def MAP_ENTRIES_PER_DESCRIPTOR_def ELF_MAX_SEGMENTS_def sizeof_entry_def UINT64_MAX_def)

lemma demo_size_buffers:
  assumes "owned (ld_calls s) = [(0x20000000, 65536), (0x10000000, 4096), (0x400000, 0x1000)]"
  shows "runs (size_buffers demo_firmware 4 80 40) s (\<lambda>r s'. r = (0x30000000, demo_sizes) \<and>
    list_all in_zone (owned (ld_calls s')))"
proof -
  have "(4 :: nat) = Suc 3" by simp
  then show ?thesis using assms
    by (simp only: size_buffers.simps(2) demo_map_buffer_sizes option.case)
      (simp add: runs_rule demo_defs owned_append demo_sizes_def)
qed

lemma two_indices: "[0..<2] = [0, 1 :: nat]"
  by (simp add: upt_rec)

lemma demo_descriptors: "input_descriptors demo_map 40 =
  [\<lparr>ed_Type = 7, ed_PhysicalStart = 0x100000, ed_VirtualStart = 0, ed_NumberOfPages = 0x300, ed_Attribute = 0\<rparr>,
   \<lparr>ed_Type = 2, ed_PhysicalStart = 0x400000, ed_VirtualStart = 0, ed_NumberOfPages = 0x3FC00, ed_Attribute = 0\<rparr>]"
  by (simp add: input_descriptors_def demo_map_def sizeof_descriptor_def decode_descriptor_def field_at_def
      two_indices)

lemma example_plan_wf: "plan_wf 124 (image_plan example_image)"
  using image_plan_wf_aux [OF example_valid] by (simp add: example_length)

lemma demo_translation: "\<exists>out. sypas_translate_memory_map 0x30000000 demo_map 80 40 (image_plan example_image) 1138 = Some (Inr out)"
proof -
  have a: "map_args_ok 0x30000000 demo_map 80 40" by (simp add: map_args_ok_def demo_map_length)
  have v: "valid_efi_map (input_descriptors demo_map 40)"
    "no_crossing (input_descriptors demo_map 40) (segs (image_plan example_image))"
    "kernel_in_loader (input_descriptors demo_map 40) (segs (image_plan example_image))"
    by (simp_all add: demo_descriptors example_map_defs example_plan_segs example_segment_values)
  from translate_complete_aux [OF a plan_wf_kernel_ranges [OF example_plan_wf], of 1138] v show ?thesis
    by (simp add: example_plan_segs)
qed

lemma demo_sort: "sort_descriptors demo_map 2 40 = Some demo_map"
proof -
  let ?c = "[take 40 demo_map, drop 40 demo_map]"
  have "chunked 40 ?c" by (simp add: chunked_def demo_map_length)
  note sorted = sort_descriptors_chunks [OF this]
  have "length ?c = 2" "concat ?c = demo_map" by simp_all
  moreover have "sort_key chunk_key ?c = ?c" by (simp add: chunk_key_def demo_map_def)
  ultimately show ?thesis using sorted by (simp only: MAX_EFI_DESCRIPTOR_SIZE_def)
qed

lemma demo_exit_loop:
  assumes "list_all in_zone (owned (ld_calls s))"
  shows "runs (exit_loop demo_firmware \<lparr>xa_img = img, xa_plan = image_plan example_image, xa_bi = bi,
      xa_efimap = 0x30000000, xa_map_bytes = 4096, xa_smap = smap, xa_cap = 1138\<rparr> 3) s (\<lambda>u s'. True)"
proof -
  obtain out where out: "sypas_translate_memory_map 0x30000000 demo_map 80 40 (image_plan example_image) 1138 = Some (Inr out)"
    using demo_translation by blast
  show ?thesis
    using assms by (simp add: exit_loop.simps [of demo_firmware _ 3] runs_rule demo_defs demo_map_stored out demo_sort)
qed

lemma demo_alloc_pages:
  assumes "owned (ld_calls s) = own"
    and "c = AllocatePages AllocateAnyPages ty n a" and "free_range own (demo_place c, unat n * 4096)"
  shows "runs (or_die demo_firmware c msg) s (\<lambda>r s'. rp_out r = demo_place c \<and>
    owned (ld_calls s') = (demo_place c, unat n * 4096) # own)"
  using assms(3) unfolding assms(2) runs_or_die runs_efi
  by (simp add: assms(1) demo_reply_def plain_reply_def EFI_NOT_FOUND_error runs_give owned_append own_step_def
      freed_base_def call_range_def)

text \<open>The loader gets from its entry to the jump.\<close>

lemma demo_run:
  "\<exists>h s. efi_main demo_firmware version img systab \<lparr>ld_calls = [], ld_mem = m\<rparr> = (Inr h, s)"
proof -
  let ?s0 = "\<lparr>ld_calls = [], ld_mem = m\<rparr>"
  have "runs (efi_main demo_firmware version img systab) ?s0 (\<lambda>h s. True)"
    unfolding efi_main_def runs_andthen runs_print runs_efi
    apply (rule runs_post [OF demo_read])
     apply (simp add: owned_def demo_reply_def own_step_def freed_base_def call_range_def)
    apply (elim conjE)
    apply (simp only: case_prod_conv runs_andthen runs_print)
    apply (rule runs_post [OF demo_elf])
      apply (simp add: demo_defs owned_append)
     apply simp
    apply (elim conjE)
    apply (simp only: runs_efi)
    apply (rule runs_post [OF demo_alloc_pages [OF refl refl]])
     apply (simp add: demo_defs owned_append)
    apply (elim conjE)
    apply (rule runs_post [OF demo_alloc_pages [OF _ refl]])
      apply assumption
     apply (simp add: demo_defs owned_append)
    apply (elim conjE)
    apply (simp only: Let_def runs_andthen)
    apply (rule runs_post [OF demo_bootinfo])
    apply (simp only: runs_efi)
    apply (simp add: demo_reply_def plain_reply_def EFI_BUFFER_TOO_SMALL_def EFI_ERROR_BIT_def)
    apply (simp only: runs_andthen)
    apply (rule runs_post [OF demo_size_buffers])
     apply (simp add: demo_defs owned_append)
    apply (simp add: runs_andthen runs_print demo_sizes_def)
    apply (rule runs_post [OF demo_exit_loop])
     apply (simp add: owned_append own_step_def freed_base_def call_range_def)
    apply (simp add: jump_to_kernel_def runs_peek)
    done
  from runs_exD [OF this] show ?thesis by simp
qed

end
