(* ===== verification/Boot.thy ===== *)
theory Boot
  imports Handoff LoaderTrace DemoFirmware
begin

text \<open>
  The whole run of the loader: the state of memory and registers at the jump into the kernel
  (\<open>handed_over\<close>).  The firmware of \<open>DemoFirmware\<close> keeps the contract and lets the loader get there.
\<close>

subsection \<open>The whole run\<close>

lemma file_read_later:
  assumes "before_exit m" and "m s = (res, s')" and "file_read fw (ld_calls s) raw"
  shows "file_read fw (ld_calls s') raw"
  using before_exitE [OF assms(1,2)] assms(3) by (metis file_read_append)

lemma load_kernel_elfD:
  assumes "efi_contract fw" and "load_kernel_elf fw buf fsize s = (Inr plan, s')"
    and "holding ((buf, raw) # K) s" and "length raw = unat fsize"
  shows "elf_plan_load raw fsize = Some (Inr plan) \<and> plan_wf (length raw) plan \<and>
    holding ((buf, raw) # map (segment_block raw) (rev (segs plan)) @ K) s'"
proof -
  have b: "ram_bytes (ld_mem s) buf (unat fsize) = raw" using holding_bytes [OF assms(3)] assms(4) by simp
  from assms(2) have e: "elf_plan_load raw fsize = Some (Inr plan)"
    and l: "load_segments fw buf (segs plan) s = (Inr (), s')"
    unfolding load_kernel_elf_def
    by (auto elim!: andthenE dest!: peekD giveD simp: b split: option.splits sum.splits)
  have w: "plan_wf (length raw) plan"
    using elf_plan_load_accepts [OF assms(4), of plan] e image_plan_wf_aux [of raw] by simp
  then have "\<forall>seg\<in>set (segs plan). segment_wf (length raw) seg" by (simp add: plan_wf_def)
  from load_segmentsD [OF assms(1) this l assms(3)] e w show ?thesis by simp
qed

text \<open>
  The state at the jump: \<open>raw\<close> is the kernel file as it was read, the segments of its plan are in
  memory, the boot information is complete, and its memory map is the translation of the map whose
  key the successful exit used.  Everything the kernel is given is disjoint.
\<close>

definition handed_over :: "firmware \<Rightarrow> u64 \<Rightarrow> u64 \<Rightarrow> handoff \<Rightarrow> loader \<Rightarrow> u8 list \<Rightarrow> elf_load_plan \<Rightarrow>
    sypas_memmap_entry list \<Rightarrow> bool" where
  "handed_over fw img systab h s raw plan out \<longleftrightarrow>
    (let bi = decode_bootinfo (ram_bytes (ld_mem s) (ho_rdi h) SYPAS_BOOTINFO_V1_0_SIZE) in
     file_read fw (ld_calls s) raw \<and> length raw < 2 ^ 64 \<and>
     elf_plan_load raw (of_nat (length raw)) = Some (Inr plan) \<and> ho_rip h = plan_entry plan \<and>
     (\<forall>seg\<in>set (segs plan). ram_bytes (ld_mem s) (seg_page_base seg)
        (unat (seg_page_end seg - seg_page_base seg)) = segment_image raw seg) \<and>
     bi_magic bi = SYPAS_BOOT_MAGIC \<and> bi_version_major bi = SYPAS_BOOT_VERSION_MAJOR \<and>
     bi_version_minor bi = SYPAS_BOOT_VERSION_MINOR \<and> unat (bi_size bi) = SYPAS_BOOTINFO_V1_0_SIZE \<and>
     bi_kernel_phys_base bi = phys_base plan \<and> bi_kernel_size bi = phys_end plan - phys_base plan \<and>
     bi_stack_size bi = 16 * EFI_PAGE_SIZE \<and> ho_rsp h = bi_stack_base bi + bi_stack_size bi \<and>
     bi_efi_system_table bi = systab \<and> bi_cmdline bi = replicate 256 0 \<and>
     map_entries (ld_mem s) (bi_memmap bi) (unat (bi_memmap_count bi)) = out \<and>
     region_ok (bi_memmap bi) (length out * sizeof_entry) \<and>
     (\<exists>a. xa_img a = img \<and> xa_plan a = plan \<and> exited_with fw a (ld_calls s) out) \<and>
     sorted_wrt clear_of ((ho_rdi h, SYPAS_BOOTINFO_V1_0_SIZE) #
       (bi_memmap bi, length out * sizeof_entry) # (bi_stack_base bi, 65536) #
       map (\<lambda>seg. (seg_page_base seg, unat (seg_page_end seg - seg_page_base seg))) (segs plan)))"

text \<open>The memory the kernel is given, and that a range lies in memory the loader owns.\<close>

definition handoff_ranges :: "u64 \<Rightarrow> sypas_bootinfo \<Rightarrow> elf_load_plan \<Rightarrow> range list" where
  "handoff_ranges bi b plan = (bi, SYPAS_BOOTINFO_V1_0_SIZE) #
     (bi_memmap b, unat (bi_memmap_count b) * sizeof_entry) # (bi_stack_base b, unat (bi_stack_size b)) #
     map (\<lambda>seg. (seg_page_base seg, unat (seg_page_end seg - seg_page_base seg))) (segs plan)"

definition inside_owned :: "call_record \<Rightarrow> range \<Rightarrow> bool" where
  "inside_owned tr rg \<longleftrightarrow> (\<exists>rg'\<in>set (owned tr). \<forall>x. within x rg \<longrightarrow> within x rg')"

lemma inside_owned_part:
  assumes "(a, n) \<in> set (owned tr)" and "region_ok a n" and "off + k \<le> n" and "off < n"
  shows "inside_owned tr (a + of_nat off, k)"
proof -
  have "unat (a + of_nat off) = unat a + off"
    using assms by (intro unat_add_of_nat) (simp add: region_ok_def)
  with assms show ?thesis by (auto simp: inside_owned_def within_def in_range_def intro!: bexI [of _ "(a, n)"])
qed

lemma inside_owned_start: "(a, n) \<in> set (owned tr) \<Longrightarrow> k \<le> n \<Longrightarrow> inside_owned tr (a, k)"
  by (auto simp: inside_owned_def within_def in_range_def intro!: bexI [of _ "(a, n)"])

lemma clear_of_part:
  assumes "clear_of (a, n) rg" and "region_ok a n" and "off + k \<le> n" and "off < n"
  shows "clear_of (a + of_nat off, k) rg"
proof -
  have "unat (a + of_nat off) = unat a + off"
    using assms by (intro unat_add_of_nat) (simp add: region_ok_def)
  with assms show ?thesis by (auto simp: clear_of_def split: prod.splits)
qed

lemma le_val_0D: "le_val bs = 0 \<Longrightarrow> bs = replicate (length bs) 0"
  by (induction bs) (auto simp: unat_eq_zero)

lemma bi_value_take: "SYPAS_BOOTINFO_V1_0_SIZE \<le> length bs \<Longrightarrow>
    bi_value (take SYPAS_BOOTINFO_V1_0_SIZE bs) f = bi_value bs f"
  using bi_field_inside [of f] by (simp add: bi_value_def field_at_def drop_take min_def)

lemma segment_image_length:
  "segment_wf (length raw) seg \<Longrightarrow>
   length (segment_image raw seg) = unat (seg_page_end seg - seg_page_base seg)"
  using segment_sizes(5) [of "length raw" seg] unfolding segment_image_def
  by (subst length_patch) (auto simp: segment_wf_def)


lemma pair_caseE:
  "(case x of (a, b) \<Rightarrow> k a b) s = r \<Longrightarrow> (\<And>a b. x = (a, b) \<Longrightarrow> k a b s = r \<Longrightarrow> thesis) \<Longrightarrow> thesis"
  by (cases x) simp

text \<open>The stages of a run that reaches the jump.\<close>

lemma efi_main_stages:
  assumes "efi_main fw version img systab s0 = (Inr h, s')"
  obtains raw_buf fsize plan bi_page stack q mm z s1 s2 s3 s4 s5 s6 s7 s8 s9 s10 s11 s12 u1 u2 u3 u4 u5 u6 u7 where
    "print fw (banner version) s0 = (Inr u1, s1)" "efi fw (SetWatchdogTimer 0 0 0 0) s1 = (Inr u2, s2)"
    "read_kernel_file fw img s2 = (Inr (raw_buf, fsize), s3)"
    "print fw (wide ''loaded '' @ KERNEL_PATH @ wide '', parsing...'' @ eol) s3 = (Inr u3, s4)"
    "load_kernel_elf fw raw_buf fsize s4 = (Inr plan, s5)" "efi fw (FreePool raw_buf) s5 = (Inr u4, s6)"
    "or_die fw (AllocatePages AllocateAnyPages EfiLoaderData 1 0) (wide ''bootinfo alloc failed'') s6 = (Inr bi_page, s7)"
    "or_die fw (AllocatePages AllocateAnyPages EfiLoaderData 16 0) (wide ''stack alloc failed'') s7 = (Inr stack, s8)"
    "fill_bootinfo fw systab (rp_out bi_page) plan (rp_out stack) s8 = (Inr u5, s9)"
    "efi fw (GetMemoryMap 0 0) s9 = (Inr q, s10)"
    "size_buffers fw 4 (rp_size q) (rp_dsz q) s10 = (Inr (mm, z), s11)"
    "print fw (wide ''entering SYPAS kernel...'' @ eol @ eol) s11 = (Inr u6, s12)"
    "exit_loop fw \<lparr>xa_img = img, xa_plan = plan, xa_bi = rp_out bi_page, xa_efimap = mm,
        xa_map_bytes = ms_map_bytes z, xa_smap = mm + ms_map_bytes z, xa_cap = ms_sypas_cap z\<rparr> 3 s12 = (Inr u7, s')"
    "h = \<lparr>ho_rip = plan_entry plan, ho_rsp = rp_out stack + of_nat (bi_load (rp_out bi_page) BI_stack_size (ld_mem s')),
       ho_rdi = rp_out bi_page, ho_rbp = 0\<rparr>"
  using assms unfolding efi_main_def Let_def
  apply (elim andthenE if_dieE pair_caseE)
  apply (simp only: jump_to_kernel_def)
  apply (drule peekD)
  apply (rule that)
               apply (assumption | simp only:)+
  done


lemma bi_holding_read:
  assumes "bi_holding bi env H s" and "env f = Some v"
  shows "bi_value (ram_bytes (ld_mem s) bi SYPAS_BOOTINFO_V1_0_SIZE) f = v" and "bi_load bi f (ld_mem s) = v"
proof -
  obtain bs where bs: "length bs = 4096" "holding ((bi, bs) # H) s" "bi_env bs env"
    using assms(1) by (auto simp: bi_holding_def)
  have b: "ram_bytes (ld_mem s) bi (length bs) = bs" using holding_bytes [OF bs(2)] by simp
  have "ram_bytes (ld_mem s) (bi + of_nat 0) SYPAS_BOOTINFO_V1_0_SIZE = take SYPAS_BOOTINFO_V1_0_SIZE (drop 0 bs)"
    by (rule ram_bytes_part [OF b]) (simp add: bs(1) SYPAS_BOOTINFO_V1_0_SIZE_def)
  then show "bi_value (ram_bytes (ld_mem s) bi SYPAS_BOOTINFO_V1_0_SIZE) f = v"
    using bi_value_take [of bs f] bs(1,3) assms(2) by (simp add: bi_env_def SYPAS_BOOTINFO_V1_0_SIZE_def)
  have "bi_offset f + bi_sizeof f \<le> length bs"
    using bi_field_inside [of f] bs(1) by (simp add: SYPAS_BOOTINFO_V1_0_SIZE_def)
  from ram_bytes_part [OF b this] show "bi_load bi f (ld_mem s) = v"
    using bs(3) assms(2) by (simp add: bi_load_def bi_env_def bi_value_def field_at_def)
qed

text \<open>The blocks at the jump.\<close>

lemma efi_main_blocks:
  assumes "efi_contract fw" and "efi_main fw version img systab \<lparr>ld_calls = [], ld_mem = m\<rparr> = (Inr h, s)"
  shows "\<exists>raw plan out a n sbs stack.
    file_read fw (ld_calls s) raw \<and> length raw < 2 ^ 64 \<and>
    elf_plan_load raw (of_nat (length raw)) = Some (Inr plan) \<and> plan_wf (length raw) plan \<and> exited_with fw a (ld_calls s) out \<and>
    xa_img a = img \<and> xa_plan a = plan \<and> xa_bi a = ho_rdi h \<and> xa_smap a = xa_efimap a + xa_map_bytes a \<and>
    unat (xa_map_bytes a) + unat (xa_cap a) * sizeof_entry \<le> n \<and> 0 < unat (xa_cap a) \<and> length sbs = 65536 \<and>
    ho_rip h = plan_entry plan \<and> ho_rsp h = stack + of_nat (bi_load (ho_rdi h) BI_stack_size (ld_mem s)) \<and>
    map_ready a (header_env systab plan stack) ((stack, sbs) # map (segment_block raw) (rev (segs plan))) n out s"
  using assms(2)
proof (rule efi_main_stages)
  fix bi_page stack q :: efi_reply and z :: map_sizes and plan :: elf_load_plan and
    s1 s2 s3 s4 s5 s6 s7 s8 s9 s10 s11 s12 :: loader and raw_buf fsize mm u1 u2 u3 u4 u5 u6 u7
  let ?bi = "rp_out bi_page" and ?stack = "rp_out stack" and ?env = "header_env systab plan (rp_out stack)"
  let ?a = "\<lparr>xa_img = img, xa_plan = plan, xa_bi = rp_out bi_page, xa_efimap = mm,
        xa_map_bytes = ms_map_bytes z, xa_smap = mm + ms_map_bytes z, xa_cap = ms_sypas_cap z\<rparr>"
  assume r: "read_kernel_file fw img s2 = (Inr (raw_buf, fsize), s3)"
    "print fw (wide ''loaded '' @ KERNEL_PATH @ wide '', parsing...'' @ eol) s3 = (Inr u3, s4)"
    "load_kernel_elf fw raw_buf fsize s4 = (Inr plan, s5)" "efi fw (FreePool raw_buf) s5 = (Inr u4, s6)"
    "or_die fw (AllocatePages AllocateAnyPages EfiLoaderData 1 0) (wide ''bootinfo alloc failed'') s6 = (Inr bi_page, s7)"
    "or_die fw (AllocatePages AllocateAnyPages EfiLoaderData 16 0) (wide ''stack alloc failed'') s7 = (Inr stack, s8)"
    "fill_bootinfo fw systab ?bi plan ?stack s8 = (Inr u5, s9)"
    "efi fw (GetMemoryMap 0 0) s9 = (Inr q, s10)"
    "size_buffers fw 4 (rp_size q) (rp_dsz q) s10 = (Inr (mm, z), s11)"
    "print fw (wide ''entering SYPAS kernel...'' @ eol @ eol) s11 = (Inr u6, s12)"
    "exit_loop fw ?a 3 s12 = (Inr u7, s)"
    and h: "h = \<lparr>ho_rip = plan_entry plan, ho_rsp = ?stack + of_nat (bi_load ?bi BI_stack_size (ld_mem s)),
       ho_rdi = ?bi, ho_rbp = 0\<rparr>"
  note keeping = keepingD [OF keeping_print [OF assms(1)]]
  obtain raw where raw: "length raw = unat fsize" "file_read fw (ld_calls s3) raw" "holding [(raw_buf, raw)] s3"
    using read_kernel_fileD [OF assms(1) r(1)] by blast
  have h4: "holding [(raw_buf, raw)] s4" by (rule keeping [OF r(2) raw(3)])
  let ?S = "map (segment_block raw) (rev (segs plan))"
  note elf = load_kernel_elfD [OF assms(1) r(3) h4 raw(1)]
  have h6: "holding ?S s6"
    using freeD [OF assms(1) r(4), of raw_buf raw ?S] elf by (simp add: freed_base_def)
  obtain bs where bs: "length bs = 4096" "holding ((?bi, bs) # ?S) s7"
    using allocationD [OF assms(1) r(5), of ?bi 4096 ?S] h6 by (auto simp: call_range_def)
  obtain sbs where sbs: "length sbs = 65536" "holding ((?stack, sbs) # (?bi, bs) # ?S) s8"
    using allocationD [OF assms(1) r(6), of ?stack 65536 "(?bi, bs) # ?S"] bs(2) by (auto simp: call_range_def)
  let ?H = "(?stack, sbs) # ?S"
  have e8: "\<exists>bs. length bs = 4096 \<and> holding ((?bi, bs) # ?H) s8" using bs(1) sbs(2) by (auto simp: holding_swap)
  have b9: "bi_holding ?bi ?env ?H s9" by (rule ensuresD [OF fill_bootinfo_ensures [OF assms(1)] r(7) e8])
  have b10: "bi_holding ?bi ?env ?H s10"
    by (rule ensuresD [OF ensures_bi_quiet [OF keeping_efi [OF assms(1)]] r(8) b9]) simp
  then obtain bs' where bs': "length bs' = 4096" "holding ((?bi, bs') # ?H) s10" "bi_env bs' ?env"
    by (auto simp: bi_holding_def)
  obtain mbs mmsize dsz where mbs: "map_buffer_sizes mmsize dsz = Some z"
    "length mbs = unat (ms_total_pages z) * 4096" "holding ((mm, mbs) # (?bi, bs') # ?H) s11"
    using size_buffersD [OF assms(1) r(9) bs'(2)] by blast
  have "bi_holding ?bi ?env ((mm, mbs) # ?H) s11"
    using bs'(1,3) mbs(3) by (auto simp: bi_holding_def holding_swap)
  then have b12: "bi_holding ?bi ?env ((mm, mbs) # ?H) s12"
    by (rule ensuresD [OF ensures_bi_quiet [OF keeping_print [OF assms(1)]] r(10)])
  note D = map_buffer_sizesD [OF mbs(1)]
  have room: "unat (ms_map_bytes z) + unat (ms_sypas_cap z) * sizeof_entry \<le> length mbs"
    using mbs(2) D(1-3) by (simp add: sizeof_entry_def)
  have b12a: "bi_holding (xa_bi ?a) ?env ((xa_efimap ?a, mbs) # ?H) s12" using b12 by simp
  have rooma: "unat (xa_map_bytes ?a) + unat (xa_cap ?a) * sizeof_entry \<le> length mbs" using room by simp
  obtain out new where fin: "map_ready ?a ?env ?H (length mbs) out s" "exited_with fw ?a (ld_calls s) out"
    "ld_calls s = ld_calls s12 @ new"
    using exit_loopD [OF assms(1) _ rooma b12a, of 3 s] r(11) by auto
  have "file_read fw (ld_calls s12) raw"
    using file_read_later [OF before_exit_print r(10)] file_read_later [OF before_exit_size_buffers r(9)]
      extends_calls [OF r(8)] file_read_later [OF before_exit_fill_bootinfo r(7)]
      file_read_later [OF before_exit_or_die r(6)] file_read_later [OF before_exit_or_die r(5)]
      extends_calls [OF r(4)] file_read_later [OF before_exit_load_kernel_elf r(3)]
      file_read_later [OF before_exit_print r(2)] raw(2) by simp
  then have fr: "file_read fw (ld_calls s) raw" using fin(3) file_read_append by simp
  have "elf_plan_load raw (of_nat (length raw)) = Some (Inr plan)" using elf raw(1) by simp
  moreover have "length raw < 2 ^ 64" using raw(1) unat_u64_less [of fsize] by simp
  ultimately show ?thesis using fr elf fin sbs(1) rooma h D(6)
    by - (rule exI [of _ raw], rule exI [of _ plan], rule exI [of _ out], rule exI [of _ ?a],
      rule exI [of _ "length mbs"], rule exI [of _ sbs], rule exI [of _ ?stack], simp)
qed


lemma u_of_nat_unat [simp]: "(of_nat (unat (x :: 'a::len word)) :: 'a word) = x"
  by simp

lemma header_members:
  assumes "bi_holding bi ((header_env systab plan stack)(BI_memmap \<mapsto> mmv, BI_memmap_count \<mapsto> cnt)) H s"
    and "b = decode_bootinfo (ram_bytes (ld_mem s) bi SYPAS_BOOTINFO_V1_0_SIZE)"
  shows "bi_magic b = SYPAS_BOOT_MAGIC" "bi_version_major b = SYPAS_BOOT_VERSION_MAJOR"
    "bi_version_minor b = SYPAS_BOOT_VERSION_MINOR" "unat (bi_size b) = SYPAS_BOOTINFO_V1_0_SIZE"
    "bi_kernel_phys_base b = phys_base plan" "bi_kernel_size b = phys_end plan - phys_base plan"
    "bi_stack_base b = stack" "bi_stack_size b = 16 * EFI_PAGE_SIZE" "bi_efi_system_table b = systab"
    "bi_cmdline b = replicate 256 0" "bi_memmap b = of_nat mmv" "bi_memmap_count b = of_nat cnt"
    "of_nat (bi_load bi BI_stack_size (ld_mem s)) = bi_stack_size b"
proof -
  note rd = bi_holding_read [OF assms(1)]
  have val: "bi_value (ram_bytes (ld_mem s) bi SYPAS_BOOTINFO_V1_0_SIZE) BI_size = 360"
    by (rule rd(1)) (simp add: header_env_def SYPAS_BOOTINFO_V1_0_SIZE_def)
  show "unat (bi_size b) = SYPAS_BOOTINFO_V1_0_SIZE"
    by (simp add: assms(2) decode_bootinfo_def val) (simp add: SYPAS_BOOTINFO_V1_0_SIZE_def)
  show "bi_magic b = SYPAS_BOOT_MAGIC" "bi_version_major b = SYPAS_BOOT_VERSION_MAJOR"
    "bi_version_minor b = SYPAS_BOOT_VERSION_MINOR"
    "bi_kernel_phys_base b = phys_base plan" "bi_kernel_size b = phys_end plan - phys_base plan"
    "bi_stack_base b = stack" "bi_efi_system_table b = systab"
    "bi_memmap b = of_nat mmv" "bi_memmap_count b = of_nat cnt"
    by (simp_all add: assms(2) decode_bootinfo_def rd(1) header_env_def)
  show z: "bi_stack_size b = 16 * EFI_PAGE_SIZE"
    by (simp add: assms(2) decode_bootinfo_def rd(1) header_env_def EFI_PAGE_SIZE_def)
  have "bi_load bi BI_stack_size (ld_mem s) = unat (16 * EFI_PAGE_SIZE)" by (rule rd(2)) (simp add: header_env_def)
  then show "of_nat (bi_load bi BI_stack_size (ld_mem s)) = bi_stack_size b" using z by simp
  let ?bs = "ram_bytes (ld_mem s) bi SYPAS_BOOTINFO_V1_0_SIZE"
  have "le_val (take 256 (drop 104 ?bs)) = 0"
    using rd(1) [of BI_cmdline 0] by (simp add: header_env_def bi_value_def field_at_def bi_offset_values bi_sizeof_values)
  from le_val_0D [OF this] have z: "take 256 (drop 104 ?bs) = replicate (length (take 256 (drop 104 ?bs))) 0" .
  have "length (take 256 (drop 104 ?bs)) = 256" by (simp add: SYPAS_BOOTINFO_V1_0_SIZE_def)
  with z have "take 256 (drop 104 ?bs) = replicate 256 0" by (simp only:)
  then show "bi_cmdline b = replicate 256 0"
    by (simp add: assms(2) decode_bootinfo_def bi_offset_values bi_sizeof_values)
qed

text \<open>
  What the blocks held at the jump say about the parts of the hand-over: \<open>bi\<close> is the boot information
  page, \<open>ef\<close> the buffer of the memory map with the translated entries at \<open>off\<close>, \<open>stack\<close> the stack.
\<close>

definition plan_ranges :: "elf_load_plan \<Rightarrow> range list" where
  "plan_ranges plan = map (\<lambda>seg. (seg_page_base seg, unat (seg_page_end seg - seg_page_base seg))) (segs plan)"

definition staged :: "loader \<Rightarrow> u8 list \<Rightarrow> elf_load_plan \<Rightarrow> block \<Rightarrow> block \<Rightarrow> block \<Rightarrow> bool" where
  "staged s raw plan ib mb sb \<longleftrightarrow> plan_wf (length raw) plan \<and> length (snd ib) = 4096 \<and> length (snd sb) = 65536 \<and>
     holding (ib # mb # sb # map (segment_block raw) (rev (segs plan))) s"

lemma staged_block:
  assumes "staged s raw plan ib mb sb" and "blk \<in> set (ib # mb # sb # map (segment_block raw) (segs plan))"
  shows "extent blk \<in> set (owned (ld_calls s))" and "region_ok (fst blk) (length (snd blk))"
    and "ram_bytes (ld_mem s) (fst blk) (length (snd blk)) = snd blk"
proof -
  have "block_at (ld_calls s) (ld_mem s) blk"
    using assms by (intro blocks_member [of _ _ "ib # mb # sb # map (segment_block raw) (rev (segs plan))"])
      (auto simp: staged_def holding_def)
  then show "extent blk \<in> set (owned (ld_calls s))" and "region_ok (fst blk) (length (snd blk))"
    and "ram_bytes (ld_mem s) (fst blk) (length (snd blk)) = snd blk" by (simp_all add: block_at_def)
qed

lemma staged_segment:
  assumes "staged s raw plan ib mb sb" and "seg \<in> set (segs plan)"
  shows "extent (segment_block raw seg) = (seg_page_base seg, unat (seg_page_end seg - seg_page_base seg))"
    and "ram_bytes (ld_mem s) (seg_page_base seg) (unat (seg_page_end seg - seg_page_base seg)) = segment_image raw seg"
proof -
  have len: "length (segment_image raw seg) = unat (seg_page_end seg - seg_page_base seg)"
    using segment_image_length assms by (simp add: staged_def plan_wf_def)
  then show "extent (segment_block raw seg) = (seg_page_base seg, unat (seg_page_end seg - seg_page_base seg))"
    by (simp add: extent_def segment_block_def)
  show "ram_bytes (ld_mem s) (seg_page_base seg) (unat (seg_page_end seg - seg_page_base seg)) = segment_image raw seg"
    using staged_block(3) [OF assms(1), of "segment_block raw seg"] assms(2) len by (simp add: segment_block_def)
qed

lemma staged_clear:
  assumes "staged s raw plan (bi, ibs) (ef, mbs) (stack, sbs)" and "off + k \<le> length mbs" and "off < length mbs"
  shows "sorted_wrt clear_of ((bi, SYPAS_BOOTINFO_V1_0_SIZE) # (ef + of_nat off, k) # (stack, 65536) # plan_ranges plan)"
proof -
  let ?S = "map (segment_block raw) (rev (segs plan))"
  have R: "map extent ?S = rev (plan_ranges plan)"
    using staged_segment(1) [OF assms(1)] by (simp add: rev_map plan_ranges_def)
  have "sorted_wrt clear_of (map extent ((bi, ibs) # (ef, mbs) # (stack, sbs) # ?S))"
    using assms(1) by (simp add: staged_def holding_def blocks_def apart_def [abs_def] sorted_wrt_map)
  then have "sorted_wrt clear_of ((bi, 4096) # (ef, length mbs) # (stack, 65536) # rev (plan_ranges plan))"
    using assms(1) by (simp only: list.map R extent_def fst_conv snd_conv staged_def)
  note ap = this [unfolded sorted_wrt.simps(2) [of clear_of]]
  have "(\<lambda>x y. clear_of y x) = clear_of" by (intro ext) (rule clear_of_sym)
  then have sR: "sorted_wrt clear_of (plan_ranges plan)" using ap by (simp only: sorted_wrt_rev)
  have reg: "region_ok ef (length mbs)" using staged_block(2) [OF assms(1), of "(ef, mbs)"] by simp
  have inmap: "clear_of (ef + of_nat off, k) rg" if "clear_of (ef, length mbs) rg" for rg
    by (rule clear_of_part [OF that reg assms(2,3)])
  have inbi: "clear_of (bi, SYPAS_BOOTINFO_V1_0_SIZE) rg" if "clear_of (bi, 4096) rg" for rg
    using that by (auto simp: clear_of_def SYPAS_BOOTINFO_V1_0_SIZE_def split: prod.splits)
  have "clear_of (bi, SYPAS_BOOTINFO_V1_0_SIZE) (ef + of_nat off, k)"
    using ap inmap inbi clear_of_sym by (meson list.set_intros(1))
  with ap inmap inbi sR show ?thesis
    unfolding sorted_wrt.simps(2) [of clear_of] by (simp only: list.set set_rev) blast
qed

lemma staged_owned:
  assumes "staged s raw plan (bi, ibs) (ef, mbs) (stack, sbs)" and "off + k \<le> length mbs" and "off < length mbs"
    and "rg \<in> set ((bi, SYPAS_BOOTINFO_V1_0_SIZE) # (ef + of_nat off, k) # (stack, 65536) # plan_ranges plan)"
  shows "inside_owned (ld_calls s) rg"
proof -
  note mine = staged_block(1) [OF assms(1)]
  have reg: "region_ok ef (length mbs)" using staged_block(2) [OF assms(1), of "(ef, mbs)"] by simp
  have len: "length ibs = 4096" "length sbs = 65536" using assms(1) by (simp_all add: staged_def)
  have "inside_owned (ld_calls s) (bi, SYPAS_BOOTINFO_V1_0_SIZE)"
    using mine [of "(bi, ibs)"] len
    by (intro inside_owned_start [of _ 4096]) (simp_all add: extent_def SYPAS_BOOTINFO_V1_0_SIZE_def)
  moreover have "inside_owned (ld_calls s) (ef + of_nat off, k)"
    using mine [of "(ef, mbs)"] by (intro inside_owned_part [OF _ reg assms(2,3)]) (simp add: extent_def)
  moreover have "inside_owned (ld_calls s) (stack, 65536)"
    using mine [of "(stack, sbs)"] len by (intro inside_owned_start [of _ 65536]) (simp_all add: extent_def)
  moreover have "inside_owned (ld_calls s) (seg_page_base seg, unat (seg_page_end seg - seg_page_base seg))"
    if "seg \<in> set (segs plan)" for seg
    using mine [of "segment_block raw seg"] staged_segment(1) [OF assms(1) that] that
    by (auto intro: inside_owned_start)
  ultimately show ?thesis using assms(4) by (auto simp: plan_ranges_def)
qed

lemma staged_entries:
  assumes "staged s raw plan ib (ef, mbs) sb"
    and "take (length out * sizeof_entry) (drop off mbs) = concat (map encode_entry out)"
    and "off + length out * sizeof_entry \<le> length mbs" and "off < length mbs"
  shows "map_entries (ld_mem s) (ef + of_nat off) (length out) = out"
    and "region_ok (ef + of_nat off) (length out * sizeof_entry)"
proof -
  have reg: "region_ok ef (length mbs)" and mb: "ram_bytes (ld_mem s) ef (length mbs) = mbs"
    using staged_block(2,3) [OF assms(1), of "(ef, mbs)"] by simp_all
  show "map_entries (ld_mem s) (ef + of_nat off) (length out) = out"
    using ram_bytes_part [OF mb assms(3)] assms(2) by (intro map_entries_encoded) simp
  have "unat (ef + of_nat off) = unat ef + off"
    using reg assms(4) by (intro unat_add_of_nat) (simp add: region_ok_def)
  then show "region_ok (ef + of_nat off) (length out * sizeof_entry)"
    using reg assms(3) by (simp add: region_ok_def)
qed

lemma handed_over_aux:
  assumes "efi_contract fw" and "efi_main fw version img systab \<lparr>ld_calls = [], ld_mem = m\<rparr> = (Inr h, s)"
  shows "\<exists>raw plan out. handed_over fw img systab h s raw plan out \<and>
    (\<forall>rg\<in>set (handoff_ranges (ho_rdi h) (decode_bootinfo (ram_bytes (ld_mem s) (ho_rdi h)
      SYPAS_BOOTINFO_V1_0_SIZE)) plan). inside_owned (ld_calls s) rg)"
proof -
  obtain raw plan out a n sbs stack where
    f: "file_read fw (ld_calls s) raw" "elf_plan_load raw (of_nat (length raw)) = Some (Inr plan)"
      "plan_wf (length raw) plan" "exited_with fw a (ld_calls s) out" "length raw < 2 ^ 64" and
    a: "xa_img a = img" "xa_plan a = plan" "xa_bi a = ho_rdi h" "xa_smap a = xa_efimap a + xa_map_bytes a"
      "unat (xa_map_bytes a) + unat (xa_cap a) * sizeof_entry \<le> n" "0 < unat (xa_cap a)" and
    h: "length sbs = 65536" "ho_rip h = plan_entry plan"
      "ho_rsp h = stack + of_nat (bi_load (ho_rdi h) BI_stack_size (ld_mem s))" and
    ready: "map_ready a (header_env systab plan stack)
      ((stack, sbs) # map (segment_block raw) (rev (segs plan))) n out s"
    using efi_main_blocks [OF assms] by blast
  let ?S = "map (segment_block raw) (rev (segs plan))" and ?bi = "ho_rdi h" and ?off = "unat (xa_map_bytes a)"
  let ?env = "(header_env systab plan stack)(BI_memmap \<mapsto> unat (xa_smap a), BI_memmap_count \<mapsto> length out)"
  define b where "b = decode_bootinfo (ram_bytes (ld_mem s) ?bi SYPAS_BOOTINFO_V1_0_SIZE)"
  obtain mbs where mbs: "length mbs = n" "bi_holding ?bi ?env ((xa_efimap a, mbs) # (stack, sbs) # ?S) s"
    "take (length out * sizeof_entry) (drop ?off mbs) = concat (map encode_entry out)"
    using ready a(3) by (auto simp: map_ready_def)
  obtain ibs where st: "staged s raw plan (?bi, ibs) (xa_efimap a, mbs) (stack, sbs)"
    using mbs(2) f(3) h(1) by (auto simp: bi_holding_def staged_def)
  note M = header_members [OF mbs(2) b_def]
  have cap: "length out \<le> unat (xa_cap a)" using f(4) translate_within by (auto simp: exited_with_def)
  have room: "?off + length out * sizeof_entry \<le> length mbs" "?off < length mbs"
    using a(5,6) cap mbs(1) by (simp_all add: sizeof_entry_def)
  have mm: "bi_memmap b = xa_efimap a + of_nat ?off" "unat (bi_memmap_count b) = length out"
    using M(11,12) a(4) cap unat_u64_less [of "xa_cap a"] by (simp_all add: unat_of_nat)
  note E = staged_entries [OF st mbs(3) room, folded mm(1)]
  have ord: "sorted_wrt clear_of ((?bi, SYPAS_BOOTINFO_V1_0_SIZE) #
       (bi_memmap b, length out * sizeof_entry) # (bi_stack_base b, 65536) # plan_ranges plan)"
    using staged_clear [OF st room] by (simp only: mm(1) M(7))
  have "handed_over fw img systab h s raw plan out"
    unfolding handed_over_def Let_def b_def [symmetric]
    using f(1,2,4,5) a(1,2) h M mm(2) E staged_segment(2) [OF st] ord [unfolded plan_ranges_def] by auto
  moreover have "set (handoff_ranges ?bi b plan) = set ((?bi, SYPAS_BOOTINFO_V1_0_SIZE) #
      (xa_efimap a + of_nat ?off, length out * sizeof_entry) # (stack, 65536) # plan_ranges plan)"
    by (simp add: handoff_ranges_def plan_ranges_def mm M(7,8) EFI_PAGE_SIZE_def)
  ultimately show ?thesis using staged_owned [OF st room] unfolding b_def by blast
qed

text \<open>
  C4: under the firmware's contract, a run of the loader that reaches the jump has read a file the
  validator accepts, has its segments in memory exactly as the file and zeroes say, and enters at
  its entry point with a complete v1.0 boot information structure in \<^verbatim>\<open>rdi\<close>, the top of a 64 KiB stack
  in \<^verbatim>\<open>rsp\<close>, and a memory map that is the translation of the firmware map whose key ended the boot
  services; the structure, the map, the stack and the segments are pairwise disjoint.
\<close>

theorem efi_main_hands_over:
  assumes "efi_contract fw" and "efi_main fw version img systab \<lparr>ld_calls = [], ld_mem = m\<rparr> = (Inr h, s)"
  shows "\<exists>raw plan out. handed_over fw img systab h s raw plan out"
  using handed_over_aux [OF assms] by blast

theorem efi_main_hands_over_witness:
  "\<exists>h s raw plan out. efi_main demo_firmware [] 1 2 \<lparr>ld_calls = [], ld_mem = (\<lambda>_. 0)\<rparr> = (Inr h, s) \<and>
     handed_over demo_firmware 1 2 h s raw plan out"
proof -
  obtain h s where run: "efi_main demo_firmware [] 1 2 \<lparr>ld_calls = [], ld_mem = (\<lambda>_. 0)\<rparr> = (Inr h, s)"
    using demo_run by blast
  from efi_main_hands_over [OF demo_contract run] run show ?thesis by blast
qed

end
