(* ===== verification/PortIo.thy ===== *)
theory PortIo
  imports Prelude
begin

text \<open>
  The x86 port input and output primitives of src/kernel/include/io.h. The hardware behind the
  ports is not code of this repository: every access is appended to the bus trace, and what an
  \<open>in\<close> instruction returns is a parameter, a function of everything that has happened on the
  bus before it. Two further events record what the interrupt controllers do on their own: they
  deliver a line that was really raised, or the vector of a line that has gone away.
\<close>

section \<open>The bus trace\<close>

datatype bus_event =
    Out u16 u8          \<comment> \<open>the processor wrote this byte to this port\<close>
  | In u16 u8           \<comment> \<open>the processor read this byte from this port\<close>
  | Accept nat          \<comment> \<open>the controllers delivered this line and marked it in service\<close>
  | Spurious nat         \<comment> \<open>the controllers delivered the vector of this line with nothing in service on its chip\<close>

type_synonym device = "bus_event list \<Rightarrow> u16 \<Rightarrow> u8"

record port_state =
  bus :: "bus_event list"

section \<open>outb, inb and io_wait\<close>

definition outb :: "u16 \<Rightarrow> u8 \<Rightarrow> 'a port_state_scheme \<Rightarrow> 'a port_state_scheme" where
  "outb port v s = s\<lparr>bus := bus s @ [Out port v]\<rparr>"

definition inb :: "device \<Rightarrow> u16 \<Rightarrow> 'a port_state_scheme \<Rightarrow> u8 \<times> 'a port_state_scheme" where
  "inb dev port s = (let v = dev (bus s) port in (v, s\<lparr>bus := bus s @ [In port v]\<rparr>))"

definition io_wait :: "'a port_state_scheme \<Rightarrow> 'a port_state_scheme" where
  "io_wait s = outb 0x80 0 s"

lemma bus_outb [simp]: "bus (outb port v s) = bus s @ [Out port v]"
  by (simp add: outb_def)

lemma bus_io_wait [simp]: "bus (io_wait s) = bus s @ [Out 0x80 0]"
  by (simp add: io_wait_def)

lemma bus_inb [simp]: "bus (snd (inb dev port s)) = bus s @ [In port (dev (bus s) port)]"
  by (simp add: inb_def Let_def)

lemma fst_inb [simp]: "fst (inb dev port s) = dev (bus s) port"
  by (simp add: inb_def Let_def)

lemma more_outb [simp]: "port_state.more (outb port v s) = port_state.more s"
  by (simp add: outb_def)

lemma more_io_wait [simp]: "port_state.more (io_wait s) = port_state.more s"
  by (simp add: io_wait_def)

lemma more_inb [simp]: "port_state.more (snd (inb dev port s)) = port_state.more s"
  by (simp add: inb_def Let_def)

text \<open>The bytes written to one port, in order: what a device on that port has been told.\<close>

fun written :: "u16 \<Rightarrow> bus_event list \<Rightarrow> u8 list" where
  "written port [] = []"
| "written port (Out p v # t) = (if p = port then v # written port t else written port t)"
| "written port (In p v # t) = written port t"
| "written port (Accept n # t) = written port t"
| "written port (Spurious n # t) = written port t"

lemma written_append [simp]: "written port (t @ u) = written port t @ written port u"
  by (induction port t rule: written.induct) auto

end
