(* ===== verification/Pic.thy ===== *)
theory Pic
  imports PortIo
begin

text \<open>
  The driver of the two 8259A interrupt controllers, src/kernel/arch/x86_64/pic.c: the operations
  are the C functions, over a state that holds the bus trace and the counter of spurious
  interrupts. The chips themselves are hardware; what they do with the bytes they are sent (the
  initialisation words, the mask, the non-specific end of interrupt, the selected read register)
  is written down from the data sheet as a view of the trace, and the theorems say what state the
  driver leaves the chips in.
\<close>

section \<open>Ports and command bytes\<close>

definition PIC1_CMD :: u16 where "PIC1_CMD = 0x20"
definition PIC1_DATA :: u16 where "PIC1_DATA = 0x21"
definition PIC2_CMD :: u16 where "PIC2_CMD = 0xA0"
definition PIC2_DATA :: u16 where "PIC2_DATA = 0xA1"

definition ICW1_INIT :: u8 where "ICW1_INIT = 0x11"
definition ICW4_8086 :: u8 where "ICW4_8086 = 0x01"
definition PIC_EOI :: u8 where "PIC_EOI = 0x20"
definition OCW3_ISR :: u8 where "OCW3_ISR = 0x0B"

lemmas pic_ports = PIC1_CMD_def PIC1_DATA_def PIC2_CMD_def PIC2_DATA_def
lemmas pic_bytes = ICW1_INIT_def ICW4_8086_def PIC_EOI_def OCW3_ISR_def

record pic_state = port_state +
  spurious_irqs :: u64

section \<open>The driver\<close>

definition pic_init :: "'a port_state_scheme \<Rightarrow> 'a port_state_scheme" where
  "pic_init s =
    (let s = io_wait (outb PIC1_CMD ICW1_INIT s);
         s = io_wait (outb PIC2_CMD ICW1_INIT s);
         s = io_wait (outb PIC1_DATA 0x20 s);
         s = io_wait (outb PIC2_DATA 0x28 s);
         s = io_wait (outb PIC1_DATA 0x04 s);
         s = io_wait (outb PIC2_DATA 0x02 s);
         s = io_wait (outb PIC1_DATA ICW4_8086 s);
         s = io_wait (outb PIC2_DATA ICW4_8086 s);
         s = outb PIC1_DATA 0xFF s
     in outb PIC2_DATA 0xFF s)"

text \<open>
  The mask is computed in C's \<open>int\<close> and truncated to a byte by \<open>outb\<close>. (A shift
  count of 32 or more is undefined in C; it needs a line number of 40 or more, and the kernel
  passes 0.)
\<close>

function pic_unmask :: "device \<Rightarrow> u8 \<Rightarrow> 'a port_state_scheme \<Rightarrow> 'a port_state_scheme" where
  "pic_unmask dev irq s =
    (let port = (if irq < 8 then PIC1_DATA else PIC2_DATA);
         b = (if irq < 8 then irq else irq - 8);
         (v, s) = inb dev port s;
         s = outb port (ucast (ucast v AND NOT (push_bit (unat b) (1 :: u32)))) s
     in if 8 \<le> irq then pic_unmask dev 2 s else s)"
  by pat_completeness auto
termination
  by (relation "measure (\<lambda>(dev, irq, s). if irq < 8 then 0 else 1)") auto

declare pic_unmask.simps [simp del]

definition pic_send_eoi :: "u8 \<Rightarrow> 'a port_state_scheme \<Rightarrow> 'a port_state_scheme" where
  "pic_send_eoi irq s =
    (let s = (if 8 \<le> irq then outb PIC2_CMD PIC_EOI s else s)
     in outb PIC1_CMD PIC_EOI s)"

definition pic_read_isr :: "device \<Rightarrow> u16 \<Rightarrow> 'a port_state_scheme \<Rightarrow> u8 \<times> 'a port_state_scheme" where
  "pic_read_isr dev cmd_port s = inb dev cmd_port (outb cmd_port OCW3_ISR s)"

definition pic_handle_spurious ::
    "device \<Rightarrow> u8 \<Rightarrow> 'a pic_state_scheme \<Rightarrow> bool \<times> 'a pic_state_scheme" where
  "pic_handle_spurious dev irq s =
    (if irq = 7 then
       (let (v, s) = pic_read_isr dev PIC1_CMD s
        in if v AND 0x80 \<noteq> 0 then (False, s)
           else (True, s\<lparr>spurious_irqs := spurious_irqs s + 1\<rparr>))
     else if irq = 15 then
       (let (v, s) = pic_read_isr dev PIC2_CMD s
        in if v AND 0x80 \<noteq> 0 then (False, s)
           else (True, outb PIC1_CMD PIC_EOI (s\<lparr>spurious_irqs := spurious_irqs s + 1\<rparr>)))
     else (False, s))"

definition pic_spurious_count :: "'a pic_state_scheme \<Rightarrow> u64" where
  "pic_spurious_count s = spurious_irqs s"

section \<open>The controllers, as the data sheet describes them\<close>

text \<open>
  \<open>icw\<close> is the initialisation word the next data write is taken for (0: none, the
  chip is operational and the write is the mask). A non-specific end of interrupt clears the
  in-service bit of the highest priority, the lowest line number.
\<close>

record chip =
  icw :: nat
  vector_base :: u8
  imr :: u8
  in_service :: u8
  read_isr :: bool

definition chip_cmd :: "u8 \<Rightarrow> chip \<Rightarrow> chip" where
  "chip_cmd v c =
    (if bit v 4 then c\<lparr>icw := 1, imr := 0, in_service := 0, read_isr := False\<rparr>
     else if bit v 3 then (if bit v 1 then c\<lparr>read_isr := bit v 0\<rparr> else c)
     else if v AND 0xE0 = 0x20 then c\<lparr>in_service := in_service c AND (in_service c - 1)\<rparr>
     else c)"

definition chip_data :: "u8 \<Rightarrow> chip \<Rightarrow> chip" where
  "chip_data v c =
    (if icw c = 0 then c\<lparr>imr := v\<rparr>
     else if icw c = 1 then c\<lparr>vector_base := v AND 0xF8, icw := 2\<rparr>
     else if icw c = 2 then c\<lparr>icw := 3\<rparr>
     else c\<lparr>icw := 0\<rparr>)"

definition serve :: "nat \<Rightarrow> chip \<Rightarrow> chip" where
  "serve n c = c\<lparr>in_service := set_bit n (in_service c)\<rparr>"

text \<open>
  A line of the slave reaches the processor through line 2 of the master, which then counts as in
  service on the master also when the slave has nothing left to deliver.
\<close>

fun master_step :: "chip \<Rightarrow> bus_event \<Rightarrow> chip" where
  "master_step c (Out p v) =
    (if p = PIC1_CMD then chip_cmd v c else if p = PIC1_DATA then chip_data v c else c)"
| "master_step c (In p v) = c"
| "master_step c (Accept n) = serve (if n < 8 then n else 2) c"
| "master_step c (Spurious n) = (if n < 8 then c else serve 2 c)"

fun slave_step :: "chip \<Rightarrow> bus_event \<Rightarrow> chip" where
  "slave_step c (Out p v) =
    (if p = PIC2_CMD then chip_cmd v c else if p = PIC2_DATA then chip_data v c else c)"
| "slave_step c (In p v) = c"
| "slave_step c (Accept n) = (if n < 8 then c else serve (n - 8) c)"
| "slave_step c (Spurious n) = c"

definition master :: "chip \<Rightarrow> bus_event list \<Rightarrow> chip" where
  "master c t = foldl master_step c t"

definition slave :: "chip \<Rightarrow> bus_event list \<Rightarrow> chip" where
  "slave c t = foldl slave_step c t"

lemma master_snoc: "master c (t @ [e]) = master_step (master c t) e"
  by (simp add: master_def)

lemma slave_snoc: "slave c (t @ [e]) = slave_step (slave c t) e"
  by (simp add: slave_def)

lemma master_two: "master c (t @ [e, f]) = master_step (master_step (master c t) e) f"
  by (simp add: master_def)

lemma slave_two: "slave c (t @ [e, f]) = slave_step (slave_step (slave c t) e) f"
  by (simp add: slave_def)

lemmas chip_view = master_snoc slave_snoc master_two slave_two

text \<open>The controllers answer reads of their ports: the mask, and the in-service byte when selected.\<close>

definition pic_wired :: "device \<Rightarrow> chip \<Rightarrow> chip \<Rightarrow> bool" where
  "pic_wired dev m0 s0 \<longleftrightarrow> (\<forall>t.
     dev t PIC1_DATA = imr (master m0 t) \<and> dev t PIC2_DATA = imr (slave s0 t) \<and>
     (read_isr (master m0 t) \<longrightarrow> dev t PIC1_CMD = in_service (master m0 t)) \<and>
     (read_isr (slave s0 t) \<longrightarrow> dev t PIC2_CMD = in_service (slave s0 t)))"

text \<open>A device of this kind, for concrete runs; its chips start as they come out of reset.\<close>

definition reset_chip :: chip where
  "reset_chip = \<lparr>icw = 0, vector_base = 0, imr = 0, in_service = 0, read_isr = False\<rparr>"

definition pic_device :: device where
  "pic_device t port =
    (if port = PIC1_DATA then imr (master reset_chip t)
     else if port = PIC2_DATA then imr (slave reset_chip t)
     else if port = PIC1_CMD then in_service (master reset_chip t)
     else if port = PIC2_CMD then in_service (slave reset_chip t)
     else 0xFF)"

lemma pic_device_wired: "pic_wired pic_device reset_chip reset_chip"
  by (simp add: pic_wired_def pic_device_def pic_ports)

section \<open>Initialisation\<close>

lemma pic_init_bus:
  "bus (pic_init s) = bus s @
     [Out PIC1_CMD 0x11, Out 0x80 0, Out PIC2_CMD 0x11, Out 0x80 0,
      Out PIC1_DATA 0x20, Out 0x80 0, Out PIC2_DATA 0x28, Out 0x80 0,
      Out PIC1_DATA 0x04, Out 0x80 0, Out PIC2_DATA 0x02, Out 0x80 0,
      Out PIC1_DATA 0x01, Out 0x80 0, Out PIC2_DATA 0x01, Out 0x80 0,
      Out PIC1_DATA 0xFF, Out PIC2_DATA 0xFF]"
  by (simp add: pic_init_def pic_bytes Let_def)

lemma pic_init_master_aux:
  "master m0 (bus (pic_init s)) =
     (master m0 (bus s))\<lparr>icw := 0, vector_base := 0x20, imr := 0xFF, in_service := 0, read_isr := False\<rparr>"
  unfolding pic_init_bus master_def
  by (simp add: pic_ports chip_cmd_def chip_data_def)

lemma pic_init_slave_aux:
  "slave s0 (bus (pic_init s)) =
     (slave s0 (bus s))\<lparr>icw := 0, vector_base := 0x28, imr := 0xFF, in_service := 0, read_isr := False\<rparr>"
  unfolding pic_init_bus slave_def
  by (simp add: pic_ports chip_cmd_def chip_data_def)

text \<open>
  Whatever state the firmware left the two controllers in, after \<open>pic_init\<close> both
  are operational, line n of the pair delivers vector 32 + n, every line is masked and nothing is
  in service.
\<close>
theorem pic_init_remaps:
  "let m = master m0 (bus (pic_init s)); sl = slave s0 (bus (pic_init s))
   in icw m = 0 \<and> icw sl = 0 \<and> unat (vector_base m) = 32 \<and> unat (vector_base sl) = 32 + 8 \<and>
      imr m = 0xFF \<and> imr sl = 0xFF \<and> in_service m = 0 \<and> in_service sl = 0"
  by (simp add: pic_init_master_aux pic_init_slave_aux)

section \<open>Opening a line\<close>

lemma mask_byte: "ucast (ucast (v :: u8) AND NOT (push_bit n (1 :: u32))) = unset_bit n v"
  by (rule bit_word_eqI) (auto simp: bit_simps)

lemma mask_byte_exp: "ucast (ucast (v :: u8) AND NOT (2 ^ n :: u32)) = unset_bit n v"
  using mask_byte [of v n] by (simp add: push_bit_of_1)

lemma unmask_low:
  assumes wired: "pic_wired dev m0 s0" and low: "irq < 8"
  shows "bus (pic_unmask dev irq s) = bus s @
    [In PIC1_DATA (imr (master m0 (bus s))),
     Out PIC1_DATA (unset_bit (unat irq) (imr (master m0 (bus s))))]"
proof -
  have "dev (bus s) PIC1_DATA = imr (master m0 (bus s))"
    using wired by (simp add: pic_wired_def)
  then show ?thesis
    using low not_less [of irq 8] by (simp add: pic_unmask.simps Let_def case_prod_beta mask_byte_exp)
qed

lemma unmask_high:
  assumes wired: "pic_wired dev m0 s0" and high: "8 \<le> irq"
  shows "bus (pic_unmask dev irq s) = bus s @
    [In PIC2_DATA (imr (slave s0 (bus s))),
     Out PIC2_DATA (unset_bit (unat (irq - 8)) (imr (slave s0 (bus s)))),
     In PIC1_DATA (imr (master m0 (bus s))),
     Out PIC1_DATA (unset_bit 2 (imr (master m0 (bus s))))]"
proof -
  have "dev (bus s) PIC2_DATA = imr (slave s0 (bus s))"
    using wired by (simp add: pic_wired_def)
  moreover have "master m0 (bus s @ [In PIC2_DATA v, Out PIC2_DATA w]) = master m0 (bus s)" for v w
    by (simp add: chip_view pic_ports)
  ultimately show ?thesis
    using high
    using not_less [of irq 8]
    by (subst pic_unmask.simps)
      (simp add: Let_def case_prod_beta mask_byte_exp unmask_low [OF wired])
qed

lemma unmask_master_aux:
  assumes "pic_wired dev m0 s0" and "icw (master m0 (bus s)) = 0" and "irq < 16"
  shows "master m0 (bus (pic_unmask dev irq s)) = (master m0 (bus s))
    \<lparr>imr := unset_bit (if irq < 8 then unat irq else 2) (imr (master m0 (bus s)))\<rparr>"
  using assms
  by (cases "irq < 8")
    (simp_all add: unmask_low unmask_high not_less master_def chip_data_def pic_ports)

lemma unmask_slave_aux:
  assumes "pic_wired dev m0 s0" and "icw (slave s0 (bus s)) = 0" and "irq < 16"
  shows "slave s0 (bus (pic_unmask dev irq s)) = (slave s0 (bus s))
    \<lparr>imr := (if irq < 8 then imr (slave s0 (bus s))
             else unset_bit (unat irq - 8) (imr (slave s0 (bus s))))\<rparr>"
proof (cases "irq < 8")
  case False
  then have "unat (irq - 8) = unat irq - 8"
    by (simp add: unat_sub not_less)
  with False assms show ?thesis
    by (simp add: unmask_high not_less slave_def chip_data_def pic_ports)
qed (use assms in \<open>simp add: unmask_low slave_def pic_ports\<close>)

text \<open>The lines whose mask bit is set, and the lines that can reach the processor.\<close>

definition masked_lines :: "chip \<Rightarrow> chip \<Rightarrow> nat set" where
  "masked_lines m sl = {n. n < 8 \<and> bit (imr m) n} \<union> {n. 8 \<le> n \<and> n < 16 \<and> bit (imr sl) (n - 8)}"

definition line_open :: "chip \<Rightarrow> chip \<Rightarrow> nat \<Rightarrow> bool" where
  "line_open m sl n \<longleftrightarrow> n < 16 \<and> n \<notin> masked_lines m sl \<and> (8 \<le> n \<longrightarrow> 2 \<notin> masked_lines m sl)"

lemma masked_lines_full:
  assumes "imr m = 0xFF" and "imr sl = 0xFF"
  shows "masked_lines m sl = {n. n < 16}"
proof -
  have m: "imr m = - 1" "imr sl = - 1" using assms by simp_all
  have b: "bit (- 1 :: u8) k \<longleftrightarrow> k < 8" for k by (simp add: bit_simps)
  show ?thesis unfolding masked_lines_def m b by auto
qed

lemma masked_lines_unmask_aux:
  assumes "pic_wired dev m0 s0"
    and "icw (master m0 (bus s)) = 0" and "icw (slave s0 (bus s)) = 0" and "irq < 16"
  shows "masked_lines (master m0 (bus (pic_unmask dev irq s))) (slave s0 (bus (pic_unmask dev irq s)))
    = masked_lines (master m0 (bus s)) (slave s0 (bus s)) -
      (if irq < 8 then {unat irq} else {unat irq, 2})"
proof (cases "irq < 8")
  case True
  then have "unat irq < 8" by (simp add: word_less_nat_alt)
  with True assms show ?thesis
    by (auto simp: masked_lines_def unmask_master_aux unmask_slave_aux bit_unset_bit_iff)
next
  case False
  then have "8 \<le> unat irq" "unat irq < 16"
    using \<open>irq < 16\<close> by (simp_all add: word_less_nat_alt)
  with False assms show ?thesis
    by (auto simp: masked_lines_def unmask_master_aux unmask_slave_aux bit_unset_bit_iff)
qed

text \<open>
  On operational controllers, \<open>pic_unmask\<close> unmasks exactly the line it is given,
  and for a line of the slave also line 2 of the master, on which the slave is cascaded; the line
  can then reach the processor, and no other mask bit of the pair changes.
\<close>
theorem pic_unmask_opens:
  assumes "pic_wired dev m0 s0"
    and "icw (master m0 (bus s)) = 0" and "icw (slave s0 (bus s)) = 0" and "irq < 16"
  shows "masked_lines (master m0 (bus (pic_unmask dev irq s))) (slave s0 (bus (pic_unmask dev irq s)))
      = masked_lines (master m0 (bus s)) (slave s0 (bus s)) -
        (if irq < 8 then {unat irq} else {unat irq, 2}) \<and>
    line_open (master m0 (bus (pic_unmask dev irq s))) (slave s0 (bus (pic_unmask dev irq s)))
      (unat irq)"
proof -
  have "unat irq < 16" "irq < 8 \<longleftrightarrow> unat irq < 8"
    using \<open>irq < 16\<close> by (simp_all add: word_less_nat_alt)
  with masked_lines_unmask_aux [OF assms] show ?thesis
    by (auto simp: line_open_def)
qed

section \<open>Acknowledging an interrupt\<close>

text \<open>
  Operational controllers that deliver vectors 32 to 47 and have nothing in service, as they are
  between two interrupts.
\<close>

definition quiet :: "chip \<Rightarrow> chip \<Rightarrow> bool" where
  "quiet m sl \<longleftrightarrow> icw m = 0 \<and> icw sl = 0 \<and> vector_base m = 0x20 \<and> vector_base sl = 0x28 \<and>
    in_service m = 0 \<and> in_service sl = 0"

lemma eoi_single:
  assumes "n < 8"
  shows "set_bit n (0 :: u8) AND (set_bit n 0 - 1) = 0"
proof -
  have "n \<in> {0, 1, 2, 3, 4, 5, 6, 7}" using assms by auto
  then show ?thesis by (auto simp: set_bit_eq_or)
qed

lemma eoi_single_exp: "n < 8 \<Longrightarrow> 2 ^ n AND (2 ^ n - 1) = (0 :: u8)"
  using eoi_single [of n] by (simp add: set_bit_eq_or push_bit_of_1)

lemma and_0x80: "v AND 0x80 = (0 :: u8) \<longleftrightarrow> \<not> bit v 7"
  using and_exp_eq_0_iff_not_bit [of v 7] by simp

lemma read_isr_master:
  assumes "pic_wired dev m0 s0"
  shows "pic_read_isr dev PIC1_CMD s =
    (in_service (master m0 (bus s)),
     s\<lparr>bus := bus s @ [Out PIC1_CMD 0x0B, In PIC1_CMD (in_service (master m0 (bus s)))]\<rparr>)"
proof -
  have "read_isr (master m0 (bus s @ [Out PIC1_CMD 0x0B]))"
    "in_service (master m0 (bus s @ [Out PIC1_CMD 0x0B])) = in_service (master m0 (bus s))"
    by (simp_all add: chip_view chip_cmd_def)
  with assms show ?thesis
    by (simp add: pic_wired_def pic_read_isr_def inb_def outb_def pic_bytes Let_def)
qed

lemma read_isr_slave:
  assumes "pic_wired dev m0 s0"
  shows "pic_read_isr dev PIC2_CMD s =
    (in_service (slave s0 (bus s)),
     s\<lparr>bus := bus s @ [Out PIC2_CMD 0x0B, In PIC2_CMD (in_service (slave s0 (bus s)))]\<rparr>)"
proof -
  have "read_isr (slave s0 (bus s @ [Out PIC2_CMD 0x0B]))"
    "in_service (slave s0 (bus s @ [Out PIC2_CMD 0x0B])) = in_service (slave s0 (bus s))"
    by (simp_all add: chip_view chip_cmd_def)
  with assms show ?thesis
    by (simp add: pic_wired_def pic_read_isr_def inb_def outb_def pic_bytes Let_def)
qed

lemma handle_spurious_cases:
  assumes "pic_wired dev m0 s0"
  shows "pic_handle_spurious dev irq s =
    (if irq = 7 then
       let v = in_service (master m0 (bus s)); t = bus s @ [Out PIC1_CMD 0x0B, In PIC1_CMD v]
       in if bit v 7 then (False, s\<lparr>bus := t\<rparr>)
          else (True, s\<lparr>bus := t, spurious_irqs := spurious_irqs s + 1\<rparr>)
     else if irq = 15 then
       let v = in_service (slave s0 (bus s)); t = bus s @ [Out PIC2_CMD 0x0B, In PIC2_CMD v]
       in if bit v 7 then (False, s\<lparr>bus := t\<rparr>)
          else (True, s\<lparr>bus := t @ [Out PIC1_CMD 0x20], spurious_irqs := spurious_irqs s + 1\<rparr>)
     else (False, s))"
  by (simp add: pic_handle_spurious_def read_isr_master [OF assms] read_isr_slave [OF assms]
      and_0x80 Let_def outb_def pic_bytes)

lemma bus_send_eoi:
  "bus (pic_send_eoi irq s) = bus s @ (if 8 \<le> irq then [Out PIC2_CMD 0x20] else []) @ [Out PIC1_CMD 0x20]"
  by (simp add: pic_send_eoi_def pic_bytes Let_def)

lemma of_nat_line:
  assumes "n < 16"
  shows "unat (of_nat n :: u8) = n" and "(of_nat n :: u8) = 7 \<longleftrightarrow> n = 7"
    and "(of_nat n :: u8) = 15 \<longleftrightarrow> n = 15" and "8 \<le> (of_nat n :: u8) \<longleftrightarrow> 8 \<le> n"
  using assms by (simp_all add: word_unat_eq_iff word_le_nat_alt unat_of_nat)

text \<open>A line that was really raised is not mistaken for a spurious one, and its EOI clears it.\<close>

lemma genuine_not_spurious:
  assumes "pic_wired dev m0 s0" and "bus s = t @ [Accept n]" and "n < 16"
  shows "\<exists>u. pic_handle_spurious dev (of_nat n) s = (False, s\<lparr>bus := bus s @ u\<rparr>) \<and>
    u \<in> {[], [Out PIC1_CMD 0x0B, In PIC1_CMD (in_service (master m0 (bus s)))],
             [Out PIC2_CMD 0x0B, In PIC2_CMD (in_service (slave s0 (bus s)))]}"
proof -
  have "n = 7 \<Longrightarrow> bit (in_service (master m0 (bus s))) 7"
    and "n = 15 \<Longrightarrow> bit (in_service (slave s0 (bus s))) 7"
    using assms by (simp_all add: chip_view serve_def bit_set_bit_iff)
  then show ?thesis
    using assms(1,3)
    by (cases "n = 7 \<or> n = 15")
      (auto simp: handle_spurious_cases of_nat_line Let_def intro: exI [of _ "[]"])
qed

lemma eoi_quiet:
  assumes "quiet (master m0 t) (slave s0 t)" and "n < 16" and "bus s = t @ [Accept n] @ u"
    and "u \<in> {[], [Out PIC1_CMD 0x0B, In PIC1_CMD v], [Out PIC2_CMD 0x0B, In PIC2_CMD v]}"
  shows "quiet (master m0 (bus (pic_send_eoi (of_nat n) s)))
               (slave s0 (bus (pic_send_eoi (of_nat n) s)))"
  using assms
  by (auto simp: quiet_def bus_send_eoi of_nat_line master_def slave_def serve_def chip_cmd_def
      pic_ports eoi_single eoi_single_exp)

text \<open>A vector with nothing in service is recognised, and leaves nothing in service on either chip.\<close>

lemma spurious_handled:
  assumes "pic_wired dev m0 s0" and "quiet (master m0 t) (slave s0 t)"
    and "bus s = t @ [Spurious n]" and "n = 7 \<or> n = 15"
  shows "\<exists>b. pic_handle_spurious dev (of_nat n) s =
      (True, s\<lparr>bus := b, spurious_irqs := spurious_irqs s + 1\<rparr>) \<and>
    quiet (master m0 b) (slave s0 b)"
  using assms
  by (auto simp: handle_spurious_cases chip_view quiet_def serve_def Let_def master_def slave_def
      chip_cmd_def pic_ports eoi_single [of 2, simplified])

end
