(* ===== verification/Interrupts.thy ===== *)
theory Interrupts
  imports Pic
begin

text \<open>
  Interrupt entry and the timer: src/kernel/arch/x86_64/idt.c and pit.c. The state adds to the
  controllers' the descriptor table and its register, the handler table, the counter of the
  self-test vector and the tick counter. The assembly stubs (isr.S) are a parameter, a table of
  their addresses; the only handler the kernel installs, \<open>pit_irq\<close>, is the one value of
  the function pointers. A panic ends the run and is a value of its own.
\<close>

section \<open>State\<close>

record interrupt_frame =
  r15 :: u64
  r14 :: u64
  r13 :: u64
  r12 :: u64
  r11 :: u64
  r10 :: u64
  r9 :: u64
  r8 :: u64
  rbp :: u64
  rdi :: u64
  rsi :: u64
  rdx :: u64
  rcx :: u64
  rbx :: u64
  rax :: u64
  vector :: u64
  error_code :: u64
  rip :: u64
  cs :: u64
  rflags :: u64
  rsp :: u64
  ss :: u64

record idt_entry =
  offset_lo :: u16
  selector :: u16
  ist :: u8
  type_attr :: u8
  offset_mid :: u16
  offset_hi :: u32
  zero_word :: u32

record idt_ptr =
  limit :: u16
  base_addr :: u64

datatype irq_handler = Pit_irq

record irq_state = pic_state +
  idt :: "idt_entry list"
  idtp :: idt_ptr
  idtr :: "idt_ptr option"            \<comment> \<open>the register \<open>lidt\<close> loads\<close>
  irq_handlers :: "irq_handler option list"
  isr_test_hits :: u64
  ticks :: u64

datatype outcome =
    Returned irq_state
  | Panicked string interrupt_frame irq_state

definition IDT_ENTRIES :: nat where "IDT_ENTRIES = 256"
definition SYPAS_TEST_VECTOR :: u64 where "SYPAS_TEST_VECTOR = 0xF0"

definition exception_names :: "string list" where
  "exception_names =
   [''#DE divide error'', ''#DB debug'',
    ''NMI non-maskable interrupt'', ''#BP breakpoint'',
    ''#OF overflow'', ''#BR bound range exceeded'',
    ''#UD invalid opcode'', ''#NM device not available'',
    ''#DF double fault'', ''coprocessor segment overrun'',
    ''#TS invalid TSS'', ''#NP segment not present'',
    ''#SS stack-segment fault'', ''#GP general protection fault'',
    ''#PF page fault'', ''reserved(15)'',
    ''#MF x87 floating-point'', ''#AC alignment check'',
    ''#MC machine check'', ''#XM SIMD floating-point'',
    ''#VE virtualization'', ''#CP control protection'',
    ''reserved(22)'', ''reserved(23)'',
    ''reserved(24)'', ''reserved(25)'',
    ''reserved(26)'', ''reserved(27)'',
    ''#HV hypervisor injection'', ''#VC VMM communication'',
    ''#SX security'', ''reserved(31)'']"

section \<open>The descriptor table\<close>

definition idt_set :: "nat \<Rightarrow> u64 \<Rightarrow> irq_state \<Rightarrow> irq_state" where
  "idt_set vec stub s = s\<lparr>idt := (idt s)[vec :=
     \<lparr>offset_lo = ucast (stub AND 0xFFFF), selector = 0x08, ist = 0, type_attr = 0x8E,
      offset_mid = ucast (drop_bit 16 stub AND 0xFFFF), offset_hi = ucast (drop_bit 32 stub),
      zero_word = 0\<rparr>]\<rparr>"

definition sizeof_idt_entry :: nat where "sizeof_idt_entry = 16"

text \<open>\<open>idt_address\<close> is where the linker put the table, \<open>stubs\<close> the table of isr.S.\<close>

definition idt_init :: "(nat \<Rightarrow> u64) \<Rightarrow> u64 \<Rightarrow> irq_state \<Rightarrow> irq_state" where
  "idt_init stubs idt_address s =
    (let s = foldl (\<lambda>s i. idt_set i (stubs i) s) s [0..<IDT_ENTRIES];
         s = s\<lparr>idtp := \<lparr>limit = of_nat (sizeof_idt_entry * IDT_ENTRIES - 1), base_addr = idt_address\<rparr>\<rparr>
     in s\<lparr>idtr := Some (idtp s)\<rparr>)"

definition irq_install :: "u8 \<Rightarrow> irq_handler option \<Rightarrow> irq_state \<Rightarrow> irq_state" where
  "irq_install irq handler s =
    (if irq < 16 then s\<lparr>irq_handlers := (irq_handlers s)[unat irq := handler]\<rparr> else s)"

section \<open>The timer\<close>

definition PIT_CH0 :: u16 where "PIT_CH0 = 0x40"
definition PIT_CMD :: u16 where "PIT_CMD = 0x43"
definition PIT_INPUT_HZ :: u64 where "PIT_INPUT_HZ = 1193182"
definition PIT_HZ :: u64 where "PIT_HZ = 100"

definition pit_irq :: "interrupt_frame \<Rightarrow> irq_state \<Rightarrow> irq_state" where
  "pit_irq f s = s\<lparr>ticks := ticks s + 1\<rparr>"

definition pit_init :: "device \<Rightarrow> irq_state \<Rightarrow> irq_state" where
  "pit_init dev s =
    (let divisor = (ucast (PIT_INPUT_HZ div PIT_HZ) :: u16);
         s = outb PIT_CMD 0x34 s;
         s = outb PIT_CH0 (ucast (divisor AND 0xFF)) s;
         s = outb PIT_CH0 (ucast (drop_bit 8 divisor)) s;
         s = irq_install 0 (Some Pit_irq) s
     in pic_unmask dev 0 s)"

definition timer_ticks :: "irq_state \<Rightarrow> u64" where
  "timer_ticks s = ticks s"

definition timer_ms :: "irq_state \<Rightarrow> u64" where
  "timer_ms s = ticks s * (1000 div PIT_HZ)"

section \<open>Dispatch\<close>

fun call_handler :: "irq_handler \<Rightarrow> interrupt_frame \<Rightarrow> irq_state \<Rightarrow> irq_state" where
  "call_handler Pit_irq f s = pit_irq f s"

definition isr_dispatch :: "device \<Rightarrow> interrupt_frame \<Rightarrow> irq_state \<Rightarrow> outcome" where
  "isr_dispatch dev f s =
    (if vector f < 32 then Panicked (exception_names ! unat (vector f)) f s
     else if vector f < 48 then
       (let irq = (ucast (vector f - 32) :: u8);
            (spurious, s) = pic_handle_spurious dev irq s
        in if spurious then Returned s
           else
             (let s = (case irq_handlers s ! unat irq of
                         Some h \<Rightarrow> call_handler h f s
                       | None \<Rightarrow> s)
              in Returned (pic_send_eoi irq s)))
     else if vector f = SYPAS_TEST_VECTOR then Returned (s\<lparr>isr_test_hits := isr_test_hits s + 1\<rparr>)
     else Panicked ''unexpected interrupt vector'' f s)"

section \<open>Interrupts as events\<close>

text \<open>
  What can arrive at the processor and return: a line the controllers really raised, the vector 7 or
  15 of a line that has gone away again, and the software self-test. The gates clear the interrupt
  flag, so one event is handled to its end before the next.
\<close>

datatype irq_event = Line nat | Glitch nat | Self_test

fun event_ok :: "irq_event \<Rightarrow> bool" where
  "event_ok (Line n) = (n < 16)"
| "event_ok (Glitch n) = (n = 7 \<or> n = 15)"
| "event_ok Self_test = True"

fun event_vector :: "irq_event \<Rightarrow> u64" where
  "event_vector (Line n) = 32 + of_nat n"
| "event_vector (Glitch n) = 32 + of_nat n"
| "event_vector Self_test = 0xF0"

fun arrive :: "irq_event \<Rightarrow> irq_state \<Rightarrow> irq_state" where
  "arrive (Line n) s = s\<lparr>bus := bus s @ [Accept n]\<rparr>"
| "arrive (Glitch n) s = s\<lparr>bus := bus s @ [Spurious n]\<rparr>"
| "arrive Self_test s = s"

text \<open>A frame with a given vector, for concrete runs.\<close>

definition frame_of :: "u64 \<Rightarrow> interrupt_frame" where
  "frame_of v = \<lparr>r15 = 0, r14 = 0, r13 = 0, r12 = 0, r11 = 0, r10 = 0, r9 = 0, r8 = 0, rbp = 0, rdi = 0, rsi = 0, rdx = 0, rcx = 0, rbx = 0, rax = 0, vector = v, error_code = 0, rip = 0, cs = 0, rflags = 0, rsp = 0, ss = 0\<rparr>"

lemma vector_frame_of [simp]: "vector (frame_of v) = v"
  by (simp add: frame_of_def)

inductive irq_step :: "device \<Rightarrow> irq_state \<Rightarrow> irq_event \<Rightarrow> irq_state \<Rightarrow> bool" for dev where
  handled: "event_ok e \<Longrightarrow> vector f = event_vector e \<Longrightarrow>
    isr_dispatch dev f (arrive e s) = Returned t \<Longrightarrow> irq_step dev s e t"

inductive irq_run :: "device \<Rightarrow> irq_state \<Rightarrow> irq_event list \<Rightarrow> irq_state \<Rightarrow> bool" for dev where
  no_event: "irq_run dev s [] s"
| one_more: "irq_step dev s e t \<Longrightarrow> irq_run dev t es u \<Longrightarrow> irq_run dev s (e # es) u"

inductive_cases irq_run_NilE: "irq_run dev s [] t"
inductive_cases irq_run_ConsE: "irq_run dev s (e # es) t"

text \<open>What the events add up to, said without the controllers: three counters.\<close>

record tally =
  spurious_seen :: u64
  tests_seen :: u64
  ticks_seen :: u64

definition tally_of :: "irq_state \<Rightarrow> tally" where
  "tally_of s = \<lparr>spurious_seen = spurious_irqs s, tests_seen = isr_test_hits s, ticks_seen = ticks s\<rparr>"

fun tally_step :: "irq_handler option list \<Rightarrow> tally \<Rightarrow> irq_event \<Rightarrow> tally" where
  "tally_step hs a (Line n) = (if hs ! n = Some Pit_irq then a\<lparr>ticks_seen := ticks_seen a + 1\<rparr> else a)"
| "tally_step hs a (Glitch n) = a\<lparr>spurious_seen := spurious_seen a + 1\<rparr>"
| "tally_step hs a Self_test = a\<lparr>tests_seen := tests_seen a + 1\<rparr>"

definition irq_inv :: "chip \<Rightarrow> chip \<Rightarrow> irq_state \<Rightarrow> bool" where
  "irq_inv m0 s0 s \<longleftrightarrow> quiet (master m0 (bus s)) (slave s0 (bus s))"

section \<open>Dispatching one event\<close>

lemma event_vector_irq:
  assumes "n < 16"
  shows "\<not> 32 + of_nat n < (32 :: u64)" and "32 + of_nat n < (48 :: u64)"
    and "(ucast (of_nat n :: u64) :: u8) = of_nat n"
  using assms
  by (simp_all add: word_less_nat_alt unat_word_ariths unat_of_nat word_unat_eq_iff unsigned_ucast_eq
      take_bit_nat_eq_self)

lemma run_handler:
  "(case h of Some k \<Rightarrow> call_handler k f s | None \<Rightarrow> s) =
   s\<lparr>ticks := ticks s + (if h = Some Pit_irq then 1 else 0)\<rparr>"
proof (cases h)
  case (Some k)
  then show ?thesis by (cases k) (simp add: pit_irq_def)
qed simp

lemma more_send_eoi [simp]: "port_state.more (pic_send_eoi irq s) = port_state.more s"
  by (simp add: pic_send_eoi_def Let_def)

lemma send_eoi_frame [simp]:
  fixes s :: irq_state
  shows "spurious_irqs (pic_send_eoi irq s) = spurious_irqs s" "ticks (pic_send_eoi irq s) = ticks s"
    "isr_test_hits (pic_send_eoi irq s) = isr_test_hits s"
    "irq_handlers (pic_send_eoi irq s) = irq_handlers s" "idt (pic_send_eoi irq s) = idt s"
  by (simp_all add: pic_send_eoi_def outb_def Let_def)

lemma dispatch_line:
  assumes wired: "pic_wired dev m0 s0" and inv: "irq_inv m0 s0 s"
    and n: "n < 16" and f: "vector f = 32 + of_nat n"
  shows "\<exists>t. isr_dispatch dev f (arrive (Line n) s) = Returned t \<and> irq_inv m0 s0 t \<and>
    tally_of t = tally_step (irq_handlers s) (tally_of s) (Line n) \<and>
    irq_handlers t = irq_handlers s \<and> idt t = idt s"
proof -
  let ?s = "s\<lparr>bus := bus s @ [Accept n]\<rparr>"
  obtain u where hs: "pic_handle_spurious dev (of_nat n) ?s = (False, ?s\<lparr>bus := bus ?s @ u\<rparr>)"
    and u: "u \<in> {[], [Out PIC1_CMD 0x0B, In PIC1_CMD (in_service (master m0 (bus ?s)))],
      [Out PIC2_CMD 0x0B, In PIC2_CMD (in_service (slave s0 (bus ?s)))]}"
    using genuine_not_spurious [OF wired, of ?s "bus s" n] n by auto
  define r where "r = s\<lparr>bus := bus s @ [Accept n] @ u,
    ticks := ticks s + (if irq_handlers s ! n = Some Pit_irq then 1 else 0)\<rparr>"
  have d: "isr_dispatch dev f (arrive (Line n) s) = Returned (pic_send_eoi (of_nat n) r)"
    using n by (simp add: isr_dispatch_def f event_vector_irq hs of_nat_line run_handler Let_def r_def)
  have "bus r = bus s @ [Accept n] @ u"
    by (simp add: r_def)
  with inv n u have "irq_inv m0 s0 (pic_send_eoi (of_nat n) r)"
    unfolding irq_inv_def by (auto intro!: eoi_quiet)
  with d show ?thesis
    by (simp add: tally_of_def r_def)
qed

lemma dispatch_glitch:
  assumes wired: "pic_wired dev m0 s0" and inv: "irq_inv m0 s0 s"
    and n: "n = 7 \<or> n = 15" and f: "vector f = 32 + of_nat n"
  shows "\<exists>t. isr_dispatch dev f (arrive (Glitch n) s) = Returned t \<and> irq_inv m0 s0 t \<and>
    tally_of t = tally_step (irq_handlers s) (tally_of s) (Glitch n) \<and>
    irq_handlers t = irq_handlers s \<and> idt t = idt s"
proof -
  let ?s = "s\<lparr>bus := bus s @ [Spurious n]\<rparr>"
  have "n < 16" using n by auto
  obtain b where hs: "pic_handle_spurious dev (of_nat n) ?s =
      (True, ?s\<lparr>bus := b, spurious_irqs := spurious_irqs ?s + 1\<rparr>)"
    and q: "quiet (master m0 b) (slave s0 b)"
    using spurious_handled [OF wired, of "bus s" ?s n] inv n by (auto simp: irq_inv_def)
  have "isr_dispatch dev f (arrive (Glitch n) s) =
      Returned (?s\<lparr>bus := b, spurious_irqs := spurious_irqs ?s + 1\<rparr>)"
    using \<open>n < 16\<close> by (simp add: isr_dispatch_def f event_vector_irq hs Let_def)
  with q show ?thesis
    by (simp add: irq_inv_def tally_of_def)
qed

lemma dispatch_self_test:
  assumes "irq_inv m0 s0 s" and "vector f = 0xF0"
  shows "\<exists>t. isr_dispatch dev f (arrive Self_test s) = Returned t \<and> irq_inv m0 s0 t \<and>
    tally_of t = tally_step (irq_handlers s) (tally_of s) Self_test \<and>
    irq_handlers t = irq_handlers s \<and> idt t = idt s"
  using assms by (simp add: isr_dispatch_def SYPAS_TEST_VECTOR_def irq_inv_def tally_of_def)

lemma dispatch_event:
  assumes "pic_wired dev m0 s0" and "irq_inv m0 s0 s"
    and "event_ok e" and "vector f = event_vector e"
  shows "\<exists>t. isr_dispatch dev f (arrive e s) = Returned t \<and> irq_inv m0 s0 t \<and>
    tally_of t = tally_step (irq_handlers s) (tally_of s) e \<and>
    irq_handlers t = irq_handlers s \<and> idt t = idt s"
proof (cases e)
  case (Line n)
  with assms dispatch_line [of dev m0 s0 s n f] show ?thesis by simp
next
  case (Glitch n)
  with assms dispatch_glitch [of dev m0 s0 s n f] show ?thesis by simp
next
  case Self_test
  with assms dispatch_self_test [of m0 s0 s f dev] show ?thesis by simp
qed

section \<open>Runs\<close>

lemma irq_step_facts:
  assumes "irq_step dev s e t" and "pic_wired dev m0 s0" and "irq_inv m0 s0 s"
  shows "irq_inv m0 s0 t \<and> tally_of t = tally_step (irq_handlers s) (tally_of s) e \<and>
    irq_handlers t = irq_handlers s \<and> idt t = idt s"
  using assms dispatch_event [OF assms(2,3), of e] by (cases rule: irq_step.cases) fastforce+

lemma irq_run_facts:
  assumes "irq_run dev s es t" and "pic_wired dev m0 s0" and "irq_inv m0 s0 s"
  shows "irq_inv m0 s0 t \<and> tally_of t = foldl (tally_step (irq_handlers s)) (tally_of s) es \<and>
    irq_handlers t = irq_handlers s \<and> idt t = idt s"
  using assms
proof (induction rule: irq_run.induct)
  case (one_more s e t es u)
  with irq_step_facts [OF one_more.hyps(1) one_more.prems] show ?case by simp
qed simp

lemma irq_run_total:
  assumes "pic_wired dev m0 s0" and "irq_inv m0 s0 s" and "list_all event_ok es"
  shows "\<exists>t. irq_run dev s es t"
  using assms(2,3)
proof (induction es arbitrary: s)
  case Nil
  show ?case by (blast intro: irq_run.no_event)
next
  case (Cons e es)
  then obtain t where t: "isr_dispatch dev (frame_of (event_vector e)) (arrive e s) = Returned t"
    and "irq_inv m0 s0 t"
    using dispatch_event [OF assms(1), of s e "frame_of (event_vector e)"] by auto
  moreover have "irq_step dev s e t"
    by (rule irq_step.handled [OF _ _ t]) (use Cons.prems in simp_all)
  moreover obtain u where "irq_run dev t es u"
    using Cons.IH [OF \<open>irq_inv m0 s0 t\<close>] Cons.prems by auto
  ultimately show ?case by (blast intro: irq_run.one_more)
qed

section \<open>Sleeping\<close>

text \<open>
  \<open>sleep_ticks\<close>: each turn of the loop checks the counter and halts. A window is the list
  of events that arrive from one check up to and including the interrupt that ends the halt (so an
  interrupt may also slip in between the check and the halt). With no window left the processor
  stays halted and the function does not return.
\<close>

fun deliver_all :: "device \<Rightarrow> irq_event list \<Rightarrow> irq_state \<Rightarrow> irq_state option" where
  "deliver_all dev [] s = Some s"
| "deliver_all dev (e # es) s =
    (case isr_dispatch dev (frame_of (event_vector e)) (arrive e s) of
       Returned t \<Rightarrow> deliver_all dev es t
     | Panicked r f t \<Rightarrow> None)"

fun sleep_loop :: "device \<Rightarrow> u64 \<Rightarrow> irq_event list list \<Rightarrow> irq_state \<Rightarrow> (irq_state \<times> irq_event list list) option" where
  "sleep_loop dev fin [] s = (if ticks s < fin then None else Some (s, []))"
| "sleep_loop dev fin (w # ws) s =
    (if ticks s < fin then
       (case deliver_all dev w s of None \<Rightarrow> None | Some t \<Rightarrow> sleep_loop dev fin ws t)
     else Some (s, w # ws))"

definition sleep_ticks :: "device \<Rightarrow> u64 \<Rightarrow> irq_event list list \<Rightarrow> irq_state \<Rightarrow> (irq_state \<times> irq_event list list) option" where
  "sleep_ticks dev n ws s = sleep_loop dev (ticks s + n) ws s"

definition timer_irqs :: "irq_handler option list \<Rightarrow> irq_event list \<Rightarrow> nat" where
  "timer_irqs hs es = length (filter (\<lambda>e. case e of Line n \<Rightarrow> hs ! n = Some Pit_irq | _ \<Rightarrow> False) es)"

lemma timer_irqs_append [simp]: "timer_irqs hs (a @ b) = timer_irqs hs a + timer_irqs hs b"
  by (simp add: timer_irqs_def)

lemma timer_irqs_Nil [simp]: "timer_irqs hs [] = 0"
  by (simp add: timer_irqs_def)

lemma ticks_seen_run:
  "ticks_seen (foldl (tally_step hs) a es) = ticks_seen a + of_nat (timer_irqs hs es)"
proof (induction es arbitrary: a)
  case (Cons e es)
  then show ?case by (cases e) (simp_all add: timer_irqs_def)
qed simp

lemma deliver_all_run:
  assumes "pic_wired dev m0 s0" and "irq_inv m0 s0 s" and "list_all event_ok es"
  shows "\<exists>t. deliver_all dev es s = Some t \<and> irq_run dev s es t"
  using assms(2,3)
proof (induction es arbitrary: s)
  case Nil
  show ?case by (simp add: irq_run.no_event)
next
  case (Cons e es)
  then obtain t where t: "isr_dispatch dev (frame_of (event_vector e)) (arrive e s) = Returned t"
    and "irq_inv m0 s0 t"
    using dispatch_event [OF assms(1), of s e "frame_of (event_vector e)"] by auto
  moreover have "irq_step dev s e t"
    by (rule irq_step.handled [OF _ _ t]) (use Cons.prems in simp_all)
  moreover obtain u where "deliver_all dev es t = Some u" "irq_run dev t es u"
    using Cons.IH [OF \<open>irq_inv m0 s0 t\<close>] Cons.prems by auto
  ultimately show ?case by (auto intro: irq_run.one_more)
qed

lemma deliver_all_ticks:
  assumes "pic_wired dev m0 s0" and "irq_inv m0 s0 s" and "list_all event_ok es"
  shows "\<exists>t. deliver_all dev es s = Some t \<and> irq_inv m0 s0 t \<and> irq_handlers t = irq_handlers s \<and>
    ticks t = ticks s + of_nat (timer_irqs (irq_handlers s) es)"
proof -
  obtain t where t: "deliver_all dev es s = Some t" "irq_run dev s es t"
    using deliver_all_run [OF assms] by auto
  from irq_run_facts [OF t(2) assms(1,2)] have "irq_inv m0 s0 t" "irq_handlers t = irq_handlers s"
    and "ticks_seen (tally_of t) = ticks_seen (tally_of s) + of_nat (timer_irqs (irq_handlers s) es)"
    by (simp_all add: ticks_seen_run)
  with t(1) show ?thesis by (simp add: tally_of_def)
qed

text \<open>The loop stops at the first window after which enough ticks have been counted.\<close>

lemma sleep_loop_spec:
  assumes "pic_wired dev m0 s0" and "irq_inv m0 s0 s" and "list_all (list_all event_ok) ws"
    and "unat (ticks s) + timer_irqs (irq_handlers s) (concat ws) < 2 ^ 64"
    and "unat fin \<le> unat (ticks s) + timer_irqs (irq_handlers s) (concat ws)"
  shows "\<exists>t used rest. sleep_loop dev fin ws s = Some (t, rest) \<and> ws = used @ rest \<and> irq_inv m0 s0 t \<and>
    irq_handlers t = irq_handlers s \<and>
    unat (ticks t) = unat (ticks s) + timer_irqs (irq_handlers s) (concat used) \<and>
    fin \<le> ticks t \<and>
    (used \<noteq> [] \<longrightarrow> unat (ticks s) + timer_irqs (irq_handlers s) (concat (butlast used)) < unat fin)"
  using assms(2-5)
proof (induction ws arbitrary: s)
  case Nil
  then show ?case by (auto simp: not_less word_le_nat_alt word_less_nat_alt)
next
  case (Cons w ws)
  show ?case
  proof (cases "ticks s < fin")
    case False
    with Cons.prems show ?thesis by (auto simp: not_less intro!: exI [of _ "[]"])
  next
    case True
    obtain t where t: "deliver_all dev w s = Some t" "irq_inv m0 s0 t"
        "irq_handlers t = irq_handlers s"
        "ticks t = ticks s + of_nat (timer_irqs (irq_handlers s) w)"
      using deliver_all_ticks [OF assms(1), of s w] Cons.prems by auto
    have ut: "unat (ticks t) = unat (ticks s) + timer_irqs (irq_handlers s) w"
      using Cons.prems(3) unat_word_ariths(1) [of "ticks s" "of_nat (timer_irqs (irq_handlers s) w)"]
      by (simp add: t(4) unat_of_nat)
    from Cons.IH [of t] obtain u used rest where u: "sleep_loop dev fin ws t = Some (u, rest)"
        "ws = used @ rest" "irq_inv m0 s0 u" "irq_handlers u = irq_handlers s"
        "unat (ticks u) = unat (ticks t) + timer_irqs (irq_handlers s) (concat used)"
        "fin \<le> ticks u"
        "used \<noteq> [] \<longrightarrow> unat (ticks t) + timer_irqs (irq_handlers s) (concat (butlast used)) < unat fin"
      using Cons.prems t ut by auto
    then show ?thesis
      using True t ut
      by (intro exI [of _ u] exI [of _ "w # used"] exI [of _ rest])
        (auto simp: word_less_nat_alt)
  qed
qed

section \<open>Bringing the timer up\<close>

lemma irq_install_bus [simp]: "bus (irq_install irq h s) = bus s"
  by (simp add: irq_install_def)

definition after_pit_programming :: "irq_state \<Rightarrow> irq_state" where
  "after_pit_programming s = irq_install 0 (Some Pit_irq)
     (outb PIT_CH0 0x2E (outb PIT_CH0 0x9B (outb PIT_CMD 0x34 s)))"

lemma pit_init_eq: "pit_init dev s = pic_unmask dev 0 (after_pit_programming s)"
  by (simp add: pit_init_def after_pit_programming_def Let_def PIT_INPUT_HZ_def PIT_HZ_def)

lemma pit_programming_view:
  "master m0 (bus (after_pit_programming s)) = master m0 (bus s)"
  "slave s0 (bus (after_pit_programming s)) = slave s0 (bus s)"
  by (simp_all add: after_pit_programming_def master_def slave_def pic_ports PIT_CMD_def PIT_CH0_def)

lemma pic_unmask_low_frame [simp]:
  fixes s :: irq_state
  assumes "irq < 8"
  shows "irq_handlers (pic_unmask dev irq s) = irq_handlers s" "ticks (pic_unmask dev irq s) = ticks s"
  using assms not_less [of irq 8]
  by (simp_all add: pic_unmask.simps Let_def inb_def outb_def)

lemma pit_init_inv_aux:
  assumes "pic_wired dev m0 s0" and "irq_inv m0 s0 s"
  shows "irq_inv m0 s0 (pit_init dev s)"
  using assms
  by (simp add: irq_inv_def pit_init_eq quiet_def unmask_master_aux unmask_slave_aux
      pit_programming_view)

lemma pic_init_inv_aux: "irq_inv m0 s0 (pic_init s)"
  by (simp add: irq_inv_def quiet_def pic_init_master_aux pic_init_slave_aux)

lemma pit_init_handlers:
  "length (irq_handlers s) = 16 \<Longrightarrow> irq_handlers (pit_init dev s) = (irq_handlers s)[0 := Some Pit_irq]"
  by (simp add: pit_init_eq after_pit_programming_def irq_install_def outb_def)

lemma pit_init_written:
  assumes "pic_wired dev m0 s0"
  shows "written PIT_CMD (bus (pit_init dev s)) = written PIT_CMD (bus s) @ [0x34]"
    and "written PIT_CH0 (bus (pit_init dev s)) = written PIT_CH0 (bus s) @ [0x9B, 0x2E]"
  by (simp_all add: pit_init_eq unmask_low [OF assms] after_pit_programming_def pic_ports
      PIT_CMD_def PIT_CH0_def)

lemma pic_init_frame [simp]: "port_state.more (pic_init s) = port_state.more s"
  by (simp add: pic_init_def Let_def)

lemma pic_init_handlers [simp]:
  fixes s :: irq_state
  shows "irq_handlers (pic_init s) = irq_handlers s" "ticks (pic_init s) = ticks s"
  by (simp_all add: pic_init_def outb_def io_wait_def Let_def)

lemma bring_up_open_lines:
  assumes "pic_wired dev m0 s0"
  shows "line_open (master m0 (bus (pit_init dev (pic_init s))))
           (slave s0 (bus (pit_init dev (pic_init s)))) n \<longleftrightarrow> n = 0"
proof -
  let ?s = "after_pit_programming (pic_init s)"
  have full: "masked_lines (master m0 (bus ?s)) (slave s0 (bus ?s)) = {n. n < 16}"
    by (rule masked_lines_full) (simp_all add: pit_programming_view pic_init_master_aux pic_init_slave_aux)
  have ready: "icw (master m0 (bus ?s)) = 0" "icw (slave s0 (bus ?s)) = 0"
    by (simp_all add: pit_programming_view pic_init_master_aux pic_init_slave_aux)
  have "(0 :: u8) < 16" by simp
  from masked_lines_unmask_aux [OF assms ready this, unfolded full]
  have m: "masked_lines (master m0 (bus (pit_init dev (pic_init s))))
      (slave s0 (bus (pit_init dev (pic_init s)))) = {n. n < 16} - {0}"
    by (simp only: pit_init_eq) simp
  show ?thesis unfolding line_open_def m by auto
qed

text \<open>
  C35: bringing up the controllers and then the timer, as the kernel does, leaves line 0 as the one
  line that can interrupt, with \<open>pit_irq\<close> behind it and the controllers ready for
  events; the timer has been told mode 2 with low then high byte, and the two bytes it is sent are
  the input clock divided by \<open>PIT_HZ\<close>, rounded down.
\<close>
theorem timer_bring_up:
  assumes "pic_wired dev m0 s0" and "length (irq_handlers s) = 16"
  shows "let t = pit_init dev (pic_init s) in
    (\<forall>n. line_open (master m0 (bus t)) (slave s0 (bus t)) n = (n = 0)) \<and>
    irq_inv m0 s0 t \<and> irq_handlers t ! 0 = Some Pit_irq \<and>
    written PIT_CMD (bus t) = written PIT_CMD (bus (pic_init s)) @ [0x34] \<and>
    (\<exists>lo hi. written PIT_CH0 (bus t) = written PIT_CH0 (bus (pic_init s)) @ [lo, hi] \<and>
      le_val [lo, hi] = unat PIT_INPUT_HZ div unat PIT_HZ)"
  using assms
  by (simp add: Let_def bring_up_open_lines pit_init_inv_aux pic_init_inv_aux pit_init_handlers
      pit_init_written PIT_INPUT_HZ_def PIT_HZ_def)

text \<open>The statics before the kernel starts.\<close>

definition cold :: irq_state where
  "cold = \<lparr>bus = [], spurious_irqs = 0,
     idt = replicate IDT_ENTRIES \<lparr>offset_lo = 0, selector = 0, ist = 0, type_attr = 0, offset_mid = 0,
       offset_hi = 0, zero_word = 0\<rparr>,
     idtp = \<lparr>limit = 0, base_addr = 0\<rparr>, idtr = None,
     irq_handlers = replicate 16 None, isr_test_hits = 0, ticks = 0\<rparr>"

theorem timer_bring_up_witness:
  "irq_handlers (pit_init pic_device (pic_init cold)) ! 0 = Some Pit_irq \<and>
   (\<forall>n. line_open (master reset_chip (bus (pit_init pic_device (pic_init cold))))
     (slave reset_chip (bus (pit_init pic_device (pic_init cold)))) n = (n = 0))"
proof -
  have "length (irq_handlers cold) = 16" by (simp add: cold_def)
  from timer_bring_up [OF pic_device_wired this] show ?thesis by (simp add: Let_def)
qed

definition booted :: irq_state where
  "booted = pit_init pic_device (pic_init cold)"

lemma booted_facts:
  "irq_inv reset_chip reset_chip booted" "irq_handlers booted = (replicate 16 None)[0 := Some Pit_irq]"
  by (simp_all add: booted_def pit_init_inv_aux [OF pic_device_wired] pic_init_inv_aux pit_init_handlers cold_def)

section \<open>Every interrupt is finished, and counted once\<close>

text \<open>
  C25: from ready controllers, any sequence of real lines, spurious vectors 7 and 15 and self-test
  interrupts is handled to its end, and however it goes the controllers are then ready again: both
  operational, still delivering vectors 32 to 47, with nothing left in service. So no interrupt is
  acknowledged on the wrong chip, and none blocks the lines of lower priority for good.
\<close>
theorem irq_run_acknowledges:
  assumes "pic_wired dev m0 s0" and "irq_inv m0 s0 s" and "list_all event_ok es"
  shows "(\<exists>t. irq_run dev s es t) \<and>
    (\<forall>t. irq_run dev s es t \<longrightarrow> quiet (master m0 (bus t)) (slave s0 (bus t)))"
  using irq_run_total [OF assms] irq_run_facts [OF _ assms(1,2)] by (auto simp: irq_inv_def)

theorem irq_run_acknowledges_witness:
  "\<exists>t. irq_run pic_device booted [Line 0, Glitch 7, Line 15, Glitch 15, Line 7, Self_test] t \<and>
    quiet (master reset_chip (bus t)) (slave reset_chip (bus t))"
  using irq_run_acknowledges [OF pic_device_wired booted_facts(1),
      of "[Line 0, Glitch 7, Line 15, Glitch 15, Line 7, Self_test]"]
  by auto

text \<open>
  C26: what a run of interrupts does to the kernel's counters is what the abstract tally says: one
  tick for each event of a line whose handler is the timer's, one self-test hit for each self-test,
  one spurious interrupt for each vector with nothing behind it, and the handler and descriptor
  tables are unchanged.
\<close>
theorem irq_run_refines_tally:
  assumes "pic_wired dev m0 s0" and "irq_inv m0 s0 s" and "irq_run dev s es t"
  shows "tally_of t = foldl (tally_step (irq_handlers s)) (tally_of s) es \<and>
    irq_handlers t = irq_handlers s \<and> idt t = idt s"
  using irq_run_facts [OF assms(3,1,2)] by simp

theorem irq_run_refines_tally_witness:
  "\<exists>t. irq_run pic_device booted [Line 0, Glitch 15, Line 0, Self_test, Line 3] t \<and>
    tally_of t = (tally_of booted)\<lparr>spurious_seen := spurious_seen (tally_of booted) + 1,
      tests_seen := tests_seen (tally_of booted) + 1, ticks_seen := ticks_seen (tally_of booted) + 1 + 1\<rparr>"
proof -
  obtain t where t: "irq_run pic_device booted [Line 0, Glitch 15, Line 0, Self_test, Line 3] t"
    using irq_run_total [OF pic_device_wired booted_facts(1),
        of "[Line 0, Glitch 15, Line 0, Self_test, Line 3]"] by auto
  from irq_run_refines_tally [OF pic_device_wired booted_facts(1) t] t show ?thesis
    by (auto simp: booted_facts(2))
qed

text \<open>
  C27: with the timer's handler installed, \<open>sleep_ticks\<close> returns as soon as, and not
  before, n timer interrupts have come in: if the events to come hold at least n of them, the
  function returns after the first window that completes the count, and the windows it has used hold
  n ticks, but without the last one fewer. (The tick counter must not reach its 64-bit end.)
\<close>
theorem sleep_ticks_wakes:
  assumes "pic_wired dev m0 s0" and "irq_inv m0 s0 s" and "list_all (list_all event_ok) ws"
    and "unat (ticks s) + timer_irqs (irq_handlers s) (concat ws) < 2 ^ 64"
    and "unat n \<le> timer_irqs (irq_handlers s) (concat ws)"
  shows "\<exists>t used rest. sleep_ticks dev n ws s = Some (t, rest) \<and> ws = used @ rest \<and>
    unat (ticks t) = unat (ticks s) + timer_irqs (irq_handlers s) (concat used) \<and>
    unat n \<le> timer_irqs (irq_handlers s) (concat used) \<and>
    (used \<noteq> [] \<longrightarrow> timer_irqs (irq_handlers s) (concat (butlast used)) < unat n)"
proof -
  have "unat (ticks s + n) = unat (ticks s) + unat n"
    using assms(4,5) by (simp add: unat_word_ariths)
  with sleep_loop_spec [OF assms(1-4), of "ticks s + n"] assms(5) show ?thesis
    by (auto simp: sleep_ticks_def word_le_nat_alt)
qed

theorem sleep_ticks_wakes_witness:
  "\<exists>t used rest. sleep_ticks pic_device 2 [[Glitch 7], [Line 3, Line 0], [Line 0], [Line 0]] booted = Some (t, rest) \<and>
    [[Glitch 7], [Line 3, Line 0], [Line 0], [Line 0]] = used @ rest \<and>
    timer_irqs (irq_handlers booted) (concat used) \<ge> 2"
proof -
  have "ticks booted = 0"
    by (simp add: booted_def pit_init_eq after_pit_programming_def irq_install_def outb_def cold_def)
  moreover have "timer_irqs (irq_handlers booted) (concat [[Glitch 7], [Line 3, Line 0], [Line 0], [Line 0]]) = 3"
    by (simp add: booted_facts(2) timer_irqs_def)
  ultimately show ?thesis
    using sleep_ticks_wakes [OF pic_device_wired booted_facts(1),
        of "[[Glitch 7], [Line 3, Line 0], [Line 0], [Line 0]]" 2] by auto
qed

section \<open>The gates the processor reads\<close>

definition gate_bytes :: "idt_entry \<Rightarrow> u8 list" where
  "gate_bytes e = le_bytes 2 (unat (offset_lo e)) @ le_bytes 2 (unat (selector e)) @
     [ist e, type_attr e] @ le_bytes 2 (unat (offset_mid e)) @
     le_bytes 4 (unat (offset_hi e)) @ le_bytes 4 (unat (zero_word e))"

text \<open>A 64-bit interrupt gate as the processor decodes it: target, selector, stack index, attributes.\<close>

definition gate_target :: "u8 list \<Rightarrow> nat" where
  "gate_target bs = field_at bs 0 2 + 2 ^ 16 * field_at bs 6 2 + 2 ^ 32 * field_at bs 8 4"

definition gate_selector :: "u8 list \<Rightarrow> nat" where
  "gate_selector bs = field_at bs 2 2"

definition gate_attributes :: "u8 list \<Rightarrow> nat" where
  "gate_attributes bs = field_at bs 4 2"

lemma length_gate_bytes [simp]: "length (gate_bytes e) = 16"
  by (simp add: gate_bytes_def)

lemma drop_concat_uniform:
  "\<forall>x \<in> set xs. length x = k \<Longrightarrow> drop (k * v) (concat xs) = concat (drop v xs)"
proof (induction xs arbitrary: v)
  case (Cons x xs)
  then show ?case by (cases v) simp_all
qed simp

lemma take_drop_concat_uniform:
  assumes "\<forall>x \<in> set xs. length x = k" and "v < length xs"
  shows "take k (drop (k * v) (concat xs)) = xs ! v"
proof -
  have "drop v xs = xs ! v # drop (Suc v) xs"
    using assms(2) by (simp add: Cons_nth_drop_Suc)
  then show ?thesis
    using assms by (simp add: drop_concat_uniform)
qed

lemma idt_init_fold:
  assumes "length (idt s) = 256" and "n \<le> 256"
  shows "length (idt (foldl (\<lambda>s i. idt_set i (stubs i) s) s [0..<n])) = 256 \<and>
    (\<forall>v < n. idt (foldl (\<lambda>s i. idt_set i (stubs i) s) s [0..<n]) ! v =
       \<lparr>offset_lo = ucast (stubs v AND 0xFFFF), selector = 0x08, ist = 0, type_attr = 0x8E,
        offset_mid = ucast (drop_bit 16 (stubs v) AND 0xFFFF), offset_hi = ucast (drop_bit 32 (stubs v)),
        zero_word = 0\<rparr>)"
  using assms(2)
proof (induction n)
  case (Suc n)
  then show ?case by (auto simp: idt_set_def nth_list_update less_Suc_eq)
qed (simp add: assms(1))

lemma unat_and_0xFFFF: "unat (a AND 0xFFFF :: u64) = unat a mod 65536"
proof -
  have "(0xFFFF :: u64) = mask 16" by (simp add: mask_eq_exp_minus_1)
  then have "a AND 0xFFFF = take_bit 16 a" by (simp only: take_bit_eq_mask)
  then show ?thesis by (simp only: unsigned_take_bit_eq) (simp add: take_bit_eq_mod)
qed

lemma unat_drop_bit_u64: "unat (drop_bit n (a :: u64)) = unat a div 2 ^ n"
  by (simp only: unat_drop_bit_eq) (simp only: drop_bit_eq_div)

lemma split_address:
  fixes a :: u64
  shows "unat (ucast (a AND 0xFFFF) :: u16) + 2 ^ 16 * unat (ucast (drop_bit 16 a AND 0xFFFF) :: u16) +
    2 ^ 32 * unat (ucast (drop_bit 32 a) :: u32) = unat a"
proof -
  have "unat a < 2 ^ 64" by (rule unat_u64_less)
  then have "unat a div 2 ^ 32 < 2 ^ 32" by (simp add: div_less_iff_less_mult)
  then have "unat (ucast (drop_bit 32 a) :: u32) = unat a div 2 ^ 32"
    by (simp add: unsigned_ucast_eq unat_drop_bit_u64 take_bit_eq_mod)
  moreover have "unat (ucast (a AND 0xFFFF) :: u16) = unat a mod 2 ^ 16"
    by (simp add: unsigned_ucast_eq unat_and_0xFFFF take_bit_eq_mod)
  moreover have "unat (ucast (drop_bit 16 a AND 0xFFFF) :: u16) = unat a div 2 ^ 16 mod 2 ^ 16"
    by (simp add: unsigned_ucast_eq unat_and_0xFFFF unat_drop_bit_u64 take_bit_eq_mod)
  moreover have "x mod 65536 + 65536 * (x div 65536 mod 65536) + 4294967296 * (x div 4294967296) = x"
    for x :: nat
  proof -
    have "x div 4294967296 = x div 65536 div 65536"
      by (simp add: div_mult2_eq [symmetric])
    then show ?thesis
      using div_mult_mod_eq [of x 65536] div_mult_mod_eq [of "x div 65536" 65536] by linarith
  qed
  ultimately show ?thesis by simp
qed

lemma le_val_append: "le_val (a @ b) = le_val a + 256 ^ length a * le_val b"
  by (induction a) (simp_all add: algebra_simps)

lemma le_val_word16: "le_val (le_bytes 2 (unat (x :: u16))) = unat x"
  using unsigned_less [of x, where ?'a = nat] by (simp add: le_val_le_bytes)

lemma le_val_word32: "le_val (le_bytes 4 (unat (x :: u32))) = unat x"
  using unsigned_less [of x, where ?'a = nat] by (simp add: le_val_le_bytes)

lemma gate_fields:
  "gate_target (gate_bytes e) = unat (offset_lo e) + 2 ^ 16 * unat (offset_mid e) +
     2 ^ 32 * unat (offset_hi e)"
  "gate_selector (gate_bytes e) = unat (selector e)"
  "gate_attributes (gate_bytes e) = unat (ist e) + 256 * unat (type_attr e)"
  by (simp_all add: gate_target_def gate_selector_def gate_attributes_def gate_bytes_def field_at_def
      le_val_word16 le_val_word32)

text \<open>
  C36: after \<open>idt_init\<close> the descriptor-table register covers exactly the table, and the
  gate the processor finds in the table's memory image for each of the 256 vectors leads to that
  vector's stub, through the kernel code segment, as a present ring-0 interrupt gate with no stack
  switch. So splitting a stub's address over the three offset fields loses nothing.
\<close>
theorem idt_init_gates:
  assumes "length (idt s) = 256"
  shows "let t = idt_init stubs a s; image = concat (map gate_bytes (idt t)) in
    (\<exists>p. idtr t = Some p \<and> base_addr p = a \<and> unat (limit p) + 1 = length image) \<and>
    (\<forall>v < 256. let g = take 16 (drop (16 * v) image) in
       gate_target g = unat (stubs v) \<and> gate_selector g = 0x08 \<and> gate_attributes g = 0x8E00)"
proof -
  let ?f = "foldl (\<lambda>s i. idt_set i (stubs i) s) s [0..<256]"
  have idt: "idt (idt_init stubs a s) = idt ?f"
    by (simp add: idt_init_def IDT_ENTRIES_def)
  note fold = idt_init_fold [OF assms, where n = 256 and stubs = stubs, simplified]
  have len: "length (concat (map gate_bytes (idt ?f))) = 4096"
    using fold by (simp add: length_concat o_def sum_list_triv)
  have gate: "take 16 (drop (16 * v) (concat (map gate_bytes (idt ?f)))) = gate_bytes (idt ?f ! v)"
    if "v < 256" for v
    using take_drop_concat_uniform [of "map gate_bytes (idt ?f)" 16 v] fold that by simp
  have "gate_target (gate_bytes (idt ?f ! v)) = unat (stubs v) \<and>
      gate_selector (gate_bytes (idt ?f ! v)) = 0x08 \<and> gate_attributes (gate_bytes (idt ?f ! v)) = 0x8E00"
    if "v < 256" for v
    using fold that split_address [of "stubs v"] by (simp add: gate_fields)
  then show ?thesis
    by (simp add: Let_def idt gate len)
      (simp add: idt_init_def IDT_ENTRIES_def sizeof_idt_entry_def Let_def)
qed

theorem idt_init_gates_witness:
  "let t = idt_init (\<lambda>v. 0xFFFF800000100000 + 16 * of_nat v) 0x7000 cold in
   gate_target (take 16 (drop (16 * 0x21) (concat (map gate_bytes (idt t))))) = 0xFFFF800000100210"
proof -
  have "length (idt cold) = 256" by (simp add: cold_def IDT_ENTRIES_def)
  from idt_init_gates [OF this, where stubs = "\<lambda>v. 0xFFFF800000100000 + 16 * of_nat v" and a = "0x7000"]
  show ?thesis by (auto simp: Let_def dest!: spec [of _ "0x21"])
qed

end
