(* ===== verification/Kprintf.thy ===== *)
theory Kprintf
  imports Prelude
begin

text \<open>
  Formatted kernel output, src/kernel/debug/kprintf.c. A C string is the list of bytes from the
  pointer on to the end of the object it points into: the terminating zero and whatever follows it
  are part of the list, and reading at the empty list is reading outside the object, the result
  \<open>None\<close>. The variadic arguments are a list of values with the type they were passed
  at; taking one at another type, or one too many, is \<open>None\<close> as well. The console is a
  parameter: a sink is a name, and \<open>call\<close> says what calling the sink with a character
  does to the machine.
\<close>

section \<open>Sinks\<close>

record 'k console =
  sinks :: "'k list"          \<comment> \<open>the first \<open>nsinks\<close> entries of the C array\<close>

definition MAX_SINKS :: nat where "MAX_SINKS = 4"

definition console_register :: "'k \<Rightarrow> 'k console \<Rightarrow> 'k console" where
  "console_register fn con =
    (if length (sinks con) < MAX_SINKS then con\<lparr>sinks := sinks con @ [fn]\<rparr> else con)"

type_synonym ('k, 'w) sink_call = "'k \<Rightarrow> u8 \<Rightarrow> 'w \<Rightarrow> 'w"

definition emit :: "('k, 'w) sink_call \<Rightarrow> 'k console \<Rightarrow> u8 \<Rightarrow> 'w \<Rightarrow> 'w" where
  "emit call con c w = foldl (\<lambda>w k. call k c w) w (sinks con)"

text \<open>The functions below take the emit function of the console as \<open>em\<close>.\<close>

type_synonym 'w emitter = "u8 \<Rightarrow> 'w \<Rightarrow> 'w"

fun emit_str :: "'w emitter \<Rightarrow> u8 list \<Rightarrow> 'w \<Rightarrow> 'w option" where
  "emit_str em [] w = None"
| "emit_str em (c # s) w = (if c = 0 then Some w else emit_str em s (em c w))"

section \<open>Numbers\<close>

definition bytes_of :: "string \<Rightarrow> u8 list" where
  "bytes_of s = map (\<lambda>c. of_nat (of_char c)) s"

definition ld :: "u8 list" where "ld = bytes_of ''0123456789abcdef''"
definition ud :: "u8 list" where "ud = bytes_of ''0123456789ABCDEF''"

text \<open>
  The remainders the digit loop of \<open>emit_uint\<close> takes, in the order it stores them. The
  callers pass the bases 10 and 16; with a base below 2 the C loop would not end.
\<close>

function uint_digits :: "u64 \<Rightarrow> u64 \<Rightarrow> u64 list" where
  "uint_digits base v =
    (if base < 2 then []
     else v mod base # (if v div base = 0 then [] else uint_digits base (v div base)))"
  by pat_completeness auto
termination
proof (relation "measure (\<lambda>(base, v). unat v)")
  fix base v :: u64
  assume b: "\<not> base < 2" and nz: "v div base \<noteq> 0"
  have "2 \<le> unat base" using b by (simp add: word_less_nat_alt)
  moreover have "v \<noteq> 0" using nz by auto
  then have "0 < unat v" by (simp add: unat_gt_0)
  ultimately have "unat v div unat base < unat v" by simp
  then show "((base, v div base), base, v) \<in> measure (\<lambda>(base, v). unat v)"
    by (simp add: unat_div)
qed simp

declare uint_digits.simps [simp del]

definition BUF_SIZE :: nat where "BUF_SIZE = 24"

fun repeat_char :: "'w emitter \<Rightarrow> u8 \<Rightarrow> nat \<Rightarrow> 'w \<Rightarrow> 'w" where
  "repeat_char em c 0 w = w"
| "repeat_char em c (Suc n) w = repeat_char em c n (em c w)"

text \<open>The buffer holds 24 digits; writing a 25th is out of its bounds.\<close>

definition emit_uint :: "'w emitter \<Rightarrow> u64 \<Rightarrow> u64 \<Rightarrow> bool \<Rightarrow> int \<Rightarrow> bool \<Rightarrow> 'w \<Rightarrow> 'w option" where
  "emit_uint em v base upper width zero w =
    (let dig = (if upper then ud else ld);
         buf = map (\<lambda>d. dig ! unat d) (uint_digits base v);
         n = length buf
     in if BUF_SIZE < n then None
        else
          (let w = repeat_char em (if zero then 48 else 32) (nat (width - int n)) w
           in Some (foldl (\<lambda>w c. em c w) w (rev buf))))"

section \<open>Conversions\<close>

datatype arg =
    Arg_int u32                   \<comment> \<open>an \<open>int\<close> or \<open>unsigned\<close>\<close>
  | Arg_long u64                  \<comment> \<open>a 64-bit integer\<close>
  | Arg_str "u8 list option"      \<comment> \<open>a string pointer, \<open>None\<close> the null pointer\<close>
  | Arg_ptr u64

text \<open>
  \<open>read_width\<close> is the loop over the digits of the field width; a width beyond the range
  of \<open>int\<close> is undefined. \<open>skip_longs\<close> counts the length letters.
\<close>

fun read_width :: "u8 list \<Rightarrow> int \<Rightarrow> (int \<times> u8 list) option" where
  "read_width [] width = None"
| "read_width (c # fmt) width =
    (if 48 \<le> c \<and> c \<le> 57 then
       (if 2147483647 < width * 10 + int (unat c - 48) then None
        else read_width fmt (width * 10 + int (unat c - 48)))
     else Some (width, c # fmt))"

fun skip_longs :: "u8 list \<Rightarrow> nat \<Rightarrow> (nat \<times> u8 list) option" where
  "skip_longs [] longs = None"
| "skip_longs (c # fmt) longs = (if c = 108 then skip_longs fmt (Suc longs) else Some (longs, c # fmt))"

fun next_int :: "nat \<Rightarrow> arg list \<Rightarrow> (u64 \<times> arg list) option" where
  "next_int 0 (Arg_int v # ap) = Some (scast v, ap)"
| "next_int (Suc l) (Arg_long v # ap) = Some (v, ap)"
| "next_int l ap = None"

fun next_uint :: "nat \<Rightarrow> arg list \<Rightarrow> (u64 \<times> arg list) option" where
  "next_uint 0 (Arg_int v # ap) = Some (ucast v, ap)"
| "next_uint (Suc l) (Arg_long v # ap) = Some (v, ap)"
| "next_uint l ap = None"

text \<open>
  One conversion: the letter \<open>c\<close> with its flags takes its argument and prints it. A
  letter the switch does not know is printed after a percent sign, and so is the terminating zero.
\<close>

definition convert :: "'w emitter \<Rightarrow> bool \<Rightarrow> int \<Rightarrow> nat \<Rightarrow> u8 \<Rightarrow> arg list \<Rightarrow> 'w \<Rightarrow> (arg list \<times> 'w) option" where
  "convert em zero width longs c ap w =
    (if c = 115 then                                                          \<comment> \<open>s\<close>
       (case ap of
          Arg_str p # ap \<Rightarrow>
            (case emit_str em (case p of Some s \<Rightarrow> s | None \<Rightarrow> bytes_of ''(null)'' @ [0]) w of
               Some w \<Rightarrow> Some (ap, w) | None \<Rightarrow> None)
        | _ \<Rightarrow> None)
     else if c = 99 then                                                      \<comment> \<open>c\<close>
       (case ap of Arg_int v # ap \<Rightarrow> Some (ap, em (ucast v) w) | _ \<Rightarrow> None)
     else if c = 100 \<or> c = 105 then                                           \<comment> \<open>d i\<close>
       (case next_int longs ap of
          Some (v, ap) \<Rightarrow>
            (let (m, w) = (if v <s 0 then (0 - v, em 45 w) else (v, w))
             in case emit_uint em m 10 False width zero w of
                  Some w \<Rightarrow> Some (ap, w) | None \<Rightarrow> None)
        | None \<Rightarrow> None)
     else if c = 117 then                                                     \<comment> \<open>u\<close>
       (case next_uint longs ap of
          Some (v, ap) \<Rightarrow>
            (case emit_uint em v 10 False width zero w of Some w \<Rightarrow> Some (ap, w) | None \<Rightarrow> None)
        | None \<Rightarrow> None)
     else if c = 120 \<or> c = 88 then                                            \<comment> \<open>x X\<close>
       (case next_uint longs ap of
          Some (v, ap) \<Rightarrow>
            (case emit_uint em v 16 (c = 88) width zero w of Some w \<Rightarrow> Some (ap, w) | None \<Rightarrow> None)
        | None \<Rightarrow> None)
     else if c = 112 then                                                     \<comment> \<open>p\<close>
       (case ap of
          Arg_ptr v # ap \<Rightarrow>
            (case emit_str em (bytes_of ''0x'' @ [0]) w of
               Some w \<Rightarrow>
                 (case emit_uint em v 16 False 16 True w of Some w \<Rightarrow> Some (ap, w) | None \<Rightarrow> None)
             | None \<Rightarrow> None)
        | _ \<Rightarrow> None)
     else if c = 37 then Some (ap, em 37 w)                                   \<comment> \<open>%\<close>
     else Some (ap, em c (em 37 w)))"

text \<open>
  The flags and the letter after a percent sign, and the format from the character behind the
  letter on.
\<close>

definition parse_spec :: "u8 list \<Rightarrow> (bool \<times> int \<times> nat \<times> u8 \<times> u8 list) option" where
  "parse_spec fmt =
    (case fmt of
       [] \<Rightarrow> None
     | c # rest \<Rightarrow>
         (let (zero, fmt) = (if c = 48 then (True, rest) else (False, fmt))
          in case read_width fmt 0 of
               None \<Rightarrow> None
             | Some (width, fmt) \<Rightarrow>
                 (case skip_longs fmt 0 of
                    Some (longs, c # fmt) \<Rightarrow> Some (zero, width, longs, c, fmt)
                  | _ \<Rightarrow> None)))"

lemma read_width_shorter: "read_width fmt a = Some (b, r) \<Longrightarrow> length r \<le> length fmt"
  by (induction fmt a rule: read_width.induct) (auto split: if_splits)

lemma skip_longs_shorter: "skip_longs fmt a = Some (b, r) \<Longrightarrow> length r \<le> length fmt"
  by (induction fmt a rule: skip_longs.induct) (auto split: if_splits)

lemma parse_spec_shorter: "parse_spec fmt = Some (z, wd, l, c, r) \<Longrightarrow> length r < length fmt"
  by (auto simp: parse_spec_def Let_def split: list.splits if_splits option.splits prod.splits
      dest!: read_width_shorter skip_longs_shorter)

function kvprintf :: "'w emitter \<Rightarrow> u8 list \<Rightarrow> arg list \<Rightarrow> 'w \<Rightarrow> 'w option" where
  "kvprintf em [] ap w = None"
| "kvprintf em (c # fmt) ap w =
    (if c = 0 then Some w
     else if c \<noteq> 37 then kvprintf em fmt ap (em c w)
     else
       (case parse_spec fmt of
          None \<Rightarrow> None
        | Some (zero, width, longs, l, rest) \<Rightarrow>
            (case convert em zero width longs l ap w of
               None \<Rightarrow> None
             | Some (ap, w) \<Rightarrow> kvprintf em rest ap w)))"
  by pat_completeness auto
termination
  by (relation "measure (\<lambda>(em, fmt, ap, w). length fmt)") (auto dest!: parse_spec_shorter)

definition kprintf :: "('k, 'w) sink_call \<Rightarrow> 'k console \<Rightarrow> u8 list \<Rightarrow> arg list \<Rightarrow> 'w \<Rightarrow> 'w option" where
  "kprintf call con fmt ap w = kvprintf (emit call con) fmt ap w"

section \<open>Output does not depend on where it goes\<close>

text \<open>Sending a text through an emitter, and the emitter that only collects the text.\<close>

definition send :: "'w emitter \<Rightarrow> u8 list \<Rightarrow> 'w \<Rightarrow> 'w" where
  "send em t w = foldl (\<lambda>w c. em c w) w t"

definition collect :: "u8 list emitter" where
  "collect c t = t @ [c]"

definition sprintf :: "u8 list \<Rightarrow> arg list \<Rightarrow> u8 list option" where
  "sprintf fmt ap = kvprintf collect fmt ap []"

lemma send_Nil [simp]: "send em [] w = w"
  by (simp add: send_def)

lemma send_append: "send em (a @ b) w = send em b (send em a w)"
  by (simp add: send_def)

lemma send_snoc: "send em (a @ [c]) w = em c (send em a w)"
  by (simp add: send_def)

lemma send_collect: "send collect t u = u @ t"
  by (induction t arbitrary: u) (simp_all add: send_def collect_def)

lemma send_em: "em' c (send em' t w0) = send em' (collect c t) w0"
  by (simp add: collect_def send_snoc)

text \<open>A map between machine states that commutes with emitting commutes with every operation.\<close>

locale emitter_map =
  fixes em :: "'v emitter" and em' :: "'w emitter" and h :: "'v \<Rightarrow> 'w"
  assumes hom: "em' c (h t) = h (em c t)"
begin

lemma emit_str_hom: "emit_str em' s (h t) = map_option h (emit_str em s t)"
  by (induction s arbitrary: t) (simp_all add: hom)

lemma repeat_char_hom: "repeat_char em' c n (h t) = h (repeat_char em c n t)"
  by (induction n arbitrary: t) (simp_all add: hom)

lemma foldl_hom: "foldl (\<lambda>w c. em' c w) (h t) cs = h (foldl (\<lambda>w c. em c w) t cs)"
  by (induction cs arbitrary: t) (simp_all add: hom)

lemma emit_uint_hom:
  "emit_uint em' v base upper width zero (h t) = map_option h (emit_uint em v base upper width zero t)"
  by (simp add: emit_uint_def Let_def repeat_char_hom foldl_hom)

lemma convert_hom:
  "convert em' zero width longs c ap (h t) =
    map_option (\<lambda>(ap, w). (ap, h w)) (convert em zero width longs c ap t)"
proof -
  note [simp] = emit_str_hom emit_uint_hom hom Let_def map_option_case
  consider "c = 115" | "c = 99" | "c = 100 \<or> c = 105" | "c = 117" | "c = 120 \<or> c = 88" | "c = 112"
    | "c \<notin> {115, 99, 100, 105, 117, 120, 88, 112}"
    by blast
  then show ?thesis
  proof cases
    case 3
    then show ?thesis
      by (auto simp: convert_def split: option.split)
  next
    case 7
    then show ?thesis by (simp add: convert_def)
  qed (auto simp: convert_def split: option.split list.split arg.split)
qed

lemma kvprintf_hom: "kvprintf em' fmt ap (h t) = map_option h (kvprintf em fmt ap t)"
proof (induction fmt arbitrary: ap t rule: length_induct)
  case (1 fmt)
  show ?case
  proof (cases fmt)
    case (Cons c rest)
    with 1 show ?thesis
      by (auto simp: hom convert_hom map_option_case dest!: parse_spec_shorter split: option.split)
  qed simp
qed

end

text \<open>Collecting the text and sending it afterwards is such a map.\<close>

interpretation sending: emitter_map collect em "\<lambda>t. send em t w" for em w
  by unfold_locales (rule send_em)

section \<open>Numbers read back\<close>

text \<open>The value of a digit character, and of a text of digits, most significant first.\<close>

definition digit_value :: "u8 \<Rightarrow> nat" where
  "digit_value c =
    (if 48 \<le> c \<and> c \<le> 57 then unat c - 48
     else if 97 \<le> c then unat c - 87 else unat c - 55)"

definition number_of :: "nat \<Rightarrow> u8 list \<Rightarrow> nat" where
  "number_of base cs = foldl (\<lambda>a c. base * a + digit_value c) 0 cs"

definition digit_text :: "u64 \<Rightarrow> bool \<Rightarrow> u64 \<Rightarrow> u8 list" where
  "digit_text base upper v = rev (map (\<lambda>d. (if upper then ud else ld) ! unat d) (uint_digits base v))"

lemma ld_list: "ld = [48, 49, 50, 51, 52, 53, 54, 55, 56, 57, 97, 98, 99, 100, 101, 102]"
  by (simp add: ld_def bytes_of_def)

lemma ud_list: "ud = [48, 49, 50, 51, 52, 53, 54, 55, 56, 57, 65, 66, 67, 68, 69, 70]"
  by (simp add: ud_def bytes_of_def)

lemma digit_value_dig:
  assumes "k < 16"
  shows "digit_value ((if upper then ud else ld) ! k) = k"
proof -
  have "k \<in> {0, 1, 2, 3, 4, 5, 6, 7, 8, 9, 10, 11, 12, 13, 14, 15}"
    using assms by (simp add: less_Suc_eq numeral_eq_Suc)
  then show ?thesis by (cases upper) (auto simp: ld_list ud_list digit_value_def)
qed

lemma uint_digits_small: "2 \<le> base \<Longrightarrow> d \<in> set (uint_digits base v) \<Longrightarrow> unat d < unat base"
proof (induction base v rule: uint_digits.induct)
  case (1 base v)
  then have "\<not> base < 2" by simp
  moreover from this have "0 < unat base" by (simp add: word_less_nat_alt)
  ultimately show ?case using 1
    by (subst (asm) uint_digits.simps) (auto simp: unat_mod split: if_splits)
qed

lemma uint_digits_value:
  "2 \<le> base \<Longrightarrow> foldr (\<lambda>d a. unat base * a + unat d) (uint_digits base v) 0 = unat v"
proof (induction base v rule: uint_digits.induct)
  case (1 base v)
  then have nb: "\<not> base < 2" by simp
  show ?case
  proof (cases "v div base = 0")
    case True
    then have "unat v div unat base = 0" by (metis unat_0 unat_div)
    then have "unat v mod unat base = unat v" by (metis div_mult_mod_eq add_0 mult_zero_left)
    with True nb show ?thesis
      by (subst uint_digits.simps) (simp add: unat_mod)
  next
    case False
    with 1 nb show ?thesis
      by (subst uint_digits.simps) (simp add: unat_mod unat_div)
  qed
qed

lemma uint_digits_length:
  "2 \<le> base \<Longrightarrow> 1 < length (uint_digits base v) \<Longrightarrow>
    unat base ^ (length (uint_digits base v) - 1) \<le> unat v"
proof (induction base v rule: uint_digits.induct)
  case (1 base v)
  then have nb: "\<not> base < 2" by simp
  have nz: "v div base \<noteq> 0"
    using 1(3) nb by (auto simp: uint_digits.simps [of base v] split: if_splits)
  let ?n = "length (uint_digits base (v div base))"
  have len: "length (uint_digits base v) = Suc ?n"
    using nb nz by (simp add: uint_digits.simps [of base v])
  have q: "unat (v div base) = unat v div unat base" by (rule unat_div)
  have pos: "0 < unat v div unat base" using nz q by (metis unat_eq_zero gr0I)
  have "unat base ^ (?n - 1) \<le> unat v div unat base"
  proof (cases "1 < ?n")
    case True
    with 1(1) [OF nb nz 1(2)] q show ?thesis by simp
  next
    case False
    with pos show ?thesis by (simp add: Suc_le_eq)
  qed
  then have "unat base * unat base ^ (?n - 1) \<le> unat v"
    by (metis mult.commute mult_le_mono2 times_div_less_eq_dividend le_trans)
  moreover have "0 < ?n" by (subst uint_digits.simps) (use nb in simp)
  ultimately show ?case by (simp add: len flip: power_Suc)
qed

lemma uint_digits_bound:
  assumes "base = 10 \<or> base = 16"
  shows "length (uint_digits base v) \<le> 20"
proof (rule ccontr)
  assume "\<not> ?thesis"
  then have l: "20 \<le> length (uint_digits base v) - 1" "1 < length (uint_digits base v)" by simp_all
  have b: "10 \<le> unat base" "2 \<le> base" using assms by auto
  have "10 ^ 20 \<le> unat base ^ 20" using b(1) by (rule power_mono) simp
  also have "\<dots> \<le> unat base ^ (length (uint_digits base v) - 1)"
    by (rule power_increasing) (use l b in auto)
  also have "\<dots> \<le> unat v" using uint_digits_length [OF b(2) l(2)] .
  finally show False using unat_u64_less [of v] by simp
qed

lemma uint_digits_nonempty: "2 \<le> base \<Longrightarrow> uint_digits base v \<noteq> []"
  by (subst uint_digits.simps) simp

lemma uint_digits_zero: "2 \<le> base \<Longrightarrow> uint_digits base 0 = [0]"
  by (subst uint_digits.simps) simp

lemma last_digit_nonzero: "2 \<le> base \<Longrightarrow> v \<noteq> 0 \<Longrightarrow> last (uint_digits base v) \<noteq> 0"
proof (induction base v rule: uint_digits.induct)
  case (1 base v)
  then have nb: "\<not> base < 2" by simp
  show ?case
  proof (cases "v div base = 0")
    case True
    then have "v mod base = v" by (metis div_mult_mod_eq add_0 mult_zero_left)
    with True nb 1(3) show ?thesis by (subst uint_digits.simps) simp
  next
    case False
    with 1 nb uint_digits_nonempty show ?thesis by (subst uint_digits.simps) simp
  qed
qed

lemma length_digit_text: "length (digit_text base upper v) = length (uint_digits base v)"
  by (simp add: digit_text_def)

lemma number_of_rev:
  "number_of b (rev cs) = foldr (\<lambda>c a. b * a + digit_value c) cs 0"
  by (simp add: number_of_def foldl_conv_foldr)

lemma digit_text_number:
  assumes "base = 10 \<or> base = 16"
  shows "number_of (unat base) (digit_text base upper v) = unat v"
proof -
  have b: "2 \<le> base" "unat base \<le> 16" using assms by auto
  have "foldr (\<lambda>c a. unat base * a + digit_value c) (map (\<lambda>d. (if upper then ud else ld) ! unat d) ds) 0 =
      foldr (\<lambda>d a. unat base * a + unat d) ds 0" if "\<forall>d \<in> set ds. unat d < 16" for ds :: "u64 list"
    using that by (induction ds) (auto simp: digit_value_dig)
  moreover have "\<forall>d \<in> set (uint_digits base v). unat d < 16"
    using uint_digits_small [OF b(1)] b(2) by fastforce
  ultimately show ?thesis
    by (simp add: digit_text_def number_of_rev uint_digits_value [OF b(1)])
qed

lemma digit_text_leading:
  assumes "base = 10 \<or> base = 16"
  shows "digit_text base upper v \<noteq> []" and "hd (digit_text base upper v) = 48 \<Longrightarrow> digit_text base upper v = [48]"
proof -
  have b: "2 \<le> base" "unat base \<le> 16" using assms by auto
  note ne = uint_digits_nonempty [OF b(1), of v]
  then show "digit_text base upper v \<noteq> []" by (simp add: digit_text_def)
  assume h: "hd (digit_text base upper v) = 48"
  let ?d = "last (uint_digits base v)"
  have "hd (digit_text base upper v) = (if upper then ud else ld) ! unat ?d"
    using ne by (simp add: digit_text_def hd_rev last_map)
  moreover have "unat ?d < 16"
    using uint_digits_small [OF b(1) last_in_set [OF ne]] b(2) by simp
  ultimately have "unat ?d = digit_value 48"
    using digit_value_dig [of "unat ?d" upper] h by simp
  then have "?d = 0" by (simp add: digit_value_def unat_eq_zero)
  then have "v = 0" using last_digit_nonzero [OF b(1)] by blast
  then show "digit_text base upper v = [48]"
    by (simp add: digit_text_def uint_digits_zero [OF b(1)] ld_list ud_list)
qed

lemma repeat_char_send: "repeat_char em c n w = send em (replicate n c) w"
  by (induction n arbitrary: w) (simp_all add: send_def)

lemma emit_uint_text:
  assumes "base = 10 \<or> base = 16"
  shows "emit_uint em v base upper width zero w = Some (send em
    (replicate (nat (width - int (length (digit_text base upper v)))) (if zero then 48 else 32) @
     digit_text base upper v) w)"
  using uint_digits_bound [OF assms, of v]
  by (simp add: emit_uint_def Let_def BUF_SIZE_def repeat_char_send send_append length_digit_text)
    (simp add: send_def digit_text_def)

text \<open>
  C32: \<open>emit_uint\<close> never writes outside its 24-byte buffer, and the text it emits is the
  number: padding up to the field width, with zeros or blanks as asked, and then digits without a
  leading zero that read back, in the base, as the value, for every 64-bit value in base 10 and 16.
\<close>
theorem emit_uint_reads_back:
  assumes "base = 10 \<or> base = 16"
  shows "\<exists>pad ds. emit_uint em v base upper width zero w = Some (send em (pad @ ds) w) \<and>
    number_of (unat base) ds = unat v \<and> ds \<noteq> [] \<and> (hd ds = 48 \<longrightarrow> ds = [48]) \<and> length ds \<le> 20 \<and>
    pad = replicate (nat width - length ds) (if zero then 48 else 32)"
proof -
  have "nat (width - int (length ds)) = nat width - length ds" for ds :: "u8 list"
    by simp
  then show ?thesis
    using emit_uint_text [OF assms, of em v upper width zero w] digit_text_number [OF assms, of upper v]
      digit_text_leading [OF assms, of upper v] uint_digits_bound [OF assms, of v]
    by (metis length_digit_text)
qed

theorem emit_uint_reads_back_witness:
  "\<exists>pad ds. emit_uint collect 0xFFFFFFFFFFFFFFFF 10 False 24 True [] = Some (pad @ ds) \<and>
    number_of 10 ds = 18446744073709551615 \<and> length (pad @ ds) = 24"
proof -
  have "(10 :: u64) = 10 \<or> (10 :: u64) = 16" by simp
  from emit_uint_reads_back [OF this, of collect "0xFFFFFFFFFFFFFFFF" False 24 True "[]"]
  obtain pad ds where "emit_uint collect 0xFFFFFFFFFFFFFFFF 10 False 24 True [] = Some (pad @ ds)"
    "number_of 10 ds = 18446744073709551615" "length ds \<le> 20" "length pad = 24 - length ds"
    by (auto simp: send_collect)
  then show ?thesis by (intro exI [of _ pad] exI [of _ ds]) simp
qed

lemma abs_sint:
  fixes v :: u64
  shows "int (unat (if v <s 0 then 0 - v else v)) = \<bar>sint v\<bar>"
proof -
  have u: "uint v = sint v mod 2 ^ 64"
    unfolding uint_sint [of v] by (simp add: take_bit_eq_mod)
  have b: "- (2 ^ 63) \<le> sint v" "sint v < 2 ^ 63"
    using sint_ge [of v] sint_lt [of v] by simp_all
  have neg: "v <s 0 \<longleftrightarrow> sint v < 0" by (simp add: word_sless_alt)
  show ?thesis
  proof (cases "sint v < 0")
    case True
    have "uint (0 - v) = (- uint v) mod 2 ^ 64"
      using uint_word_ariths(2) [of 0 v] by simp
    also have "\<dots> = (- sint v) mod 2 ^ 64" by (simp add: u mod_minus_eq)
    also have "\<dots> = - sint v" using b True by (intro mod_pos_pos_trivial) simp_all
    finally show ?thesis using True neg by simp
  next
    case False
    then have "uint v = sint v" unfolding u using b by (intro mod_pos_pos_trivial) simp_all
    with False neg show ?thesis by simp
  qed
qed
text \<open>
  A signed conversion prints a minus sign exactly for a negative argument, and then digits that
  read back as its absolute value; the most negative 64-bit value is no exception.
\<close>
theorem convert_signed_reads_back:
  assumes "next_int longs ap = Some (v, rest)"
  shows "\<exists>ds. convert collect zero 0 longs 100 ap [] =
      Some (rest, (if sint v < 0 then 45 # ds else ds)) \<and>
    int (number_of 10 ds) = \<bar>sint v\<bar>"
proof -
  let ?m = "if v <s 0 then 0 - v else v"
  have "convert collect zero 0 longs 100 ap [] =
      Some (rest, (if sint v < 0 then 45 # digit_text 10 False ?m else digit_text 10 False ?m))"
    using assms by (simp add: convert_def Let_def emit_uint_text send_collect collect_def word_sless_alt)
  moreover have "int (number_of 10 (digit_text 10 False ?m)) = \<bar>sint v\<bar>"
    using digit_text_number [of 10 False ?m] abs_sint [of v] by simp
  ultimately show ?thesis by blast
qed

section \<open>Formats\<close>

text \<open>
  A format as the programmer means it: plain characters, and conversions with their flags. Printing
  one gives the format string; \<open>render\<close> is the text it stands for.
\<close>

datatype piece =
    Chr u8
  | Spec bool nat nat u8    \<comment> \<open>zero flag, field width (0: none), length letters, conversion letter\<close>

fun dec_bytes :: "nat \<Rightarrow> u8 list" where
  "dec_bytes n = (if n < 10 then [of_nat (48 + n)] else dec_bytes (n div 10) @ [of_nat (48 + n mod 10)])"

declare dec_bytes.simps [simp del]

fun piece_bytes :: "piece \<Rightarrow> u8 list" where
  "piece_bytes (Chr c) = [c]"
| "piece_bytes (Spec zero wd l c) =
    37 # (if zero then [48] else []) @ (if wd = 0 then [] else dec_bytes wd) @ replicate l 108 @ [c]"

definition is_digit :: "u8 \<Rightarrow> bool" where
  "is_digit c \<longleftrightarrow> 48 \<le> c \<and> c \<le> 57"

fun piece_ok :: "piece \<Rightarrow> bool" where
  "piece_ok (Chr c) = (c \<noteq> 0 \<and> c \<noteq> 37)"
| "piece_ok (Spec zero wd l c) = (wd \<le> 2147483647 \<and> c \<noteq> 108 \<and> \<not> is_digit c)"

fun render :: "piece list \<Rightarrow> arg list \<Rightarrow> u8 list option" where
  "render [] ap = Some []"
| "render (Chr c # ps) ap = map_option (\<lambda>t. c # t) (render ps ap)"
| "render (Spec zero wd l c # ps) ap =
    (case convert collect zero (int wd) l c ap [] of
       None \<Rightarrow> None
     | Some (ap, t) \<Rightarrow> map_option (\<lambda>u. t @ u) (render ps ap))"

text \<open>Text collected before a format is printed stays in front of what it prints.\<close>

interpretation prefixing: emitter_map collect collect "\<lambda>u. t @ u" for t
  by unfold_locales (simp add: collect_def)

lemma sprintf_zero [simp]: "sprintf (0 # tail) ap = Some []"
  by (simp add: sprintf_def)

lemma sprintf_chr:
  assumes "c \<noteq> 0" and "c \<noteq> 37"
  shows "sprintf (c # fmt) ap = map_option (\<lambda>t. c # t) (sprintf fmt ap)"
  using assms prefixing.kvprintf_hom [of fmt ap "[c]" "[]"] by (simp add: sprintf_def collect_def)

lemma sprintf_spec:
  assumes "parse_spec fmt = Some (zero, wd, l, c, rest)"
  shows "sprintf (37 # fmt) ap =
    (case convert collect zero wd l c ap [] of
       None \<Rightarrow> None
     | Some (ap, t) \<Rightarrow> map_option (\<lambda>u. t @ u) (sprintf rest ap))"
proof (cases "convert collect zero wd l c ap []")
  case (Some p)
  obtain ap' t where "p = (ap', t)" by (cases p)
  with Some assms prefixing.kvprintf_hom [of rest ap' t "[]"] show ?thesis
    by (simp add: sprintf_def)
qed (simp add: sprintf_def assms)

lemma dec_bytes_nonempty: "dec_bytes n \<noteq> []"
  by (subst dec_bytes.simps) simp

lemma hd_dec_bytes: "0 < n \<Longrightarrow> hd (dec_bytes n) \<noteq> 48"
proof (induction n rule: dec_bytes.induct)
  case (1 n)
  show ?case
  proof (cases "n < 10")
    case True
    then have "unat (of_nat (48 + n) :: u8) = 48 + n" by (simp only: unat_of_nat) simp
    with 1(2) True show ?thesis
      by (subst dec_bytes.simps) (auto dest: arg_cong [where f = unat])
  next
    case False
    with 1 dec_bytes_nonempty show ?thesis by (subst dec_bytes.simps) simp
  qed
qed

lemma digit_byte:
  assumes "d < 10"
  shows "48 \<le> (of_nat (48 + d) :: u8)" "(of_nat (48 + d) :: u8) \<le> 57"
    "unat (of_nat (48 + d) :: u8) - 48 = d"
proof -
  have "d \<in> {0, 1, 2, 3, 4, 5, 6, 7, 8, 9}" using assms by auto
  then show "48 \<le> (of_nat (48 + d) :: u8)" "(of_nat (48 + d) :: u8) \<le> 57"
    "unat (of_nat (48 + d) :: u8) - 48 = d" by auto
qed

lemma read_width_step:
  assumes "d < 10" and "int n * 10 + int d \<le> 2147483647"
  shows "read_width (of_nat (48 + d) # r) (int n) = read_width r (int (n * 10 + d))"
  using digit_byte [OF assms(1)] assms(2)
  by (simp del: of_nat_add) (simp add: of_nat_add)

lemma read_width_dec:
  "n \<le> 2147483647 \<Longrightarrow> read_width (dec_bytes n @ r) 0 = read_width r (int n)"
proof (induction n arbitrary: r rule: dec_bytes.induct)
  case (1 n)
  show ?case
  proof (cases "n < 10")
    case True
    then show ?thesis using read_width_step [of n 0 r] 1(2) by (subst dec_bytes.simps) simp
  next
    case False
    have "read_width (dec_bytes (n div 10) @ of_nat (48 + n mod 10) # r) 0 =
        read_width (of_nat (48 + n mod 10) # r) (int (n div 10))"
      by (rule 1(1)) (use False 1(2) in simp_all)
    also have "\<dots> = read_width r (int (n div 10 * 10 + n mod 10))"
    proof (rule read_width_step)
      have "int (n div 10) * 10 + int (n mod 10) = int n"
        by (metis of_nat_add of_nat_mult div_mult_mod_eq of_nat_numeral)
      with 1(2) show "int (n div 10) * 10 + int (n mod 10) \<le> 2147483647" by simp
    qed simp
    finally show ?thesis
      using False by (subst dec_bytes.simps) simp
  qed
qed

lemma read_width_stop: "\<not> is_digit c \<Longrightarrow> read_width (c # r) a = Some (a, c # r)"
  by (auto simp: is_digit_def)

lemma skip_longs_replicate:
  "c \<noteq> 108 \<Longrightarrow> skip_longs (replicate l 108 @ c # r) k = Some (k + l, c # r)"
  by (induction l arbitrary: k) simp_all

lemma spec_tail_digit:
  assumes "\<not> is_digit c"
  shows "\<exists>x xs. replicate l 108 @ c # r = x # xs \<and> \<not> is_digit x \<and> x \<noteq> 48"
  using assms by (cases l) (auto simp: is_digit_def)

lemma parse_spec_bytes:
  assumes "wd \<le> 2147483647" and "c \<noteq> 108" and "\<not> is_digit c"
  shows "parse_spec ((if zero then [48] else []) @ (if wd = 0 then [] else dec_bytes wd) @
      replicate l 108 @ c # rest) = Some (zero, int wd, l, c, rest)"
proof -
  obtain x xs where x: "replicate l 108 @ c # rest = x # xs" "\<not> is_digit x" "x \<noteq> 48"
    using spec_tail_digit [OF assms(3)] by blast
  let ?w = "(if wd = 0 then [] else dec_bytes wd) @ x # xs"
  have rw: "read_width ?w 0 = Some (int wd, x # xs)"
    using read_width_dec [OF assms(1), of "x # xs"] read_width_stop [OF x(2)] by simp
  have sl: "skip_longs (x # xs) 0 = Some (l, c # rest)"
    using skip_longs_replicate [OF assms(2), of l rest 0] x(1) by simp
  have "?w \<noteq> []" "hd ?w \<noteq> 48"
    using x(3) hd_dec_bytes [of wd] dec_bytes_nonempty [of wd] by auto
  then obtain y ys where "?w = y # ys" "y \<noteq> 48" by (cases ?w) auto
  then show ?thesis
    using rw sl unfolding x(1) by (simp add: parse_spec_def)
qed

lemma sprintf_pieces_aux:
  "list_all piece_ok ps \<Longrightarrow> sprintf (concat (map piece_bytes ps) @ 0 # tail) ap = render ps ap"
proof (induction ps arbitrary: ap)
  case (Cons p ps)
  show ?case
  proof (cases p)
    case (Chr c)
    with Cons show ?thesis by (simp add: sprintf_chr)
  next
    case (Spec zero wd l c)
    with Cons.prems have "parse_spec ((if zero then [48] else []) @ (if wd = 0 then [] else dec_bytes wd) @
        replicate l 108 @ c # concat (map piece_bytes ps) @ 0 # tail) =
        Some (zero, int wd, l, c, concat (map piece_bytes ps) @ 0 # tail)"
      by (intro parse_spec_bytes) auto
    from sprintf_spec [OF this, of ap] Cons show ?thesis
      by (simp add: Spec split: option.split prod.split)
  qed
qed simp

text \<open>
  C31: parsing inverts printing. For a format made of plain characters and conversions (any flags, a
  width within \<open>int\<close>, any letter that is not a digit or a length letter), the formatter
  run on the printed format prints the text the pieces stand for, whatever lies in memory behind the
  terminating zero: each conversion is taken with exactly the flags, width and length it was written
  with, and uses the arguments in order.
\<close>
theorem sprintf_renders:
  assumes "list_all piece_ok ps"
  shows "sprintf (concat (map piece_bytes ps) @ 0 # tail) ap = render ps ap"
  using assms by (rule sprintf_pieces_aux)

theorem sprintf_renders_witness:
  "sprintf (bytes_of ''[%s] %08lx %u'' @ [0]) [Arg_str (Some (bytes_of ''pmm'' @ [0])), Arg_long 0x1F, Arg_int 7] =
   Some (bytes_of ''[pmm] 0000001f 7'')"
proof -
  let ?ps = "[Chr 91, Spec False 0 0 115, Chr 93, Chr 32, Spec True 8 1 120, Chr 32, Spec False 0 0 117]"
  have "bytes_of ''[%s] %08lx %u'' = concat (map piece_bytes ?ps)"
    by (simp add: bytes_of_def dec_bytes.simps)
  moreover have "list_all piece_ok ?ps" by (simp add: is_digit_def)
  moreover have s: "convert collect False 0 0 115 (Arg_str (Some (bytes_of ''pmm'' @ [0])) # ap) [] =
      Some (ap, bytes_of ''pmm'')" for ap
    by (simp add: convert_def bytes_of_def collect_def)
  moreover have "uint_digits 16 0x1F = [15, 1]" "uint_digits 10 7 = [7]"
    by (simp_all add: uint_digits.simps)
  moreover have "replicate 6 (48 :: u8) = [48, 48, 48, 48, 48, 48]" by (simp add: numeral_eq_Suc)
  ultimately have "convert collect True 8 1 120 (Arg_long 0x1F # ap) [] = Some (ap, bytes_of ''0000001f'')"
    "convert collect False 0 0 117 (Arg_int 7 # ap) [] = Some (ap, bytes_of ''7'')" for ap
    by (simp_all add: convert_def One_nat_def emit_uint_text digit_text_def ld_list send_collect bytes_of_def)
  with s \<open>list_all piece_ok ?ps\<close> \<open>bytes_of ''[%s] %08lx %u'' = concat (map piece_bytes ?ps)\<close>
  show ?thesis
    using sprintf_renders [of ?ps "[]"] by (simp add: bytes_of_def dec_bytes.simps)
qed

text \<open>
  What \<open>kprintf\<close> prints depends on the format and the arguments only. Each
  registered sink is given the same characters, in the same order, and whether the call is defined
  (the format ends, the arguments fit) does not depend on the console or on the machine behind it.
\<close>
theorem kprintf_fans_out:
  "kprintf call con fmt ap w =
    map_option (\<lambda>t. foldl (\<lambda>w c. foldl (\<lambda>w k. call k c w) w (sinks con)) w t) (sprintf fmt ap)"
  using sending.kvprintf_hom [of "emit call con" fmt ap "[]" w]
  by (simp add: kprintf_def sprintf_def send_def emit_def)

text \<open>
  C33: a percent sign at the end of a format, with or without flags behind it, is not the end. The
  formatter prints the percent sign and the terminating zero, steps over the zero and goes on with
  whatever lies behind the string in memory; where nothing is mapped there, it reads outside the
  object.
\<close>
theorem trailing_percent_overruns:
  assumes "wd \<le> 2147483647"
  shows "sprintf (37 # (if zero then [48] else []) @ (if wd = 0 then [] else dec_bytes wd) @
      replicate l 108 @ 0 # tail) ap = map_option (\<lambda>t. 37 # 0 # t) (sprintf tail ap)"
  using sprintf_spec [OF parse_spec_bytes [OF assms, of 0 zero l tail], of ap]
  by (cases "sprintf tail ap") (simp_all add: is_digit_def convert_def collect_def)

theorem trailing_percent_overruns_witness:
  "sprintf (bytes_of ''%'' @ [0] @ bytes_of ''key'' @ [0]) [] = Some ([37, 0] @ bytes_of ''key'') \<and>
   sprintf (bytes_of ''%'' @ [0]) [] = None"
proof -
  have "sprintf (bytes_of ''key'' @ [0]) [] = Some (bytes_of ''key'')" "sprintf [] [] = None"
    by (simp_all add: bytes_of_def sprintf_chr) (simp add: sprintf_def)
  with trailing_percent_overruns [of 0 False 0 "bytes_of ''key'' @ [0]" "[]"]
    trailing_percent_overruns [of 0 False 0 "[]" "[]"]
  show ?thesis by (simp add: bytes_of_def)
qed

section \<open>Sinks as a contract\<close>

text \<open>
  What a console relies on. Each sink shows something of the machine, described by a view; a
  character sent to a sink takes what it shows to the view fed with that character, and leaves alone
  what every other sink shows, as long as the machine is in a state \<open>ok\<close>, which every sink
  keeps.
\<close>

locale console_sinks =
  fixes call :: "('k, 'w) sink_call"
    and ok :: "'w \<Rightarrow> bool"
    and shows_view :: "'k \<Rightarrow> 'w \<Rightarrow> 'v \<Rightarrow> bool"
    and feed :: "'k \<Rightarrow> u8 \<Rightarrow> 'v \<Rightarrow> 'v"
  assumes call_ok: "ok w \<Longrightarrow> ok (call k c w)"
    and call_self: "ok w \<Longrightarrow> shows_view k w v \<Longrightarrow> shows_view k (call k c w) (feed k c v)"
    and call_other: "ok w \<Longrightarrow> j \<noteq> k \<Longrightarrow> shows_view j w v \<Longrightarrow> shows_view j (call k c w) v"
begin

lemma calls_ok: "ok w \<Longrightarrow> ok (foldl (\<lambda>w k. call k c w) w ks)"
  by (induction ks arbitrary: w) (simp_all add: call_ok)

lemma calls_show:
  "ok w \<Longrightarrow> distinct ks \<Longrightarrow> shows_view k w v \<Longrightarrow>
    shows_view k (foldl (\<lambda>w k. call k c w) w ks) (if k \<in> set ks then feed k c v else v)"
proof (induction ks arbitrary: w v)
  case (Cons j ks)
  have ok': "ok (call j c w)" by (rule call_ok [OF Cons.prems(1)])
  have ks: "distinct ks" "j \<notin> set ks" using Cons.prems(2) by simp_all
  show ?case
  proof (cases "k = j")
    case True
    with Cons.prems(1,3) have "shows_view k (call j c w) (feed k c v)" by (simp add: call_self)
    from Cons.IH [OF ok' ks(1) this] True ks(2) show ?thesis by simp
  next
    case False
    then have "shows_view k (call j c w) v" using Cons.prems(1,3) by (simp add: call_other)
    from Cons.IH [OF ok' ks(1) this] False show ?thesis by simp
  qed
qed simp

lemma send_ok: "ok w \<Longrightarrow> ok (send (emit call con) t w)"
  by (induction t arbitrary: w) (simp_all add: send_def emit_def calls_ok)

lemma send_show:
  assumes "distinct (sinks con)"
  shows "ok w \<Longrightarrow> shows_view k w v \<Longrightarrow> shows_view k (send (emit call con) t w)
    (if k \<in> set (sinks con) then foldl (\<lambda>v c. feed k c v) v t else v)"
proof (induction t arbitrary: w v)
  case (Cons c t)
  have "ok (emit call con c w)" using Cons.prems by (simp add: emit_def calls_ok)
  moreover have "shows_view k (emit call con c w) (if k \<in> set (sinks con) then feed k c v else v)"
    using calls_show [OF Cons.prems(1) assms Cons.prems(2)] by (simp add: emit_def)
  ultimately show ?case
    using Cons.IH by (fastforce simp: send_def)
qed simp

end

text \<open>A call of \<open>kprintf\<close> sends the text that its format and arguments stand for.\<close>

lemma kprintf_send:
  "kprintf call con fmt ap w = map_option (\<lambda>t. send (emit call con) t w) (sprintf fmt ap)"
  using sending.kvprintf_hom [of "emit call con" fmt ap "[]" w]
  by (simp add: kprintf_def sprintf_def)

lemma console_register_sinks:
  "sinks (console_register fn con) = take (max 4 (length (sinks con))) (sinks con @ [fn])"
  by (auto simp: console_register_def MAX_SINKS_def max_def)

end
