(* ===== verification/Serial.thy ===== *)
theory Serial
  imports PortIo
begin

text \<open>
  The polled UART driver, src/kernel/arch/x86_64/serial.c. The UART is hardware and stays a
  parameter, the device that answers reads. The wait for the transmitter is the C loop with its
  bound, and its recursion is on the number of polls left.
\<close>

section \<open>Registers\<close>

definition COM1 :: u16 where "COM1 = 0x3F8"
definition REG_DATA :: u16 where "REG_DATA = 0"
definition REG_IER :: u16 where "REG_IER = 1"
definition REG_FIFO :: u16 where "REG_FIFO = 2"
definition REG_LCR :: u16 where "REG_LCR = 3"
definition REG_MCR :: u16 where "REG_MCR = 4"
definition REG_LSR :: u16 where "REG_LSR = 5"
definition REG_SCRATCH :: u16 where "REG_SCRATCH = 7"

lemmas uart_regs = COM1_def REG_DATA_def REG_IER_def REG_FIFO_def REG_LCR_def REG_MCR_def
  REG_LSR_def REG_SCRATCH_def

record serial_state = port_state +
  present :: bool

section \<open>The driver\<close>

definition serial_init :: "device \<Rightarrow> serial_state \<Rightarrow> bool \<times> serial_state" where
  "serial_init dev s =
    (let s = outb (COM1 + REG_SCRATCH) 0x5A s;
         (v, s) = inb dev (COM1 + REG_SCRATCH) s
     in if v \<noteq> 0x5A then (False, s)
        else
          (let s = outb (COM1 + REG_IER) 0x00 s;
               s = outb (COM1 + REG_LCR) 0x80 s;
               s = outb (COM1 + REG_DATA) 0x01 s;
               s = outb (COM1 + REG_IER) 0x00 s;
               s = outb (COM1 + REG_LCR) 0x03 s;
               s = outb (COM1 + REG_FIFO) 0xC7 s;
               s = outb (COM1 + REG_MCR) 0x1E s;
               s = outb (COM1 + REG_DATA) 0xA5 s;
               (v, s) = inb dev (COM1 + REG_DATA) s
           in if v \<noteq> 0xA5 then (False, s)
              else
                (let s = outb (COM1 + REG_MCR) 0x0F s
                 in (True, s\<lparr>present := True\<rparr>))))"

definition POLL_LIMIT :: nat where "POLL_LIMIT = 100000"

fun wait_transmitter :: "device \<Rightarrow> nat \<Rightarrow> serial_state \<Rightarrow> serial_state" where
  "wait_transmitter dev 0 s = s"
| "wait_transmitter dev (Suc n) s =
    (let (v, s) = inb dev (COM1 + REG_LSR) s
     in if v AND 0x20 \<noteq> 0 then s else wait_transmitter dev n s)"

text \<open>A line feed is sent after a carriage return, by one recursive call.\<close>

function serial_putc :: "device \<Rightarrow> u8 \<Rightarrow> serial_state \<Rightarrow> serial_state" where
  "serial_putc dev c s =
    (if \<not> present s then s
     else
       (let s = (if c = 10 then serial_putc dev 13 s else s);
            s = wait_transmitter dev POLL_LIMIT s
        in outb (COM1 + REG_DATA) c s))"
  by pat_completeness auto
termination
  by (relation "measure (\<lambda>(dev, c, s). if c = 10 then 1 else 0)") auto

declare serial_putc.simps [simp del]

section \<open>The line side of the UART\<close>

text \<open>
  What a 16550 makes of the bytes it is sent. While the divisor-latch bit of the line control
  register is set, the first two registers are the divisor; in loopback mode a byte for the
  transmitter does not leave the chip.
\<close>

record uart =
  lcr :: u8
  mcr :: u8
  ier :: u8
  divisor_lo :: u8
  divisor_hi :: u8
  wire :: "u8 list"

definition uart_write :: "u16 \<Rightarrow> u8 \<Rightarrow> uart \<Rightarrow> uart" where
  "uart_write p v u =
    (if p = 0x3F8 then
       (if bit (lcr u) 7 then u\<lparr>divisor_lo := v\<rparr>
        else if bit (mcr u) 4 then u else u\<lparr>wire := wire u @ [v]\<rparr>)
     else if p = 0x3F9 then
       (if bit (lcr u) 7 then u\<lparr>divisor_hi := v\<rparr> else u\<lparr>ier := v\<rparr>)
     else if p = 0x3FB then u\<lparr>lcr := v\<rparr>
     else if p = 0x3FC then u\<lparr>mcr := v\<rparr>
     else u)"

fun uart_step :: "uart \<Rightarrow> bus_event \<Rightarrow> uart" where
  "uart_step u (Out p v) = uart_write p v u"
| "uart_step u (In p v) = u"
| "uart_step u (Accept n) = u"
| "uart_step u (Spurious n) = u"

definition uart_view :: "uart \<Rightarrow> bus_event list \<Rightarrow> uart" where
  "uart_view u t = foldl uart_step u t"

lemma uart_view_snoc: "uart_view u (t @ [e]) = uart_step (uart_view u t) e"
  by (simp add: uart_view_def)

lemma uart_view_append: "uart_view u (t @ t') = uart_view (uart_view u t) t'"
  by (simp add: uart_view_def)

definition transmitting :: "uart \<Rightarrow> bool" where
  "transmitting u \<longleftrightarrow> \<not> bit (lcr u) 7 \<and> \<not> bit (mcr u) 4"

section \<open>The polling loop\<close>

lemma wait_transmitter_view:
  "uart_view u (bus (wait_transmitter dev n s)) = uart_view u (bus s)"
  by (induction n arbitrary: s) (simp_all add: case_prod_beta Let_def uart_view_snoc)

text \<open>Bus events of the output path: reads of the line status, writes of the data register.\<close>

definition uart_poll :: "bus_event \<Rightarrow> bool" where
  "uart_poll e \<longleftrightarrow> (\<exists>v. e = In 0x3FD v)"

definition bus_grows :: "nat \<Rightarrow> nat \<Rightarrow> serial_state \<Rightarrow> serial_state \<Rightarrow> bool" where
  "bus_grows polls writes s t \<longleftrightarrow> (\<exists>u. bus t = bus s @ u \<and> length u \<le> polls + writes \<and>
     length (filter uart_poll u) \<le> polls \<and> (\<forall>e \<in> set u. uart_poll e \<or> (\<exists>v. e = Out 0x3F8 v)))"

lemma bus_grows_trans:
  "bus_grows p w s t \<Longrightarrow> bus_grows q x t u \<Longrightarrow> bus_grows (p + q) (w + x) s u"
  by (fastforce simp: bus_grows_def)

lemma wait_transmitter_grows: "bus_grows n 0 s (wait_transmitter dev n s)"
proof (induction n arbitrary: s)
  case (Suc n)
  let ?s = "snd (inb dev (COM1 + REG_LSR) s)"
  have one: "bus_grows 1 0 s ?s"
    by (auto simp: bus_grows_def uart_poll_def uart_regs)
  then have "bus_grows (Suc n) 0 s ?s"
    by (auto simp: bus_grows_def)
  with bus_grows_trans [OF one Suc [of ?s]] show ?case
    by (simp add: case_prod_beta Let_def)
qed (simp add: bus_grows_def)

lemma present_io [simp]:
  "present (outb p v s) = present s" "present (snd (inb dev p s)) = present s"
  by (simp_all add: outb_def inb_def Let_def)

lemma wait_transmitter_present [simp]: "present (wait_transmitter dev n s) = present s"
  by (induction n arbitrary: s) (simp_all add: case_prod_beta Let_def)

section \<open>Sending characters\<close>

definition crlf :: "u8 \<Rightarrow> u8 list" where
  "crlf c = (if c = 10 then [13, 10] else [c])"

lemma serial_putc_plain:
  assumes "present s" and "c \<noteq> 10"
  shows "serial_putc dev c s = outb (COM1 + REG_DATA) c (wait_transmitter dev POLL_LIMIT s)"
  using assms by (simp add: serial_putc.simps)

lemma serial_putc_newline:
  assumes "present s"
  shows "serial_putc dev 10 s =
    outb (COM1 + REG_DATA) 10 (wait_transmitter dev POLL_LIMIT (serial_putc dev 13 s))"
  using assms by (subst serial_putc.simps) simp

lemma transmit_view:
  assumes "transmitting (uart_view u (bus s))"
  shows "uart_view u (bus (outb (COM1 + REG_DATA) c (wait_transmitter dev n s))) =
    (uart_view u (bus s))\<lparr>wire := wire (uart_view u (bus s)) @ [c]\<rparr>"
  using assms
  by (simp add: uart_view_snoc wait_transmitter_view uart_write_def transmitting_def uart_regs)

lemma transmit_grows:
  "bus_grows n 1 s (outb (COM1 + REG_DATA) c (wait_transmitter dev n s))"
proof -
  have "bus_grows 0 1 t (outb (COM1 + REG_DATA) c t)" for t
    by (simp add: bus_grows_def uart_regs uart_poll_def)
  from bus_grows_trans [OF wait_transmitter_grows this] show ?thesis by simp
qed

lemma serial_putc_view:
  assumes "present s" and "transmitting (uart_view u (bus s))"
  shows "uart_view u (bus (serial_putc dev c s)) =
    (uart_view u (bus s))\<lparr>wire := wire (uart_view u (bus s)) @ crlf c\<rparr>"
proof (cases "c = 10")
  case True
  have cr: "uart_view u (bus (serial_putc dev 13 s)) =
      (uart_view u (bus s))\<lparr>wire := wire (uart_view u (bus s)) @ [13]\<rparr>"
    unfolding serial_putc_plain [OF assms(1), of 13 dev, simplified] by (rule transmit_view [OF assms(2)])
  with assms(2) have "transmitting (uart_view u (bus (serial_putc dev 13 s)))"
    by (simp add: transmitting_def)
  from transmit_view [OF this] cr show ?thesis
    unfolding True serial_putc_newline [OF assms(1)] by (simp add: crlf_def)
next
  case False
  with transmit_view [OF assms(2), of c dev POLL_LIMIT] show ?thesis
    unfolding serial_putc_plain [OF assms(1) False] by (simp add: crlf_def)
qed

lemma serial_putc_present: "present (serial_putc dev c s) = present s"
  by (cases "c = 10"; cases "present s")
    (simp_all add: serial_putc_newline serial_putc_plain serial_putc.simps [of dev c s]
      serial_putc.simps [of dev 10 s])

lemma serial_putc_grows:
  "if present s then bus_grows (length (crlf c) * POLL_LIMIT) (length (crlf c)) s (serial_putc dev c s)
   else serial_putc dev c s = s"
proof (cases "present s")
  case True
  show ?thesis
  proof (cases "c = 10")
    case c: True
    have "bus_grows POLL_LIMIT 1 s (serial_putc dev 13 s)"
      unfolding serial_putc_plain [OF True, of 13 dev, simplified] by (rule transmit_grows)
    from bus_grows_trans [OF this transmit_grows] True show ?thesis
      unfolding c serial_putc_newline [OF True] by (simp add: crlf_def numeral_2_eq_2)
  next
    case False
    with True transmit_grows show ?thesis
      unfolding serial_putc_plain [OF True False] by (simp add: crlf_def)
  qed
qed (simp add: serial_putc.simps)

text \<open>A whole string, character by character.\<close>

fun serial_puts :: "device \<Rightarrow> u8 list \<Rightarrow> serial_state \<Rightarrow> serial_state" where
  "serial_puts dev [] s = s"
| "serial_puts dev (c # cs) s = serial_puts dev cs (serial_putc dev c s)"

lemma serial_puts_view:
  assumes "present s" and "transmitting (uart_view u (bus s))"
  shows "uart_view u (bus (serial_puts dev cs s)) =
    (uart_view u (bus s))\<lparr>wire := wire (uart_view u (bus s)) @ concat (map crlf cs)\<rparr>"
  using assms
proof (induction cs arbitrary: s)
  case (Cons c cs)
  from Cons.IH [of "serial_putc dev c s"] Cons.prems show ?case
    by (simp add: serial_putc_view serial_putc_present transmitting_def)
qed simp

text \<open>What the probe of \<open>serial_init\<close> sees: the scratch register, then the loopback.\<close>

definition probe_trace :: "serial_state \<Rightarrow> bus_event list" where
  "probe_trace s = bus s @ [Out 0x3FF 0x5A]"

definition loopback_trace :: "device \<Rightarrow> serial_state \<Rightarrow> bus_event list" where
  "loopback_trace dev s = probe_trace s @
    [In 0x3FF (dev (probe_trace s) 0x3FF), Out 0x3F9 0x00, Out 0x3FB 0x80, Out 0x3F8 0x01,
     Out 0x3F9 0x00, Out 0x3FB 0x03, Out 0x3FA 0xC7, Out 0x3FC 0x1E, Out 0x3F8 0xA5]"

lemma serial_init_unfold:
  "serial_init dev s =
    (if dev (probe_trace s) 0x3FF \<noteq> 0x5A then
       (False, s\<lparr>bus := probe_trace s @ [In 0x3FF (dev (probe_trace s) 0x3FF)]\<rparr>)
     else
       (let v = dev (loopback_trace dev s) 0x3F8; t = loopback_trace dev s @ [In 0x3F8 v]
        in if v \<noteq> 0xA5 then (False, s\<lparr>bus := t\<rparr>)
           else (True, s\<lparr>bus := t @ [Out 0x3FC 0x0F], present := True\<rparr>)))"
  by (simp add: serial_init_def inb_def outb_def Let_def uart_regs probe_trace_def loopback_trace_def)

lemma probe_view: "uart_view u0 (probe_trace s) = uart_view u0 (bus s)"
  by (simp add: probe_trace_def uart_view_snoc uart_write_def)

lemma loopback_view:
  "uart_view u0 (loopback_trace dev s) =
    (let u = uart_view u0 (bus s)
     in u\<lparr>lcr := 0x03, mcr := 0x1E, ier := (if bit (lcr u) 7 then ier u else 0),
          divisor_lo := 1, divisor_hi := 0\<rparr>)"
  unfolding loopback_trace_def uart_view_append probe_view
  by (simp add: uart_view_def uart_write_def Let_def)

lemma serial_puts_absent: "\<not> present s \<Longrightarrow> serial_puts dev cs s = s"
  by (induction cs) (simp_all add: serial_putc.simps)

lemma serial_init_success:
  assumes "dev (probe_trace s) 0x3FF = 0x5A" and "dev (loopback_trace dev s) 0x3F8 = 0xA5"
  shows "serial_init dev s = (True, s\<lparr>bus := loopback_trace dev s @ [In 0x3F8 0xA5, Out 0x3FC 0x0F],
      present := True\<rparr>)"
  using assms by (simp add: serial_init_unfold)

lemma serial_init_failure:
  assumes "\<not> (dev (probe_trace s) 0x3FF = 0x5A \<and> dev (loopback_trace dev s) 0x3F8 = 0xA5)"
  shows "fst (serial_init dev s) = False" and "present (snd (serial_init dev s)) = present s"
    and "wire (uart_view u0 (bus (snd (serial_init dev s)))) = wire (uart_view u0 (bus s))"
  using assms
  by (auto simp: serial_init_unfold Let_def uart_view_snoc probe_view loopback_view)

lemma serial_ready_view:
  "uart_view u0 (loopback_trace dev s @ [In 0x3F8 v, Out 0x3FC 0x0F]) =
    (let u = uart_view u0 (bus s)
     in u\<lparr>lcr := 0x03, mcr := 0x0F, ier := (if bit (lcr u) 7 then ier u else 0),
          divisor_lo := 1, divisor_hi := 0\<rparr>)"
  unfolding uart_view_append loopback_view
  by (simp add: uart_view_def uart_write_def Let_def)

text \<open>
  Patience of the output path: a byte is written to the data register only after a read of the line
  status that found the transmitter empty, or after 100000 reads that did not.
\<close>

definition waited :: "bus_event list \<Rightarrow> bool" where
  "waited t \<longleftrightarrow> (\<forall>a v b. t = a @ Out 0x3F8 v # b \<longrightarrow>
     (\<exists>a' vs. a = a' @ map (In 0x3FD) vs \<and> (vs \<noteq> [] \<and> bit (last vs) 5 \<or> length vs = 100000)))"

lemma waited_append:
  assumes "waited xs" and "waited ys"
  shows "waited (xs @ ys)"
  unfolding waited_def
proof (intro allI impI)
  fix a v b
  assume "xs @ ys = a @ Out 0x3F8 v # b"
  then consider c where "xs = a @ Out 0x3F8 v # c" | c where "a = xs @ c" "ys = c @ Out 0x3F8 v # b"
    by (auto simp: append_eq_append_conv2 append_eq_Cons_conv)
  then show "\<exists>a' vs. a = a' @ map (In 0x3FD) vs \<and> (vs \<noteq> [] \<and> bit (last vs) 5 \<or> length vs = 100000)"
  proof cases
    case 1
    with assms(1) show ?thesis unfolding waited_def by blast
  next
    case 2
    with assms(2) obtain a' vs where "c = a' @ map (In 0x3FD) vs"
      "vs \<noteq> [] \<and> bit (last vs) 5 \<or> length vs = 100000" unfolding waited_def by blast
    with 2(1) show ?thesis by (intro exI [of _ "xs @ a'"] exI [of _ vs]) simp
  qed
qed

lemma wait_transmitter_polls:
  "\<exists>vs. bus (wait_transmitter dev n s) = bus s @ map (In 0x3FD) vs \<and>
    (vs \<noteq> [] \<and> bit (last vs) 5 \<or> length vs = n)"
proof (induction n arbitrary: s)
  case (Suc n)
  obtain v t where v: "inb dev (COM1 + REG_LSR) s = (v, t)" by fastforce
  then have t: "bus t = bus s @ [In 0x3FD v]" by (auto simp: inb_def uart_regs Let_def)
  have b: "v AND 0x20 \<noteq> 0 \<longleftrightarrow> bit v 5"
    by (simp add: and_exp_eq_0_iff_not_bit [of v 5, simplified])
  show ?case
  proof (cases "bit v 5")
    case True
    with v t b show ?thesis by (intro exI [of _ "[v]"]) simp
  next
    case False
    obtain vs where "bus (wait_transmitter dev n t) = bus t @ map (In 0x3FD) vs"
      "vs \<noteq> [] \<and> bit (last vs) 5 \<or> length vs = n" using Suc.IH by blast
    with False v t b show ?thesis by (intro exI [of _ "v # vs"]) auto
  qed
qed simp

lemma transmit_waited:
  "\<exists>new. bus (outb (COM1 + REG_DATA) c (wait_transmitter dev POLL_LIMIT s)) = bus s @ new \<and> waited new"
proof -
  obtain vs where vs: "bus (wait_transmitter dev POLL_LIMIT s) = bus s @ map (In 0x3FD) vs"
    "vs \<noteq> [] \<and> bit (last vs) 5 \<or> length vs = POLL_LIMIT" using wait_transmitter_polls by blast
  have "waited (map (In 0x3FD) vs @ [Out 0x3F8 c])"
    unfolding waited_def
  proof (intro allI impI)
    fix a v b
    assume e: "map (In 0x3FD) vs @ [Out 0x3F8 c] = a @ Out 0x3F8 v # b"
    have "a = map (In 0x3FD) vs"
    proof (cases b rule: rev_cases)
      case Nil
      with e show ?thesis by simp
    next
      case (snoc b' x)
      with e have "map (In 0x3FD) vs = a @ Out 0x3F8 v # b'" by simp
      then have "Out 0x3F8 v \<in> set (map (In 0x3FD) vs)" by simp
      then show ?thesis by auto
    qed
    with vs(2) show "\<exists>a' ws. a = a' @ map (In 0x3FD) ws \<and> (ws \<noteq> [] \<and> bit (last ws) 5 \<or> length ws = 100000)"
      by (intro exI [of _ "[]"] exI [of _ vs]) (simp add: POLL_LIMIT_def)
  qed
  with vs(1) show ?thesis by (intro exI [of _ "map (In 0x3FD) vs @ [Out 0x3F8 c]"]) (simp add: outb_def uart_regs)
qed

lemma serial_putc_absent: "\<not> present s \<Longrightarrow> serial_putc dev c s = s"
  by (simp add: serial_putc.simps)

lemma serial_putc_waited: "\<exists>new. bus (serial_putc dev c s) = bus s @ new \<and> waited new"
proof (induction dev c s rule: serial_putc.induct)
  case (1 dev c s)
  have none: "waited []" by (simp add: waited_def)
  let ?s = "if c = 10 then serial_putc dev 13 s else s"
  show ?case
  proof (cases "present s")
    case True
    then have p: "serial_putc dev c s = outb (COM1 + REG_DATA) c (wait_transmitter dev POLL_LIMIT ?s)"
      by (subst serial_putc.simps) (simp add: Let_def)
    obtain xs where "bus ?s = bus s @ xs" "waited xs" using 1 True none by (cases "c = 10") auto
    moreover obtain ys where "bus (serial_putc dev c s) = bus ?s @ ys" "waited ys"
      unfolding p using transmit_waited by blast
    ultimately show ?thesis by (intro exI [of _ "xs @ ys"]) (simp add: waited_append)
  qed (simp add: serial_putc_absent none)
qed

lemma serial_puts_waited: "\<exists>new. bus (serial_puts dev cs s) = bus s @ new \<and> waited new"
proof (induction cs arbitrary: s)
  case Nil
  show ?case by (simp add: waited_def)
next
  case (Cons c cs)
  obtain xs ys where "bus (serial_putc dev c s) = bus s @ xs" "waited xs"
    "bus (serial_puts dev cs (serial_putc dev c s)) = bus (serial_putc dev c s) @ ys" "waited ys"
    using serial_putc_waited Cons.IH by metis
  then show ?case by (intro exI [of _ "xs @ ys"]) (simp add: waited_append)
qed

text \<open>
  C34: \<open>serial_init\<close> succeeds exactly when the scratch register and then the loopback
  return what was sent, and it never puts a byte on the line. On success the line is 115200 baud
  (divisor 1), 8N1 and out of loopback, and a string then written with \<open>serial_putc\<close>
  is exactly what appears on the line, each line feed as carriage return and line feed. On failure
  every later character is dropped.  Whatever the UART answers, no byte is written to the data
  register without a read of the line status just before that found the transmitter empty, or
  100000 reads that did not.
\<close>
theorem serial_line_output:
  assumes "\<not> present s"
  shows "let ok = (dev (probe_trace s) 0x3FF = 0x5A \<and> dev (loopback_trace dev s) 0x3F8 = 0xA5);
      t = snd (serial_init dev s); u = uart_view u0 (bus t);
      v = uart_view u0 (bus (serial_puts dev cs t)) in
    fst (serial_init dev s) = ok \<and> wire u = wire (uart_view u0 (bus s)) \<and>
    (if ok then divisor_lo u = 1 \<and> divisor_hi u = 0 \<and> lcr u = 0x03 \<and> mcr u = 0x0F \<and>
       v = u\<lparr>wire := wire u @ concat (map crlf cs)\<rparr>
     else v = u) \<and>
    (\<exists>new. bus (serial_puts dev cs t) = bus t @ new \<and> waited new)"
proof (cases "dev (probe_trace s) 0x3FF = 0x5A \<and> dev (loopback_trace dev s) 0x3F8 = 0xA5")
  case True
  then have t: "serial_init dev s = (True, s\<lparr>bus := loopback_trace dev s @ [In 0x3F8 0xA5, Out 0x3FC 0x0F],
      present := True\<rparr>)"
    using serial_init_success by blast
  have "transmitting (uart_view u0 (bus (snd (serial_init dev s))))"
    by (simp add: t serial_ready_view transmitting_def Let_def)
  from serial_puts_view [OF _ this, of dev cs] serial_puts_waited [of dev cs] True show ?thesis
    by (simp add: t serial_ready_view Let_def)
next
  case False
  note f = serial_init_failure [OF False]
  have "\<not> present (snd (serial_init dev s))" using f(2) assms by simp
  with serial_puts_absent [OF this] serial_puts_waited [of dev cs] False f(1,3) show ?thesis
    by (auto simp: Let_def)
qed

text \<open>A UART that answers the probe: it returns the byte last written to the register.\<close>

definition echo_device :: device where
  "echo_device t p = last (0xFF # written p t)"

theorem serial_line_output_witness:
  "wire (uart_view \<lparr>lcr = 0, mcr = 0, ier = 1, divisor_lo = 0, divisor_hi = 0, wire = []\<rparr>
     (bus (serial_puts echo_device [0x48, 0x69, 10] (snd (serial_init echo_device \<lparr>bus = [], present = False\<rparr>)))))
   = [0x48, 0x69, 13, 10]"
proof -
  let ?s = "\<lparr>bus = [], present = False\<rparr>"
  have "echo_device (probe_trace ?s) 0x3FF = 0x5A" "echo_device (loopback_trace echo_device ?s) 0x3F8 = 0xA5"
    by (simp_all add: echo_device_def probe_trace_def loopback_trace_def)
  moreover have "\<not> present ?s" by simp
  ultimately show ?thesis
    using serial_line_output [of ?s echo_device
        "\<lparr>lcr = 0, mcr = 0, ier = 1, divisor_lo = 0, divisor_hi = 0, wire = []\<rparr>" "[0x48, 0x69, 10]"]
    by (simp add: Let_def crlf_def uart_view_def)
qed

text \<open>
  Whatever the UART answers, printing one character ends. It polls the line status at most
  100000 times for each byte it sends (two bytes for a line feed, one otherwise), touches no other
  register than the line status and the data register, and leaves an absent UART alone.
\<close>
theorem serial_putc_bounded:
  "\<exists>t. bus (serial_putc dev c s) = bus s @ t \<and>
    length (filter uart_poll t) \<le> (if c = 10 then 200000 else 100000) \<and>
    length t \<le> (if c = 10 then 200002 else 100001) \<and>
    list_all (\<lambda>e. present s \<and> ((\<exists>v. e = In 0x3FD v) \<or> (\<exists>v. e = Out 0x3F8 v))) t"
  using serial_putc_grows [of s c dev]
  by (cases "present s") (auto simp: bus_grows_def crlf_def POLL_LIMIT_def uart_poll_def list_all_iff split: if_splits)

end
