(* ===== verification/Fbcon.thy ===== *)
theory Fbcon
  imports BootProto Font
begin

text \<open>
  The framebuffer console, src/kernel/graphics/fbcon.c: the static variables are a record, the
  framebuffer a memory of 32-bit pixels indexed from the base pointer. Coordinates stay 32-bit
  words; a pixel index is formed in 64 bits in C and is below 2^63 for every 32-bit coordinate and
  pitch, so here it is a natural number.
\<close>

section \<open>State\<close>

definition GLYPH :: u32 where "GLYPH = 8"
definition SCALE :: u32 where "SCALE = 2"
definition CELL_W :: u32 where "CELL_W = GLYPH * SCALE"
definition CELL_H :: u32 where "CELL_H = GLYPH * SCALE"
definition MARGIN :: u32 where "MARGIN = 8"

lemmas cell_size = GLYPH_def SCALE_def CELL_W_def CELL_H_def MARGIN_def

type_synonym pixels = "nat \<Rightarrow> u32"

record fbcon =
  fb_base :: u64
  pixels :: pixels
  fb_width :: u32
  fb_height :: u32
  fb_pitch32 :: u32
  fb_format :: u32
  cols :: u32
  rows :: u32
  cur_col :: u32
  cur_row :: u32
  fg :: u32
  bg :: u32
  ready :: bool

section \<open>Drawing\<close>

definition to_native :: "fbcon \<Rightarrow> u32 \<Rightarrow> u32" where
  "to_native s rgb =
    (if fb_format s = SYPAS_FB_XBGR8888 then
       (rgb AND 0x0000FF00) OR drop_bit 16 (rgb AND 0x00FF0000) OR push_bit 16 (rgb AND 0x000000FF)
     else rgb)"

text \<open>The pointer \<open>line\<close> of the C loops, as an index from \<open>fb\<close>.\<close>

definition line_at :: "fbcon \<Rightarrow> u32 \<Rightarrow> u32 \<Rightarrow> nat" where
  "line_at s y x = unat y * unat (fb_pitch32 s) + unat x"

definition fill_rect :: "u32 \<Rightarrow> u32 \<Rightarrow> u32 \<Rightarrow> u32 \<Rightarrow> u32 \<Rightarrow> fbcon \<Rightarrow> fbcon" where
  "fill_rect x y w h native s = s\<lparr>pixels :=
     foldl (\<lambda>m dy. foldl (\<lambda>m dx. m(line_at s (y + of_nat dy) x + dx := native)) m [0..<unat w])
       (pixels s) [0..<unat h]\<rparr>"

definition draw_glyph :: "u32 \<Rightarrow> u32 \<Rightarrow> u8 \<Rightarrow> fbcon \<Rightarrow> fbcon" where
  "draw_glyph col row ch s =
    (let bits = font8x8_basic ! unat (ch AND 0x7F);
         x0 = MARGIN + col * CELL_W;
         y0 = MARGIN + row * CELL_H;
         nfg = to_native s (fg s);
         nbg = to_native s (bg s)
     in s\<lparr>pixels :=
       foldl (\<lambda>m gy. foldl (\<lambda>m sy. foldl (\<lambda>m gx. foldl (\<lambda>m sx.
           m(line_at s (y0 + of_nat gy * SCALE + of_nat sy) x0 + (gx * 2 + sx) :=
             (if bit (bits ! gy) gx then nfg else nbg))) m [0..<2]) m [0..<8]) m [0..<2])
         (pixels s) [0..<8]\<rparr>)"

definition scroll :: "fbcon \<Rightarrow> fbcon" where
  "scroll s =
    (let row_px = (ucast CELL_H :: u64) * ucast (fb_pitch32 s);
         dst = unat ((ucast MARGIN :: u64) * ucast (fb_pitch32 s));
         src = dst + unat row_px;
         count = row_px * ucast (rows s - 1);
         s = s\<lparr>pixels := foldl (\<lambda>m i. m(dst + i := m (src + i))) (pixels s) [0..<unat count]\<rparr>
     in fill_rect 0 (MARGIN + (rows s - 1) * CELL_H) (fb_width s) CELL_H (to_native s (bg s)) s)"

section \<open>The console\<close>

definition fbcon_init :: "sypas_bootinfo \<Rightarrow> fbcon \<Rightarrow> bool \<times> fbcon" where
  "fbcon_init bi s =
    (if bi_fb_format bi \<noteq> SYPAS_FB_XRGB8888 \<and> bi_fb_format bi \<noteq> SYPAS_FB_XBGR8888 then (False, s)
     else if bi_fb_base bi = 0 \<or> bi_fb_width bi < 320 \<or> bi_fb_height bi < 200 then (False, s)
     else
       (let s = s\<lparr>fb_base := bi_fb_base bi, fb_width := bi_fb_width bi, fb_height := bi_fb_height bi,
                  fb_pitch32 := bi_fb_pitch bi div 4, fb_format := bi_fb_format bi\<rparr>;
            s = s\<lparr>cols := (fb_width s - 2 * MARGIN) div CELL_W,
                  rows := (fb_height s - 2 * MARGIN) div CELL_H,
                  cur_col := 0, cur_row := 0\<rparr>;
            s = fill_rect 0 0 (fb_width s) (fb_height s) (to_native s (bg s)) s
        in (True, s\<lparr>ready := True\<rparr>)))"

definition fbcon_set_colors :: "u32 \<Rightarrow> u32 \<Rightarrow> fbcon \<Rightarrow> fbcon" where
  "fbcon_set_colors new_fg new_bg s = s\<lparr>fg := new_fg, bg := new_bg\<rparr>"

text \<open>\<open>char\<close> is signed: the comparison with the blank is a signed one.\<close>

definition fbcon_putc :: "u8 \<Rightarrow> fbcon \<Rightarrow> fbcon" where
  "fbcon_putc c s =
    (if \<not> ready s then s
     else
       (let s =
          (if c = 10 then s\<lparr>cur_col := 0, cur_row := cur_row s + 1\<rparr>
           else if c = 13 then s\<lparr>cur_col := 0\<rparr>
           else if 0x20 \<le>s c then
             (let s = draw_glyph (cur_col s) (cur_row s) c s;
                  s = s\<lparr>cur_col := cur_col s + 1\<rparr>
              in if cols s \<le> cur_col s then s\<lparr>cur_col := 0, cur_row := cur_row s + 1\<rparr> else s)
           else s)
        in if rows s \<le> cur_row s then (let s = scroll s in s\<lparr>cur_row := rows s - 1\<rparr>) else s))"

text \<open>The static initial values.\<close>

definition fbcon_cold :: "pixels \<Rightarrow> fbcon" where
  "fbcon_cold px = \<lparr>fb_base = 0, pixels = px, fb_width = 0, fb_height = 0, fb_pitch32 = 0, fb_format = 0,
     cols = 0, rows = 0, cur_col = 0, cur_row = 0, fg = 0x00E8E3D5, bg = 0x000B0E14, ready = False\<rparr>"

section \<open>Loops that write pixels\<close>

lemma foldl_product:
  "foldl (\<lambda>m a. foldl (\<lambda>m b. g a b m) m bs) m as = foldl (\<lambda>m (a, b). g a b m) m (List.product as bs)"
proof (induction as arbitrary: m)
  case (Cons a as)
  have "foldl (\<lambda>m (a, b). g a b m) m (map (Pair a) bs) = foldl (\<lambda>m b. g a b m) m bs" for m
    by (induction bs arbitrary: m) simp_all
  with Cons show ?case by simp
qed simp

lemma foldl_write_out:
  "(\<forall>k \<in> set ks. f k \<noteq> i) \<Longrightarrow> foldl (\<lambda>m k. m(f k := v k)) m ks i = m i"
  by (induction ks arbitrary: m) auto

lemma foldl_write_in:
  assumes "k \<in> set ks" and "f k = i" and "\<forall>k' \<in> set ks. f k' = i \<longrightarrow> v k' = c"
  shows "foldl (\<lambda>m k. m(f k := v k)) m ks i = c"
  using assms
proof (induction ks arbitrary: m k)
  case (Cons a ks)
  show ?case
  proof (cases "\<exists>k' \<in> set ks. f k' = i")
    case True
    with Cons show ?thesis by auto
  next
    case False
    with Cons.prems have "f a = i" "v a = c" by auto
    have "foldl (\<lambda>m k. m(f k := v k)) m (a # ks) i = foldl (\<lambda>m k. m(f k := v k)) (m(f a := v a)) ks i"
      by (simp only: foldl.simps)
    also have "\<dots> = (m(f a := v a)) i" by (rule foldl_write_out) (use False in blast)
    also have "\<dots> = c" using \<open>f a = i\<close> \<open>v a = c\<close> by simp
    finally show ?thesis .
  qed
qed simp

lemma foldl_over_product:
  "foldl (\<lambda>m p. g p m) m (List.product as bs) = foldl (\<lambda>m a. foldl (\<lambda>m b. g (a, b) m) m bs) m as"
proof -
  have "(\<lambda>m p. g p m) = (\<lambda>m (a, b). g (a, b) m)" by (auto simp: fun_eq_iff)
  then show ?thesis by (simp only: foldl_product)
qed

text \<open>Two pixels of lines no longer than the pitch are the same one only if row and column agree.\<close>

lemma pixel_index_inj:
  fixes P :: nat
  assumes "y * P + x = y' * P + x'" and "x < P" and "x' < P"
  shows "y = y' \<and> x = x'"
proof -
  from assms have "(y * P + x) div P = (y' * P + x') div P" by simp
  with assms(2,3) have "y = y'" by simp
  with assms(1) show ?thesis by simp
qed

section \<open>What a rectangle and a glyph change\<close>

lemma fill_rect_frame [simp]:
  "fb_width (fill_rect x y w h c s) = fb_width s" "fb_height (fill_rect x y w h c s) = fb_height s"
  "fb_pitch32 (fill_rect x y w h c s) = fb_pitch32 s" "fb_format (fill_rect x y w h c s) = fb_format s"
  "cols (fill_rect x y w h c s) = cols s" "rows (fill_rect x y w h c s) = rows s"
  "cur_col (fill_rect x y w h c s) = cur_col s" "cur_row (fill_rect x y w h c s) = cur_row s"
  "fg (fill_rect x y w h c s) = fg s" "bg (fill_rect x y w h c s) = bg s"
  "ready (fill_rect x y w h c s) = ready s"
  by (simp_all add: fill_rect_def)

definition in_rect :: "nat \<Rightarrow> nat \<Rightarrow> nat \<Rightarrow> nat \<Rightarrow> nat \<Rightarrow> nat \<Rightarrow> bool" where
  "in_rect P x y w h i \<longleftrightarrow> (\<exists>dy < h. \<exists>dx < w. i = (y + dy) * P + (x + dx))"

lemma fill_rect_pixels:
  assumes "unat y + unat h \<le> 2 ^ 32"
  shows "pixels (fill_rect x y w h c s) i =
    (if in_rect (unat (fb_pitch32 s)) (unat x) (unat y) (unat w) (unat h) i then c else pixels s i)"
proof -
  let ?P = "unat (fb_pitch32 s)"
  define f where "f = (\<lambda>(dy, dx). line_at s (y + of_nat dy) x + dx)"
  define ks where "ks = List.product [0..<unat h] [0..<unat w]"
  have "(\<lambda>m k. m(f k := c)) = (\<lambda>m (dy, dx). m(line_at s (y + of_nat dy) x + dx := c))"
    by (intro ext) (auto simp: f_def split: prod.splits)
  then have px: "pixels (fill_rect x y w h c s) = foldl (\<lambda>m k. m(f k := c)) (pixels s) ks"
    by (simp add: fill_rect_def foldl_product ks_def)
  have f: "f (dy, dx) = (unat y + dy) * ?P + (unat x + dx)" if "dy < unat h" for dy dx
  proof -
    have "unat y + dy < 2 ^ 32" using assms that by simp
    then have "unat (y + of_nat dy) = unat y + dy"
      by (simp add: unat_word_ariths unat_of_nat)
    then show ?thesis by (simp add: f_def line_at_def)
  qed
  show ?thesis
  proof (cases "in_rect ?P (unat x) (unat y) (unat w) (unat h) i")
    case True
    then obtain dy dx where "dy < unat h" "dx < unat w" "f (dy, dx) = i"
      by (auto simp: in_rect_def f)
    then have "foldl (\<lambda>m k. m(f k := c)) (pixels s) ks i = c"
      by (intro foldl_write_in [where k = "(dy, dx)"]) (auto simp: ks_def)
    with px True show ?thesis by simp
  next
    case False
    have "f k \<noteq> i" if mem: "k \<in> set ks" for k
    proof -
      obtain dy dx where k: "k = (dy, dx)" "dy < unat h" "dx < unat w"
        using mem by (auto simp: ks_def)
      with f [of dy dx] False show ?thesis unfolding in_rect_def by metis
    qed
    then have "\<forall>k \<in> set ks. f k \<noteq> i" by blast
    with px False foldl_write_out [of ks f i "\<lambda>_. c" "pixels s"] show ?thesis by simp
  qed
qed

text \<open>The pixels of one character cell, and the colour a glyph gives each of them.\<close>

definition cell_at :: "nat \<Rightarrow> nat \<Rightarrow> nat \<Rightarrow> nat \<Rightarrow> nat \<Rightarrow> nat" where
  "cell_at P r c y x = (8 + 16 * r + y) * P + (8 + 16 * c + x)"

definition glyph_bit :: "u8 \<Rightarrow> nat \<Rightarrow> nat \<Rightarrow> bool" where
  "glyph_bit ch y x = bit (font8x8_basic ! unat (ch AND 0x7F) ! (y div 2)) (x div 2)"

lemma draw_glyph_frame [simp]:
  "fb_width (draw_glyph c r ch s) = fb_width s" "fb_height (draw_glyph c r ch s) = fb_height s"
  "fb_pitch32 (draw_glyph c r ch s) = fb_pitch32 s" "fb_format (draw_glyph c r ch s) = fb_format s"
  "cols (draw_glyph c r ch s) = cols s" "rows (draw_glyph c r ch s) = rows s"
  "cur_col (draw_glyph c r ch s) = cur_col s" "cur_row (draw_glyph c r ch s) = cur_row s"
  "fg (draw_glyph c r ch s) = fg s" "bg (draw_glyph c r ch s) = bg s"
  "ready (draw_glyph c r ch s) = ready s"
  by (simp_all add: draw_glyph_def Let_def)

lemma draw_glyph_index:
  assumes "8 + 16 * unat row + 16 \<le> 2 ^ 32" and "8 + 16 * unat col + 16 \<le> (2 ^ 32 :: nat)"
    and "gy < 8" and "sy < 2"
  shows "line_at s (MARGIN + row * CELL_H + of_nat gy * SCALE + of_nat sy) (MARGIN + col * CELL_W) + (gx * 2 + sx)
    = cell_at (unat (fb_pitch32 s)) (unat row) (unat col) (gy * 2 + sy) (gx * 2 + sx)"
proof -
  have "unat (MARGIN + col * CELL_W) = 8 + 16 * unat col"
    using assms(2) by (simp add: cell_size unat_word_ariths)
  moreover have "unat (MARGIN + row * CELL_H + of_nat gy * SCALE + of_nat sy) = 8 + 16 * unat row + (gy * 2 + sy)"
    using assms(1,3,4) by (simp add: cell_size unat_word_ariths unat_of_nat)
  ultimately show ?thesis by (simp add: line_at_def cell_at_def)
qed

text \<open>The four loops of \<open>draw_glyph\<close> as one loop over the pairs (row, column) of the cell.\<close>

definition glyph_steps :: "((nat \<times> nat) \<times> nat \<times> nat) list" where
  "glyph_steps = List.product (List.product [0..<8] [0..<2]) (List.product [0..<8] [0..<2])"

definition glyph_write :: "fbcon \<Rightarrow> u32 \<Rightarrow> u32 \<Rightarrow> u8 \<Rightarrow> (nat \<times> nat) \<times> nat \<times> nat \<Rightarrow> pixels \<Rightarrow> pixels" where
  "glyph_write s col row ch k m = (case k of ((gy, sy), (gx, sx)) \<Rightarrow>
     m(line_at s (MARGIN + row * CELL_H + of_nat gy * SCALE + of_nat sy) (MARGIN + col * CELL_W) + (gx * 2 + sx) :=
       (if bit (font8x8_basic ! unat (ch AND 0x7F) ! gy) gx then to_native s (fg s) else to_native s (bg s))))"

lemma draw_glyph_loop:
  "pixels (draw_glyph col row ch s) = foldl (\<lambda>m k. glyph_write s col row ch k m) (pixels s) glyph_steps"
  unfolding glyph_steps_def foldl_over_product
  by (simp add: draw_glyph_def Let_def glyph_write_def)

lemma draw_glyph_writes:
  assumes "8 + 16 * unat row + 16 \<le> 2 ^ 32" and "8 + 16 * unat col + 16 \<le> (2 ^ 32 :: nat)"
  shows "pixels (draw_glyph col row ch s) =
    foldl (\<lambda>m k. m(cell_at (unat (fb_pitch32 s)) (unat row) (unat col)
        (fst (fst k) * 2 + snd (fst k)) (fst (snd k) * 2 + snd (snd k)) :=
      (if bit (font8x8_basic ! unat (ch AND 0x7F) ! fst (fst k)) (fst (snd k))
        then to_native s (fg s) else to_native s (bg s)))) (pixels s) glyph_steps"
  unfolding draw_glyph_loop
proof (rule foldl_cong)
  fix m k
  assume "k \<in> set glyph_steps"
  then obtain gy sy gx sx where k: "k = ((gy, sy), (gx, sx))" "gy < 8" "sy < 2"
    by (auto simp: glyph_steps_def)
  show "glyph_write s col row ch k m = m(cell_at (unat (fb_pitch32 s)) (unat row) (unat col)
        (fst (fst k) * 2 + snd (fst k)) (fst (snd k) * 2 + snd (snd k)) :=
      (if bit (font8x8_basic ! unat (ch AND 0x7F) ! fst (fst k)) (fst (snd k))
        then to_native s (fg s) else to_native s (bg s)))"
    using draw_glyph_index [OF assms k(2,3), of s gx sx] by (simp only: glyph_write_def k(1) prod.case fst_conv snd_conv)
qed simp_all

lemma draw_glyph_outside:
  assumes "8 + 16 * unat row + 16 \<le> 2 ^ 32" and "8 + 16 * unat col + 16 \<le> (2 ^ 32 :: nat)"
    and "\<forall>y < 16. \<forall>x < 16. i \<noteq> cell_at (unat (fb_pitch32 s)) (unat row) (unat col) y x"
  shows "pixels (draw_glyph col row ch s) i = pixels s i"
  unfolding draw_glyph_writes [OF assms(1,2)]
proof (rule foldl_write_out, rule ballI)
  fix k
  assume "k \<in> set glyph_steps"
  then have "fst (fst k) * 2 + snd (fst k) < 16" "fst (snd k) * 2 + snd (snd k) < 16"
    by (auto simp: glyph_steps_def)
  with assms(3) show "cell_at (unat (fb_pitch32 s)) (unat row) (unat col)
      (fst (fst k) * 2 + snd (fst k)) (fst (snd k) * 2 + snd (snd k)) \<noteq> i"
    by metis
qed

lemma cell_at_inj:
  assumes "cell_at P r c y x = cell_at P r' c' y' x'"
    and "8 + 16 * c + 16 \<le> P" "8 + 16 * c' + 16 \<le> P" "y < 16" "x < 16" "y' < 16" "x' < 16"
  shows "r = r' \<and> c = c' \<and> y = y' \<and> x = x'"
proof -
  have "8 + 16 * r + y = 8 + 16 * r' + y' \<and> 8 + 16 * c + x = 8 + 16 * c' + x'"
  proof (rule pixel_index_inj)
    show "8 + 16 * c + x < P" "8 + 16 * c' + x' < P" using assms(2-7) by linarith+
  qed (use assms(1) in \<open>simp only: cell_at_def\<close>)
  then have "r * 16 + y = r' * 16 + y'" "c * 16 + x = c' * 16 + x'" by simp_all
  with pixel_index_inj [of r 16 y r' y'] pixel_index_inj [of c 16 x c' x'] assms(4-7)
  show ?thesis by simp
qed

lemma draw_glyph_inside:
  assumes "8 + 16 * unat row + 16 \<le> 2 ^ 32" and "8 + 16 * unat col + 16 \<le> unat (fb_pitch32 s)"
    and "y < 16" and "x < 16"
  shows "pixels (draw_glyph col row ch s) (cell_at (unat (fb_pitch32 s)) (unat row) (unat col) y x) =
    (if glyph_bit ch y x then to_native s (fg s) else to_native s (bg s))"
proof -
  have "unat (fb_pitch32 s) < 2 ^ 32" by (rule unat_u32_less)
  with assms(2) have c: "8 + 16 * unat col + 16 \<le> (2 ^ 32 :: nat)" by simp
  show ?thesis
    unfolding draw_glyph_writes [OF assms(1) c]
  proof (rule foldl_write_in [where k = "((y div 2, y mod 2), (x div 2, x mod 2))"], goal_cases)
    case 1
    then show ?case using assms(3,4) by (simp add: glyph_steps_def less_mult_imp_div_less)
  next
    case 2
    then show ?case by simp
  next
    case 3
    show ?case
    proof (intro ballI impI)
      fix k
      assume k: "k \<in> set glyph_steps" and
        i: "cell_at (unat (fb_pitch32 s)) (unat row) (unat col)
            (fst (fst k) * 2 + snd (fst k)) (fst (snd k) * 2 + snd (snd k)) =
          cell_at (unat (fb_pitch32 s)) (unat row) (unat col) y x"
      from k have lt: "fst (fst k) < 8" "snd (fst k) < 2" "fst (snd k) < 8" "snd (snd k) < 2"
        by (auto simp: glyph_steps_def)
      from cell_at_inj [OF i assms(2,2)] lt assms(3,4)
      have "fst (fst k) * 2 + snd (fst k) = y" "fst (snd k) * 2 + snd (snd k) = x" by simp_all
      with lt have "fst (fst k) = y div 2" "fst (snd k) = x div 2" by auto
      then show "(if bit (font8x8_basic ! unat (ch AND 0x7F) ! fst (fst k)) (fst (snd k))
          then to_native s (fg s) else to_native s (bg s)) =
        (if glyph_bit ch y x then to_native s (fg s) else to_native s (bg s))"
        by (simp add: glyph_bit_def)
    qed
  qed
qed

section \<open>Scrolling\<close>

lemma copy_up:
  fixes m0 :: pixels
  assumes "0 < n"
  shows "foldl (\<lambda>m i. m(dst + i := m (dst + n + i))) m0 [0..<count] =
    (\<lambda>j. if dst \<le> j \<and> j < dst + count then m0 (j + n) else m0 j)"
proof (induction count)
  case (Suc count)
  let ?F = "foldl (\<lambda>m i. m(dst + i := m (dst + n + i))) m0 [0..<count]"
  have "foldl (\<lambda>m i. m(dst + i := m (dst + n + i))) m0 [0..<Suc count] =
      ?F(dst + count := ?F (dst + n + count))"
    by simp
  also have "\<dots> = (\<lambda>j. if dst \<le> j \<and> j < dst + Suc count then m0 (j + n) else m0 j)"
    unfolding Suc using assms by (auto simp: fun_eq_iff ac_simps)
  finally show ?case .
qed (auto simp: fun_eq_iff)

text \<open>Sizes the console computes at start, from a mode whose lines fit the pitch.\<close>

definition geometry :: "fbcon \<Rightarrow> bool" where
  "geometry s \<longleftrightarrow> 320 \<le> unat (fb_width s) \<and> 200 \<le> unat (fb_height s) \<and>
     unat (fb_width s) \<le> unat (fb_pitch32 s) \<and>
     unat (cols s) = (unat (fb_width s) - 16) div 16 \<and> unat (rows s) = (unat (fb_height s) - 16) div 16"

lemma geometry_bounds:
  assumes "geometry s"
  shows "16 * unat (cols s) + 16 \<le> unat (fb_width s)" "16 * unat (rows s) + 16 \<le> unat (fb_height s)"
    "0 < unat (cols s)" "0 < unat (rows s)" "unat (fb_width s) \<le> unat (fb_pitch32 s)"
    "unat (fb_height s) < 2 ^ 32" "unat (fb_pitch32 s) < 2 ^ 32"
proof -
  have g: "320 \<le> unat (fb_width s)" "200 \<le> unat (fb_height s)"
    "unat (cols s) = (unat (fb_width s) - 16) div 16" "unat (rows s) = (unat (fb_height s) - 16) div 16"
    "unat (fb_width s) \<le> unat (fb_pitch32 s)"
    using assms by (simp_all add: geometry_def)
  show "unat (fb_height s) < 2 ^ 32" "unat (fb_pitch32 s) < 2 ^ 32" by (rule unat_u32_less)+
  show "unat (fb_width s) \<le> unat (fb_pitch32 s)" by (rule g)
  show "16 * unat (cols s) + 16 \<le> unat (fb_width s)" "16 * unat (rows s) + 16 \<le> unat (fb_height s)"
    "0 < unat (cols s)" "0 < unat (rows s)"
    using g by linarith+
qed

definition row_move :: "nat \<Rightarrow> nat \<Rightarrow> pixels \<Rightarrow> pixels" where
  "row_move P R m j = (if 8 * P \<le> j \<and> j < 8 * P + 16 * P * (R - 1) then m (j + 16 * P) else m j)"

lemma scroll_eq:
  assumes "geometry s"
  shows "scroll s = fill_rect 0 (MARGIN + (rows s - 1) * CELL_H) (fb_width s) CELL_H (to_native s (bg s))
    (s\<lparr>pixels := row_move (unat (fb_pitch32 s)) (unat (rows s)) (pixels s)\<rparr>)"
proof -
  note g = geometry_bounds [OF assms]
  let ?P = "unat (fb_pitch32 s)"
  have u: "unat (ucast w :: u64) = unat w" for w :: u32
    using unat_u32_less [of w] by (simp add: unsigned_ucast_eq take_bit_nat_eq_self)
  have row_px: "unat ((ucast CELL_H :: u64) * ucast (fb_pitch32 s)) = 16 * ?P"
    using g(7) by (simp add: unat_word_ariths u cell_size)
  have dst: "unat ((ucast MARGIN :: u64) * ucast (fb_pitch32 s)) = 8 * ?P"
    using g(7) by (simp add: unat_word_ariths u cell_size)
  have r1: "unat (rows s - 1) = unat (rows s) - 1"
    using g(4) by (simp add: unat_sub word_le_nat_alt)
  have "16 * ?P * (unat (rows s) - 1) \<le> 2 ^ 36 * (2 ^ 28 - 1)"
    by (rule mult_le_mono) (use g in \<open>simp_all\<close>)
  then have "16 * ?P * (unat (rows s) - 1) < 2 ^ 64" by simp
  then have count: "unat ((ucast CELL_H :: u64) * ucast (fb_pitch32 s) * ucast (rows s - 1)) =
      16 * ?P * (unat (rows s) - 1)"
    by (subst unat_word_ariths(2)) (simp only: row_px u r1, simp)
  have "0 < 16 * ?P" using g by simp
  from copy_up [OF this, of "8 * ?P" "pixels s" "16 * ?P * (unat (rows s) - 1)"]
  have "foldl (\<lambda>m i. m(8 * ?P + i := m (8 * ?P + 16 * ?P + i))) (pixels s)
      [0..<16 * ?P * (unat (rows s) - 1)] = row_move ?P (unat (rows s)) (pixels s)"
    by (simp add: row_move_def fun_eq_iff)
  then show ?thesis
    by (simp add: scroll_def Let_def dst row_px count to_native_def)
qed

lemma cell_origin:
  "8 + 16 * unat q < 2 ^ 32 \<Longrightarrow> unat (MARGIN + q * CELL_H) = 8 + 16 * unat q"
  by (simp add: cell_size unat_word_ariths)

lemma scroll_frame [simp]:
  "fb_width (scroll s) = fb_width s" "fb_height (scroll s) = fb_height s"
  "fb_pitch32 (scroll s) = fb_pitch32 s" "fb_format (scroll s) = fb_format s"
  "cols (scroll s) = cols s" "rows (scroll s) = rows s"
  "cur_col (scroll s) = cur_col s" "cur_row (scroll s) = cur_row s"
  "fg (scroll s) = fg s" "bg (scroll s) = bg s" "ready (scroll s) = ready s"
  by (simp_all add: scroll_def Let_def)

lemma scroll_pixels:
  assumes "geometry s"
  shows "pixels (scroll s) i =
    (if in_rect (unat (fb_pitch32 s)) 0 (8 + 16 * (unat (rows s) - 1)) (unat (fb_width s)) 16 i
     then to_native s (bg s)
     else row_move (unat (fb_pitch32 s)) (unat (rows s)) (pixels s) i)"
proof -
  note g = geometry_bounds [OF assms]
  have r1: "unat (rows s - 1) = unat (rows s) - 1"
    using g(4) by (simp add: unat_sub word_le_nat_alt)
  have y: "unat (MARGIN + (rows s - 1) * CELL_H) = 8 + 16 * (unat (rows s) - 1)"
    using g(2,4,6) cell_origin [of "rows s - 1"] by (simp only: r1)
  have h: "unat CELL_H = 16" by (simp add: cell_size)
  have "unat (MARGIN + (rows s - 1) * CELL_H) + unat CELL_H \<le> 2 ^ 32"
    unfolding y h using g(2,4,6) by simp
  from fill_rect_pixels [OF this] show ?thesis
    by (simp add: scroll_eq [OF assms] y h to_native_def)
qed

text \<open>A cell of a row above the last one takes over the cell below it; the last row becomes blank.\<close>

lemma scroll_cell:
  assumes "geometry s" and "r < unat (rows s)" and "c < unat (cols s)" and "y < 16" and "x < 16"
  shows "pixels (scroll s) (cell_at (unat (fb_pitch32 s)) r c y x) =
    (if r < unat (rows s) - 1 then pixels s (cell_at (unat (fb_pitch32 s)) (r + 1) c y x)
     else to_native s (bg s))"
proof -
  note g = geometry_bounds [OF assms(1)]
  let ?P = "unat (fb_pitch32 s)" and ?R = "unat (rows s)"
  have xw: "8 + 16 * c + x < unat (fb_width s)"
    using assms(3,5) g(1) by linarith
  show ?thesis
  proof (cases "r < ?R - 1")
    case True
    have nr: "\<not> in_rect ?P 0 (8 + 16 * (?R - 1)) (unat (fb_width s)) 16 (cell_at ?P r c y x)"
    proof
      assume "in_rect ?P 0 (8 + 16 * (?R - 1)) (unat (fb_width s)) 16 (cell_at ?P r c y x)"
      then obtain dy dx where d: "dx < unat (fb_width s)"
        "cell_at ?P r c y x = (8 + 16 * (?R - 1) + dy) * ?P + dx"
        by (auto simp: in_rect_def)
      from pixel_index_inj [OF d(2) [unfolded cell_at_def]] d(1) xw g(5)
      have "8 + 16 * r + y = 8 + 16 * (?R - 1) + dy" by simp
      with True assms(4) show False by linarith
    qed
    have "8 + 16 * r + y + 1 \<le> 8 + 16 * (?R - 1)" using True assms(4) by linarith
    then have "(8 + 16 * r + y + 1) * ?P \<le> (8 + 16 * (?R - 1)) * ?P" by (rule mult_le_mono1)
    then have hi: "cell_at ?P r c y x < 8 * ?P + 16 * ?P * (?R - 1)"
      using xw g(5) by (simp add: cell_at_def algebra_simps)
    have "cell_at ?P r c y x + 16 * ?P = cell_at ?P (r + 1) c y x"
      by (simp add: cell_at_def algebra_simps)
    moreover have "8 * ?P \<le> cell_at ?P r c y x" by (simp add: cell_at_def algebra_simps)
    ultimately show ?thesis
      using True nr hi by (simp add: scroll_pixels [OF assms(1)] row_move_def)
  next
    case False
    then have "r = ?R - 1" using assms(2) by simp
    then have "in_rect ?P 0 (8 + 16 * (?R - 1)) (unat (fb_width s)) 16 (cell_at ?P r c y x)"
      using xw assms(4) by (auto simp: in_rect_def cell_at_def)
    with False show ?thesis by (simp add: scroll_pixels [OF assms(1)])
  qed
qed

text \<open>Nothing at or beyond the end of the framebuffer, pitch times height, is written.\<close>

lemma line_inside:
  fixes P :: nat
  assumes "y < H" and "x < P"
  shows "y * P + x < P * H"
proof -
  have "Suc y * P \<le> H * P" using assms(1) by (intro mult_le_mono1) simp
  with assms(2) show ?thesis by (simp add: mult.commute)
qed

lemma scroll_outside:
  assumes "geometry s" and "unat (fb_pitch32 s) * unat (fb_height s) \<le> i"
  shows "pixels (scroll s) i = pixels s i"
proof -
  note g = geometry_bounds [OF assms(1)]
  let ?P = "unat (fb_pitch32 s)" and ?R = "unat (rows s)"
  have "\<not> in_rect ?P 0 (8 + 16 * (?R - 1)) (unat (fb_width s)) 16 i"
  proof
    assume "in_rect ?P 0 (8 + 16 * (?R - 1)) (unat (fb_width s)) 16 i"
    then obtain dy dx where "dy < 16" "dx < unat (fb_width s)" "i = (8 + 16 * (?R - 1) + dy) * ?P + dx"
      by (auto simp: in_rect_def)
    with line_inside [of "8 + 16 * (?R - 1) + dy" "unat (fb_height s)" dx ?P] g assms(2)
    show False by linarith
  qed
  moreover have "8 * ?P + 16 * ?P * (?R - 1) \<le> ?P * unat (fb_height s)"
  proof -
    have "(8 + 16 * (?R - 1)) * ?P \<le> unat (fb_height s) * ?P"
      by (rule mult_le_mono1) (use g(2,4) in linarith)
    then show ?thesis by (simp add: algebra_simps)
  qed
  ultimately show ?thesis
    using assms(2) by (simp add: scroll_pixels [OF assms(1)] row_move_def)
qed

lemma draw_outside:
  assumes "geometry s" and "unat row < unat (rows s)" and "unat col < unat (cols s)"
    and "unat (fb_pitch32 s) * unat (fb_height s) \<le> i"
  shows "pixels (draw_glyph col row ch s) i = pixels s i"
proof (rule draw_glyph_outside)
  note g = geometry_bounds [OF assms(1)]
  show "8 + 16 * unat row + 16 \<le> 2 ^ 32" "8 + 16 * unat col + 16 \<le> (2 ^ 32 :: nat)"
    using assms(2,3) g by linarith+
  show "\<forall>y < 16. \<forall>x < 16. i \<noteq> cell_at (unat (fb_pitch32 s)) (unat row) (unat col) y x"
  proof (intro allI impI)
    fix y x :: nat
    assume "y < 16" "x < 16"
    then have "8 + 16 * unat row + y < unat (fb_height s)" "8 + 16 * unat col + x < unat (fb_pitch32 s)"
      using assms(2,3) g by linarith+
    from line_inside [OF this] assms(4)
    show "i \<noteq> cell_at (unat (fb_pitch32 s)) (unat row) (unat col) y x"
      unfolding cell_at_def by linarith
  qed
qed

section \<open>The terminal the console implements\<close>

text \<open>
  A grid of cells with a cursor, without pixels: a cell is blank in a colour or holds a character in
  two colours. \<open>term_putc\<close> is what a character does to it.
\<close>

datatype cell = Blank u32 | Glyph u8 u32 u32

record terminal =
  t_cols :: nat
  t_rows :: nat
  t_col :: nat
  t_row :: nat
  t_grid :: "nat \<Rightarrow> nat \<Rightarrow> cell"

definition term_scroll :: "u32 \<Rightarrow> terminal \<Rightarrow> terminal" where
  "term_scroll b t =
    (if t_rows t \<le> t_row t then
       t\<lparr>t_grid := (\<lambda>r. if r < t_rows t - 1 then t_grid t (r + 1) else (\<lambda>c. Blank b)),
         t_row := t_rows t - 1\<rparr>
     else t)"

definition term_putc :: "u32 \<Rightarrow> u32 \<Rightarrow> u8 \<Rightarrow> terminal \<Rightarrow> terminal" where
  "term_putc f b ch t =
    (if ch = 10 then term_scroll b (t\<lparr>t_col := 0, t_row := t_row t + 1\<rparr>)
     else if ch = 13 then t\<lparr>t_col := 0\<rparr>
     else if 32 \<le> ch \<and> ch < 128 then
       (let t = t\<lparr>t_grid := (t_grid t)(t_row t := (t_grid t (t_row t))(t_col t := Glyph ch f b))\<rparr>
        in if t_cols t \<le> t_col t + 1 then term_scroll b (t\<lparr>t_col := 0, t_row := t_row t + 1\<rparr>)
           else t\<lparr>t_col := t_col t + 1\<rparr>)
     else t)"

fun cell_colour :: "cell \<Rightarrow> nat \<Rightarrow> nat \<Rightarrow> u32" where
  "cell_colour (Blank b) y x = b"
| "cell_colour (Glyph ch f b) y x = (if glyph_bit ch y x then f else b)"

text \<open>A console in working order, and a console that shows a terminal.\<close>

definition con_inv :: "fbcon \<Rightarrow> bool" where
  "con_inv s \<longleftrightarrow> ready s \<and> geometry s \<and> cur_col s < cols s \<and> cur_row s < rows s"

definition shows_term :: "fbcon \<Rightarrow> terminal \<Rightarrow> bool" where
  "shows_term s t \<longleftrightarrow>
    t_cols t = unat (cols s) \<and> t_rows t = unat (rows s) \<and>
    t_col t = unat (cur_col s) \<and> t_row t = unat (cur_row s) \<and>
    (\<forall>r < unat (rows s). \<forall>c < unat (cols s). \<forall>y < 16. \<forall>x < 16.
       pixels s (cell_at (unat (fb_pitch32 s)) r c y x) = cell_colour (t_grid t r c) y x)"

lemma printable_iff: "0x20 \<le>s (c :: u8) \<longleftrightarrow> 32 \<le> c \<and> c < 128"
proof -
  have "unat c < 256" by (rule unat_u8_less)
  have u: "uint c = sint c mod 256" unfolding uint_sint [of c] by (simp add: take_bit_eq_mod)
  have b: "- 128 \<le> sint c" "sint c < 128" using sint_ge [of c] sint_lt [of c] by simp_all
  have "0x20 \<le>s c \<longleftrightarrow> 32 \<le> sint c" by (simp add: word_sle_eq)
  also have "\<dots> \<longleftrightarrow> 32 \<le> uint c \<and> uint c < 128" unfolding u using b by presburger
  also have "\<dots> \<longleftrightarrow> 32 \<le> c \<and> c < 128" by (simp add: word_le_def word_less_def)
  finally show ?thesis .
qed

text \<open>The end of \<open>fbcon_putc\<close>: scroll when the cursor has left the last row.\<close>

definition wrap :: "fbcon \<Rightarrow> fbcon" where
  "wrap s = (if rows s \<le> cur_row s then (let s = scroll s in s\<lparr>cur_row := rows s - 1\<rparr>) else s)"

lemma wrap_refines:
  assumes "ready s" "geometry s" "cur_col s < cols s" "unat (cur_row s) \<le> unat (rows s)" "shows_term s t"
  shows "con_inv (wrap s) \<and> shows_term (wrap s) (term_scroll (to_native s (bg s)) t)"
proof (cases "rows s \<le> cur_row s")
  case True
  note g = geometry_bounds [OF assms(2)]
  have r1: "unat (rows s - 1) = unat (rows s) - 1"
    using g(4) by (simp add: unat_sub word_le_nat_alt)
  have row: "unat (cur_row s) = unat (rows s)"
    using True assms(4) by (simp add: word_le_nat_alt)
  have "con_inv (wrap s)"
    using True assms g(4) by (simp add: wrap_def con_inv_def Let_def geometry_def word_less_nat_alt r1)
  moreover have "shows_term (wrap s) (term_scroll (to_native s (bg s)) t)"
    using True assms(5) scroll_cell [OF assms(2)]
    by (auto simp: wrap_def shows_term_def term_scroll_def Let_def row r1)
  ultimately show ?thesis by blast
next
  case False
  then have "\<not> unat (rows s) \<le> unat (cur_row s)" by (simp add: word_le_nat_alt)
  with False assms show ?thesis
    by (auto simp: wrap_def con_inv_def term_scroll_def shows_term_def word_less_nat_alt)
qed

lemma fbcon_putc_wrap:
  assumes "ready s"
  shows "fbcon_putc c s = wrap
    (if c = 10 then s\<lparr>cur_col := 0, cur_row := cur_row s + 1\<rparr>
     else if c = 13 then s\<lparr>cur_col := 0\<rparr>
     else if 32 \<le> c \<and> c < 128 then
       (let s = (draw_glyph (cur_col s) (cur_row s) c s)\<lparr>cur_col := cur_col s + 1\<rparr>
        in if cols s \<le> cur_col s then s\<lparr>cur_col := 0, cur_row := cur_row s + 1\<rparr> else s)
     else s)"
  using assms by (simp add: fbcon_putc_def wrap_def printable_iff Let_def)

lemma shows_after_glyph:
  assumes "con_inv s" and "shows_term s t"
  shows "shows_term (draw_glyph (cur_col s) (cur_row s) ch s)
    (t\<lparr>t_grid := (t_grid t)(t_row t := (t_grid t (t_row t))(t_col t := Glyph ch (to_native s (fg s)) (to_native s (bg s))))\<rparr>)"
proof -
  have geo: "geometry s" and cur: "unat (cur_col s) < unat (cols s)" "unat (cur_row s) < unat (rows s)"
    using assms(1) by (simp_all add: con_inv_def word_less_nat_alt)
  note g = geometry_bounds [OF geo]
  let ?P = "unat (fb_pitch32 s)"
  have row: "8 + 16 * unat (cur_row s) + 16 \<le> 2 ^ 32" and col: "8 + 16 * unat (cur_col s) + 16 \<le> ?P"
    and col': "8 + 16 * unat (cur_col s) + 16 \<le> (2 ^ 32 :: nat)"
    using cur g by linarith+
  have "pixels (draw_glyph (cur_col s) (cur_row s) ch s) (cell_at ?P r c y x) =
      (if r = unat (cur_row s) \<and> c = unat (cur_col s) then
         (if glyph_bit ch y x then to_native s (fg s) else to_native s (bg s))
       else pixels s (cell_at ?P r c y x))"
    if "r < unat (rows s)" "c < unat (cols s)" "y < 16" "x < 16" for r c y x
  proof (cases "r = unat (cur_row s) \<and> c = unat (cur_col s)")
    case True
    with draw_glyph_inside [OF row col that(3,4)] show ?thesis by simp
  next
    case False
    have "cell_at ?P r c y x \<noteq> cell_at ?P (unat (cur_row s)) (unat (cur_col s)) y' x'"
      if "y' < 16" "x' < 16" for y' x'
    proof
      assume "cell_at ?P r c y x = cell_at ?P (unat (cur_row s)) (unat (cur_col s)) y' x'"
      from cell_at_inj [OF this _ col \<open>y < 16\<close> \<open>x < 16\<close> that] \<open>c < unat (cols s)\<close> g(1,5) False
      show False by linarith
    qed
    then have "\<forall>y' < 16. \<forall>x' < 16. cell_at ?P r c y x \<noteq> cell_at ?P (unat (cur_row s)) (unat (cur_col s)) y' x'"
      by blast
    from draw_glyph_outside [OF row col' this, of ch] False show ?thesis by (simp only: if_False)
  qed
  with assms(2) show ?thesis by (simp add: shows_term_def)
qed

lemma fbcon_putc_refines_aux:
  assumes "con_inv s" and "shows_term s t"
  shows "con_inv (fbcon_putc ch s) \<and>
    shows_term (fbcon_putc ch s) (term_putc (to_native s (fg s)) (to_native s (bg s)) ch t)"
proof -
  have geo: "geometry s" and ready: "ready s" and cc: "cur_col s < cols s"
    and cur: "unat (cur_col s) < unat (cols s)" "unat (cur_row s) < unat (rows s)"
    using assms(1) by (simp_all add: con_inv_def word_less_nat_alt)
  note g = geometry_bounds [OF geo]
  have cols0: "0 < cols s" using g(3) by (simp add: word_less_nat_alt)
  have row1: "unat (cur_row s + 1) = unat (cur_row s) + 1"
    using cur(2) g by (simp add: unat_word_ariths)
  have col1: "unat (cur_col s + 1) = unat (cur_col s) + 1"
    using cur(1) g by (simp add: unat_word_ariths)
  note t = assms(2)
  have pos: "t_col t = unat (cur_col s)" "t_row t = unat (cur_row s)" "t_cols t = unat (cols s)"
    "t_rows t = unat (rows s)"
    using t by (simp_all add: shows_term_def)
  consider "ch = 10" | "ch = 13" | "32 \<le> ch \<and> ch < 128" "ch \<noteq> 10" "ch \<noteq> 13"
    | "\<not> (32 \<le> ch \<and> ch < 128)" "ch \<noteq> 10" "ch \<noteq> 13"
    by blast
  then show ?thesis
  proof cases
    case 1
    let ?s = "s\<lparr>cur_col := 0, cur_row := cur_row s + 1\<rparr>"
    have "shows_term ?s (t\<lparr>t_col := 0, t_row := t_row t + 1\<rparr>)"
      using t row1 by (simp add: shows_term_def)
    from wrap_refines [OF _ _ _ _ this] geo ready cols0 row1 cur(2) show ?thesis
      by (simp add: fbcon_putc_wrap [OF ready] 1 term_putc_def to_native_def geometry_def)
  next
    case 2
    have "wrap (s\<lparr>cur_col := 0\<rparr>) = s\<lparr>cur_col := 0\<rparr>"
      using cur(2) by (simp add: wrap_def word_le_nat_alt)
    with assms cols0 show ?thesis
      by (simp add: fbcon_putc_wrap [OF ready] 2 term_putc_def con_inv_def shows_term_def geometry_def)
  next
    case 4
    have "wrap s = s" using cur(2) by (simp add: wrap_def word_le_nat_alt)
    with assms 4 show ?thesis by (simp only: fbcon_putc_wrap [OF ready] term_putc_def if_False)
  next
    case 3
    let ?d = "draw_glyph (cur_col s) (cur_row s) ch s"
    let ?t = "t\<lparr>t_grid := (t_grid t)(t_row t := (t_grid t (t_row t))(t_col t :=
        Glyph ch (to_native s (fg s)) (to_native s (bg s))))\<rparr>"
    have d: "shows_term ?d ?t" by (rule shows_after_glyph [OF assms])
    show ?thesis
    proof (cases "cols s \<le> cur_col s + 1")
      case True
      then have full: "t_cols t \<le> t_col t + 1"
        by (simp add: pos word_le_nat_alt col1)
      let ?s = "?d\<lparr>cur_col := 0, cur_row := cur_row s + 1\<rparr>"
      have "shows_term ?s (?t\<lparr>t_col := 0, t_row := t_row t + 1\<rparr>)"
        using d row1 by (simp add: shows_term_def)
      from wrap_refines [OF _ _ _ _ this] geo ready cols0 row1 cur(2) True full 3 show ?thesis
        by (simp add: fbcon_putc_wrap [OF ready] term_putc_def to_native_def geometry_def Let_def)
    next
      case False
      let ?s = "?d\<lparr>cur_col := cur_col s + 1\<rparr>"
      have "\<not> rows s \<le> cur_row s" using cur(2) by (simp add: word_le_nat_alt)
      then have "wrap ?s = ?s" by (simp add: wrap_def)
      moreover have "\<not> t_cols t \<le> t_col t + 1"
        using False by (simp add: pos word_le_nat_alt col1)
      moreover have "con_inv ?s" using assms(1) False by (simp add: con_inv_def geometry_def)
      moreover have "shows_term ?s (?t\<lparr>t_col := t_col t + 1\<rparr>)"
        using d col1 by (simp add: shows_term_def)
      ultimately show ?thesis
        using False 3 by (simp add: fbcon_putc_wrap [OF ready] term_putc_def Let_def)
    qed
  qed
qed

section \<open>Whole texts\<close>

fun fbcon_puts :: "u8 list \<Rightarrow> fbcon \<Rightarrow> fbcon" where
  "fbcon_puts [] s = s"
| "fbcon_puts (c # cs) s = fbcon_puts cs (fbcon_putc c s)"

lemma fbcon_putc_frame [simp]:
  "fb_width (fbcon_putc c s) = fb_width s" "fb_height (fbcon_putc c s) = fb_height s"
  "fb_pitch32 (fbcon_putc c s) = fb_pitch32 s" "fb_format (fbcon_putc c s) = fb_format s"
  "cols (fbcon_putc c s) = cols s" "rows (fbcon_putc c s) = rows s"
  "fg (fbcon_putc c s) = fg s" "bg (fbcon_putc c s) = bg s" "ready (fbcon_putc c s) = ready s"
  by (simp_all add: fbcon_putc_def Let_def)

lemma to_native_cong: "fb_format s' = fb_format s \<Longrightarrow> to_native s' rgb = to_native s rgb"
  by (simp add: to_native_def)

lemma fbcon_puts_refines_aux:
  assumes "con_inv s" and "shows_term s t"
  shows "con_inv (fbcon_puts cs s) \<and>
    shows_term (fbcon_puts cs s) (foldl (\<lambda>t c. term_putc (to_native s (fg s)) (to_native s (bg s)) c t) t cs)"
  using assms
proof (induction cs arbitrary: s t)
  case (Cons c cs)
  from fbcon_putc_refines_aux [OF Cons.prems, of c]
    Cons.IH [of "fbcon_putc c s" "term_putc (to_native s (fg s)) (to_native s (bg s)) c t"]
  show ?case by (simp add: to_native_cong [of "fbcon_putc c s" s])
qed simp

definition blank_terminal :: "nat \<Rightarrow> nat \<Rightarrow> u32 \<Rightarrow> terminal" where
  "blank_terminal w h b = \<lparr>t_cols = w, t_rows = h, t_col = 0, t_row = 0, t_grid = (\<lambda>r c. Blank b)\<rparr>"

definition mode_ok :: "sypas_bootinfo \<Rightarrow> bool" where
  "mode_ok bi \<longleftrightarrow> (bi_fb_format bi = SYPAS_FB_XRGB8888 \<or> bi_fb_format bi = SYPAS_FB_XBGR8888) \<and>
     bi_fb_base bi \<noteq> 0 \<and> 320 \<le> unat (bi_fb_width bi) \<and> 200 \<le> unat (bi_fb_height bi)"

lemma fbcon_init_accepts: "fst (fbcon_init bi s) = mode_ok bi"
  by (auto simp: fbcon_init_def mode_ok_def Let_def word_less_nat_alt)

lemma fbcon_init_rejects: "\<not> mode_ok bi \<Longrightarrow> snd (fbcon_init bi s) = s"
  by (auto simp: fbcon_init_def mode_ok_def Let_def word_less_nat_alt)

text \<open>The state before the screen is cleared.\<close>

definition mode_set :: "sypas_bootinfo \<Rightarrow> fbcon \<Rightarrow> fbcon" where
  "mode_set bi s = s\<lparr>fb_base := bi_fb_base bi, fb_width := bi_fb_width bi, fb_height := bi_fb_height bi,
     fb_pitch32 := bi_fb_pitch bi div 4, fb_format := bi_fb_format bi,
     cols := (bi_fb_width bi - 2 * MARGIN) div CELL_W, rows := (bi_fb_height bi - 2 * MARGIN) div CELL_H,
     cur_col := 0, cur_row := 0\<rparr>"

lemma fbcon_init_ok:
  "mode_ok bi \<Longrightarrow> snd (fbcon_init bi s) =
    (fill_rect 0 0 (bi_fb_width bi) (bi_fb_height bi) (to_native (mode_set bi s) (bg s)) (mode_set bi s))
      \<lparr>ready := True\<rparr>"
  by (auto simp: fbcon_init_def mode_ok_def mode_set_def Let_def word_less_nat_alt)

lemma fbcon_init_pixels:
  assumes "mode_ok bi"
  shows "pixels (snd (fbcon_init bi s)) i =
    (if in_rect (unat (bi_fb_pitch bi div 4)) 0 0 (unat (bi_fb_width bi)) (unat (bi_fb_height bi)) i
     then to_native (mode_set bi s) (bg s) else pixels s i)"
proof -
  have "unat (0 :: u32) + unat (bi_fb_height bi) \<le> 2 ^ 32"
    using unat_u32_less [of "bi_fb_height bi"] by simp
  from fill_rect_pixels [OF this, of 0 _ _ "mode_set bi s"] show ?thesis
    by (simp add: fbcon_init_ok [OF assms] mode_set_def)
qed

lemma fbcon_init_geometry:
  assumes "mode_ok bi" and "unat (bi_fb_width bi) \<le> unat (bi_fb_pitch bi div 4)"
  shows "con_inv (snd (fbcon_init bi s))"
proof -
  have w: "unat ((bi_fb_width bi - 2 * MARGIN) div CELL_W) = (unat (bi_fb_width bi) - 16) div 16"
    and h: "unat ((bi_fb_height bi - 2 * MARGIN) div CELL_H) = (unat (bi_fb_height bi) - 16) div 16"
    using assms(1) by (simp_all add: mode_ok_def unat_div cell_size unat_sub word_le_nat_alt)
  have "0 < (unat (bi_fb_width bi) - 16) div 16" "0 < (unat (bi_fb_height bi) - 16) div 16"
    using assms(1) unfolding mode_ok_def by (linarith, linarith)
  with w h assms show ?thesis
    by (simp add: fbcon_init_ok con_inv_def geometry_def mode_set_def mode_ok_def word_less_nat_alt)
qed

lemma fbcon_init_shows:
  assumes "mode_ok bi" and "unat (bi_fb_width bi) \<le> unat (bi_fb_pitch bi div 4)"
  shows "shows_term (snd (fbcon_init bi s))
    (blank_terminal (unat (cols (snd (fbcon_init bi s)))) (unat (rows (snd (fbcon_init bi s))))
      (to_native (snd (fbcon_init bi s)) (bg s)))"
proof -
  let ?s = "snd (fbcon_init bi s)"
  have geo: "geometry ?s" using fbcon_init_geometry [OF assms] by (simp add: con_inv_def)
  note g = geometry_bounds [OF geo]
  have f: "fb_width ?s = bi_fb_width bi" "fb_height ?s = bi_fb_height bi"
    "fb_pitch32 ?s = bi_fb_pitch bi div 4" "cur_col ?s = 0" "cur_row ?s = 0"
    "to_native ?s (bg s) = to_native (mode_set bi s) (bg s)"
    by (simp_all add: fbcon_init_ok [OF assms(1)] mode_set_def to_native_def)
  have "in_rect (unat (bi_fb_pitch bi div 4)) 0 0 (unat (bi_fb_width bi)) (unat (bi_fb_height bi))
      (cell_at (unat (bi_fb_pitch bi div 4)) r c y x)"
    if "r < unat (rows ?s)" "c < unat (cols ?s)" "y < 16" "x < 16" for r c y x
  proof -
    have "8 + 16 * r + y < unat (bi_fb_height bi)" "8 + 16 * c + x < unat (bi_fb_width bi)"
      using that g(1,2) unfolding f by linarith+
    then show ?thesis unfolding in_rect_def cell_at_def by (metis add_0)
  qed
  then show ?thesis
    by (simp add: shows_term_def blank_terminal_def f fbcon_init_pixels [OF assms(1)])
qed

section \<open>Nothing outside the framebuffer\<close>

lemma in_rect_inside: "w \<le> P \<Longrightarrow> in_rect P 0 0 w h i \<Longrightarrow> i < P * h"
  by (auto simp: in_rect_def intro: line_inside)

lemma wrap_outside:
  assumes "geometry s" and "unat (fb_pitch32 s) * unat (fb_height s) \<le> i"
  shows "pixels (wrap s) i = pixels s i"
  using scroll_outside [OF assms] by (simp add: wrap_def Let_def)

lemma fbcon_putc_outside:
  assumes "con_inv s" and "unat (fb_pitch32 s) * unat (fb_height s) \<le> i"
  shows "pixels (fbcon_putc c s) i = pixels s i"
proof -
  have geo: "geometry s" and ready: "ready s"
    and cur: "unat (cur_col s) < unat (cols s)" "unat (cur_row s) < unat (rows s)"
    using assms(1) by (simp_all add: con_inv_def word_less_nat_alt)
  have d: "pixels (draw_glyph (cur_col s) (cur_row s) c s) i = pixels s i"
    by (rule draw_outside [OF geo cur(2,1) assms(2)])
  have geo': "geometry (t\<lparr>cur_col := a, cur_row := b\<rparr>) = geometry t" "geometry (t\<lparr>cur_col := a\<rparr>) = geometry t"
    "geometry (draw_glyph a b c s) = geometry s" for t :: fbcon and a b
    by (simp_all add: geometry_def)
  show ?thesis
    unfolding fbcon_putc_wrap [OF ready] using geo assms(2)
    by (auto simp: wrap_outside geo' d Let_def)
qed

lemma wrap_inv:
  assumes "ready s" "geometry s" "cur_col s < cols s" "unat (cur_row s) \<le> unat (rows s)"
  shows "con_inv (wrap s)"
proof -
  have "0 < unat (rows s)" using geometry_bounds(4) [OF assms(2)] .
  moreover from this have "unat (rows s - 1) = unat (rows s) - 1"
    by (simp add: unat_sub word_le_nat_alt)
  ultimately show ?thesis
    using assms by (auto simp: wrap_def con_inv_def Let_def geometry_def word_less_nat_alt word_le_nat_alt)
qed

lemma fbcon_putc_inv:
  assumes "con_inv s"
  shows "con_inv (fbcon_putc c s)"
proof -
  have geo: "geometry s" and ready: "ready s" and cc: "cur_col s < cols s"
    and cur: "unat (cur_col s) < unat (cols s)" "unat (cur_row s) < unat (rows s)"
    using assms by (simp_all add: con_inv_def word_less_nat_alt)
  note g = geometry_bounds [OF geo]
  have cols0: "0 < cols s" using g(3) by (simp add: word_less_nat_alt)
  have row1: "unat (cur_row s + 1) = unat (cur_row s) + 1"
    using cur(2) g by (simp add: unat_word_ariths)
  have geo': "geometry (t\<lparr>cur_col := a, cur_row := b\<rparr>) = geometry t" "geometry (t\<lparr>cur_col := a\<rparr>) = geometry t"
    "geometry (draw_glyph a b c s) = geometry s" for t :: fbcon and a b
    by (simp_all add: geometry_def)
  show ?thesis
    unfolding fbcon_putc_wrap [OF ready] Let_def
    by (rule wrap_inv) (use ready geo cc cols0 row1 cur(2) in \<open>auto simp: geo'\<close>)
qed

lemma fbcon_puts_inv: "con_inv s \<Longrightarrow> con_inv (fbcon_puts cs s)"
  by (induction cs arbitrary: s) (simp_all add: fbcon_putc_inv)

lemma fbcon_puts_frame [simp]:
  "cols (fbcon_puts cs s) = cols s" "rows (fbcon_puts cs s) = rows s"
  by (induction cs arbitrary: s) simp_all

lemma fbcon_puts_outside:
  "con_inv s \<Longrightarrow> unat (fb_pitch32 s) * unat (fb_height s) \<le> i \<Longrightarrow>
    pixels (fbcon_puts cs s) i = pixels s i"
  by (induction cs arbitrary: s) (simp_all add: fbcon_putc_inv fbcon_putc_outside)

text \<open>
  From an accepted mode whose lines fit its pitch, no output ever writes a pixel at or beyond
  the end of the framebuffer (pitch times height), and the cursor stays on the screen.
\<close>

lemma fbcon_stays_inside:
  assumes "fst (fbcon_init bi s)" and "unat (bi_fb_width bi) \<le> unat (bi_fb_pitch bi) div 4"
    and "unat (bi_fb_pitch bi) div 4 * unat (bi_fb_height bi) \<le> i"
  shows "pixels (fbcon_puts msg (snd (fbcon_init bi s))) i = pixels s i \<and>
    cur_col (fbcon_puts msg (snd (fbcon_init bi s))) < cols (snd (fbcon_init bi s)) \<and>
    cur_row (fbcon_puts msg (snd (fbcon_init bi s))) < rows (snd (fbcon_init bi s))"
proof -
  have ok: "mode_ok bi" and w: "unat (bi_fb_width bi) \<le> unat (bi_fb_pitch bi div 4)"
    using assms by (simp_all add: fbcon_init_accepts unat_div)
  let ?s = "snd (fbcon_init bi s)"
  have inv: "con_inv ?s" by (rule fbcon_init_geometry [OF ok w])
  have i: "unat (fb_pitch32 ?s) * unat (fb_height ?s) \<le> i"
    using assms(3) by (simp add: fbcon_init_ok [OF ok] mode_set_def unat_div)
  have "\<not> in_rect (unat (bi_fb_pitch bi div 4)) 0 0 (unat (bi_fb_width bi)) (unat (bi_fb_height bi)) i"
    using in_rect_inside [OF w, of "unat (bi_fb_height bi)" i] assms(3) by (auto simp: unat_div)
  then have "pixels ?s i = pixels s i" by (simp add: fbcon_init_pixels [OF ok])
  with fbcon_puts_outside [OF inv i, of msg] fbcon_puts_inv [OF inv, of msg] show ?thesis
    by (simp add: con_inv_def)
qed

text \<open>
  The byte order of a pixel in memory, by the boot protocol: blue, green, red in the first format, red,
  green, blue in the second.
\<close>

lemma le_bytes_word:
  "le_bytes 4 (unat (w :: u32)) = [ucast w, ucast (drop_bit 8 w), ucast (drop_bit 16 w), ucast (drop_bit 24 w)]"
proof -
  have four: "(4::nat) = Suc (Suc (Suc (Suc 0)))" by simp
  have d: "(of_nat (unat w div 2 ^ n) :: u8) = ucast (drop_bit n w)" for n
  proof -
    have "unat w div 2 ^ n = unat (drop_bit n w)"
      by (subst unat_drop_bit_eq) (simp only: drop_bit_eq_div)
    moreover have "(of_nat (unat x) :: u8) = ucast x" for x :: u32
      by (simp add: word_unat_eq_iff unat_of_nat unsigned_ucast_eq take_bit_eq_mod)
    ultimately show ?thesis by simp
  qed
  show ?thesis unfolding four le_bytes.simps using d [of 0] d [of 8] d [of 16] d [of 24]
    by (simp add: div_mult2_eq [symmetric])
qed

lemma native_bytes:
  shows "fb_format s \<noteq> SYPAS_FB_XBGR8888 \<Longrightarrow> to_native s rgb = rgb"
    and "fb_format s = SYPAS_FB_XBGR8888 \<Longrightarrow>
      take 3 (le_bytes 4 (unat (to_native s rgb))) = rev (take 3 (le_bytes 4 (unat rgb)))"
proof -
  assume f: "fb_format s = SYPAS_FB_XBGR8888"
  have masks: "(0x0000FF00 :: u32) = push_bit 8 (mask 8)" "(0x00FF0000 :: u32) = push_bit 16 (mask 8)"
    "(0x000000FF :: u32) = mask 8"
    by (simp_all add: mask_eq_exp_minus_1 push_bit_eq_mult)
  show "take 3 (le_bytes 4 (unat (to_native s rgb))) = rev (take 3 (le_bytes 4 (unat rgb)))"
    unfolding le_bytes_word to_native_def masks
    by (simp add: f) (auto simp: bit_eq_iff bit_simps)
qed (simp add: to_native_def)
text \<open>
  C28: the framebuffer console is a terminal. Once \<open>fbcon_init\<close> has accepted a mode
  whose lines are not longer than its pitch, every character cell on the screen shows, after any text,
  what an abstract terminal of that many columns and rows holds after the same text: printable ASCII
  put at the cursor, lines wrapped at the right edge, the screen moved up one row at the bottom, line
  feed and carriage return as cursor moves, and everything else (other control characters, bytes from
  128 up) ignored. Each pixel of a cell has the glyph's bit in the colours of the framebuffer's
  format (the bytes of a colour as they are in XRGB8888, red and blue exchanged in XBGR8888), and no
  pixel at or beyond the end of the framebuffer (pitch times height) is ever written.
\<close>
theorem fbcon_is_terminal:
  assumes "fst (fbcon_init bi s)" and "unat (bi_fb_width bi) \<le> unat (bi_fb_pitch bi) div 4"
  shows "let s0 = snd (fbcon_init bi s); f = to_native s0 (fg s0); b = to_native s0 (bg s0);
      w = (unat (bi_fb_width bi) - 16) div 16; h = (unat (bi_fb_height bi) - 16) div 16
    in con_inv (fbcon_puts msg s0) \<and>
       shows_term (fbcon_puts msg s0) (foldl (\<lambda>t c. term_putc f b c t) (blank_terminal w h b) msg) \<and>
       (\<forall>i \<ge> unat (bi_fb_pitch bi) div 4 * unat (bi_fb_height bi). pixels (fbcon_puts msg s0) i = pixels s i) \<and>
       (\<forall>rgb. if bi_fb_format bi = SYPAS_FB_XRGB8888 then to_native s0 rgb = rgb
          else take 3 (le_bytes 4 (unat (to_native s0 rgb))) = rev (take 3 (le_bytes 4 (unat rgb))))"
proof -
  have ok: "mode_ok bi" and w: "unat (bi_fb_width bi) \<le> unat (bi_fb_pitch bi div 4)"
    using assms by (simp_all add: fbcon_init_accepts unat_div)
  let ?s = "snd (fbcon_init bi s)"
  have inv: "con_inv ?s" by (rule fbcon_init_geometry [OF ok w])
  then have "unat (cols ?s) = (unat (bi_fb_width bi) - 16) div 16"
    "unat (rows ?s) = (unat (bi_fb_height bi) - 16) div 16"
    by (simp_all add: con_inv_def geometry_def fbcon_init_ok [OF ok] mode_set_def)
  moreover have "bg ?s = bg s" by (simp add: fbcon_init_ok [OF ok] mode_set_def)
  moreover have fmt: "fb_format ?s = bi_fb_format bi" by (simp add: fbcon_init_ok [OF ok] mode_set_def)
  moreover have "if bi_fb_format bi = SYPAS_FB_XRGB8888 then to_native ?s rgb = rgb
      else take 3 (le_bytes 4 (unat (to_native ?s rgb))) = rev (take 3 (le_bytes 4 (unat rgb)))" for rgb
    using native_bytes [of ?s rgb] ok fmt
    by (auto simp: mode_ok_def SYPAS_FB_XRGB8888_def SYPAS_FB_XBGR8888_def simp del: le_bytes.simps)
  ultimately show ?thesis
    using fbcon_puts_refines_aux [OF inv fbcon_init_shows [OF ok w], of msg]
      fbcon_stays_inside [OF assms, of _ msg] by (simp add: Let_def)
qed

text \<open>
  C29: \<open>fbcon_init\<close> does not compare the width with the pitch. Clearing the screen
  stays inside the framebuffer for exactly the modes whose width in pixels is at most the pitch in
  pixels; a mode with longer lines is accepted, and written past its end.
\<close>
theorem fbcon_init_inside_iff:
  assumes "fst (fbcon_init bi s)"
  shows "(\<forall>px i. unat (bi_fb_pitch bi) div 4 * unat (bi_fb_height bi) \<le> i \<longrightarrow>
      pixels (snd (fbcon_init bi (s\<lparr>pixels := px\<rparr>))) i = px i) \<longleftrightarrow>
    unat (bi_fb_width bi) \<le> unat (bi_fb_pitch bi) div 4"
proof -
  have ok: "mode_ok bi" using assms by (simp add: fbcon_init_accepts)
  let ?P = "unat (bi_fb_pitch bi div 4)" and ?W = "unat (bi_fb_width bi)" and ?H = "unat (bi_fb_height bi)"
  have H: "0 < ?H" using ok by (simp add: mode_ok_def)
  let ?c = "to_native (mode_set bi s) (bg s)"
  have px: "pixels (snd (fbcon_init bi (s\<lparr>pixels := px\<rparr>))) i = (if in_rect ?P 0 0 ?W ?H i then ?c else px i)"
    for px i
    by (simp add: fbcon_init_pixels [OF ok] to_native_def mode_set_def)
  have "in_rect ?P 0 0 ?W ?H (?P * ?H)" if "?P < ?W"
  proof -
    have "?P * ?H = (?H - 1) * ?P + ?P" using H by (cases ?H) (simp_all add: algebra_simps)
    moreover have "?H - 1 < ?H" using H by simp
    ultimately show ?thesis unfolding in_rect_def using that by (metis add_0)
  qed
  then have "?W \<le> ?P" if "\<forall>px i. ?P * ?H \<le> i \<longrightarrow> pixels (snd (fbcon_init bi (s\<lparr>pixels := px\<rparr>))) i = px i"
    using that [rule_format, of "?P * ?H" "\<lambda>_. ?c + 1"] by (auto simp: px not_less [symmetric])
  moreover have "pixels (snd (fbcon_init bi (s\<lparr>pixels := px\<rparr>))) i = px i"
    if "?W \<le> ?P" "?P * ?H \<le> i" for px i
    using in_rect_inside [OF that(1), of ?H i] that(2) by (auto simp: px)
  ultimately show ?thesis by (auto simp: unat_div)
qed

text \<open>A mode for concrete runs: 640 by 480 in a framebuffer with lines of 4096 bytes.\<close>

definition vga_mode :: sypas_bootinfo where
  "vga_mode = blank_bootinfo\<lparr>bi_fb_base := 0xE0000000, bi_fb_width := 640, bi_fb_height := 480,
     bi_fb_pitch := 4096, bi_fb_format := SYPAS_FB_XRGB8888\<rparr>"

lemma vga_mode_accepted: "fst (fbcon_init vga_mode s)"
  by (simp add: fbcon_init_accepts mode_ok_def vga_mode_def)

theorem fbcon_is_terminal_witness:
  "shows_term (fbcon_puts [72, 105, 10] (snd (fbcon_init vga_mode (fbcon_cold (\<lambda>_. 0)))))
     (foldl (\<lambda>t c. term_putc 0x00E8E3D5 0x000B0E14 c t) (blank_terminal 39 29 0x000B0E14) [72, 105, 10])"
proof -
  have "unat (bi_fb_width vga_mode) \<le> unat (bi_fb_pitch vga_mode) div 4" by (simp add: vga_mode_def)
  from fbcon_is_terminal [OF vga_mode_accepted this, of "fbcon_cold (\<lambda>_. 0)" "[72, 105, 10]"]
  show ?thesis
    by (simp add: Let_def to_native_def fbcon_init_def vga_mode_def fbcon_cold_def fill_rect_def
        SYPAS_FB_XRGB8888_def SYPAS_FB_XBGR8888_def)
qed

theorem fbcon_init_inside_iff_witness:
  "\<not> (\<forall>px i. 200 \<le> i \<longrightarrow> pixels (snd (fbcon_init (vga_mode\<lparr>bi_fb_width := 320, bi_fb_height := 200,
      bi_fb_pitch := 4\<rparr>) ((fbcon_cold (\<lambda>_. 0))\<lparr>pixels := px\<rparr>))) i = px i)"
proof -
  let ?bi = "vga_mode\<lparr>bi_fb_width := 320, bi_fb_height := 200, bi_fb_pitch := 4\<rparr>"
  have "fst (fbcon_init ?bi (fbcon_cold (\<lambda>_. 0)))"
    by (simp add: fbcon_init_accepts mode_ok_def vga_mode_def)
  from fbcon_init_inside_iff [OF this] show ?thesis by (simp add: vga_mode_def)
qed

end
