(* ===== verification/Console.thy ===== *)
theory Console
  imports Kprintf Serial Fbcon
begin

text \<open>
  The console of this kernel: \<open>kprintf\<close> over its two sinks, \<open>serial_putc\<close>
  and \<open>fbcon_putc\<close>. The machine holds the state of both drivers; the two meet the
  contract of a console's sinks, so what a message puts on the line and on the screen follows from
  the drivers' own theorems.
\<close>

record machine =
  uart_driver :: serial_state
  screen_driver :: fbcon

datatype kernel_sink = Serial_putc | Fbcon_putc

fun sink_putc :: "device \<Rightarrow> (kernel_sink, machine) sink_call" where
  "sink_putc dev Serial_putc c w = w\<lparr>uart_driver := serial_putc dev c (uart_driver w)\<rparr>"
| "sink_putc dev Fbcon_putc c w = w\<lparr>screen_driver := fbcon_putc c (screen_driver w)\<rparr>"

text \<open>
  What the sinks show: the bytes on the serial line and whether the driver is present at all; a
  terminal in two colours, or nothing while the console is not ready.
\<close>

datatype view = Wire bool "u8 list" | Screen u32 u32 terminal | Dark

definition machine_ok :: "uart \<Rightarrow> machine \<Rightarrow> bool" where
  "machine_ok u0 w \<longleftrightarrow>
    (present (uart_driver w) \<longrightarrow> transmitting (uart_view u0 (bus (uart_driver w)))) \<and>
    (ready (screen_driver w) \<longrightarrow> con_inv (screen_driver w))"

fun sink_shows :: "uart \<Rightarrow> kernel_sink \<Rightarrow> machine \<Rightarrow> view \<Rightarrow> bool" where
  "sink_shows u0 Serial_putc w (Wire p bs) =
    (p = present (uart_driver w) \<and> bs = wire (uart_view u0 (bus (uart_driver w))))"
| "sink_shows u0 Fbcon_putc w (Screen f b t) =
    (ready (screen_driver w) \<and> shows_term (screen_driver w) t \<and>
     f = to_native (screen_driver w) (fg (screen_driver w)) \<and>
     b = to_native (screen_driver w) (bg (screen_driver w)))"
| "sink_shows u0 Fbcon_putc w Dark = (\<not> ready (screen_driver w))"
| "sink_shows u0 k w v = False"

fun sink_feed :: "kernel_sink \<Rightarrow> u8 \<Rightarrow> view \<Rightarrow> view" where
  "sink_feed Serial_putc c (Wire p bs) = Wire p (if p then bs @ crlf c else bs)"
| "sink_feed Fbcon_putc c (Screen f b t) = Screen f b (term_putc f b c t)"
| "sink_feed k c v = v"

lemma fbcon_putc_not_ready: "\<not> ready s \<Longrightarrow> fbcon_putc c s = s"
  by (simp add: fbcon_putc_def)

lemma serial_putc_transmitting:
  assumes "present s" and "transmitting (uart_view u0 (bus s))"
  shows "transmitting (uart_view u0 (bus (serial_putc dev c s)))"
  using assms(2) by (simp add: serial_putc_view [OF assms] transmitting_def)

lemma sink_putc_ok:
  assumes "machine_ok u0 w"
  shows "machine_ok u0 (sink_putc dev k c w)"
proof (cases k)
  case Serial_putc
  with assms show ?thesis
    by (auto simp: machine_ok_def serial_putc_present intro: serial_putc_transmitting)
next
  case Fbcon_putc
  with assms show ?thesis by (auto simp: machine_ok_def fbcon_putc_inv)
qed

lemma sink_putc_self:
  assumes "machine_ok u0 w" and "sink_shows u0 k w v"
  shows "sink_shows u0 k (sink_putc dev k c w) (sink_feed k c v)"
proof (cases k; cases v)
  fix p bs
  assume k: "k = Serial_putc" "v = Wire p bs"
  show ?thesis
  proof (cases p)
    case True
    with assms k serial_putc_view [of "uart_driver w" u0 dev c] show ?thesis
      by (simp add: machine_ok_def serial_putc_present)
  next
    case False
    with assms k show ?thesis by (simp add: serial_putc_absent)
  qed
next
  fix f b t
  assume k: "k = Fbcon_putc" "v = Screen f b t"
  with assms fbcon_putc_refines_aux [of "screen_driver w" t c] show ?thesis
    by (auto simp: machine_ok_def to_native_cong [of "fbcon_putc c (screen_driver w)" "screen_driver w"])
qed (use assms in \<open>auto simp: fbcon_putc_not_ready\<close>)

lemma sink_putc_other:
  "j \<noteq> k \<Longrightarrow> sink_shows u0 j w v \<Longrightarrow> sink_shows u0 j (sink_putc dev k c w) v"
  by (cases j; cases k; cases v) auto

interpretation kernel_console: console_sinks "sink_putc dev" "machine_ok u0" "sink_shows u0" sink_feed
  for dev u0
  by unfold_locales (blast intro: sink_putc_ok sink_putc_self sink_putc_other)+

text \<open>
  What a text does to the two outputs: a registered and present serial driver sends it down the line,
  behind what was sent before and with each line feed as carriage return and line feed; a registered
  and ready framebuffer console shows the terminal it showed before with the text written to it.
\<close>

definition console_shows :: "uart \<Rightarrow> kernel_sink console \<Rightarrow> u8 list \<Rightarrow> machine \<Rightarrow> machine \<Rightarrow> bool" where
  "console_shows u0 con t w w' \<longleftrightarrow>
    (Serial_putc \<in> set (sinks con) \<and> present (uart_driver w) \<longrightarrow>
      wire (uart_view u0 (bus (uart_driver w'))) =
        wire (uart_view u0 (bus (uart_driver w))) @ concat (map crlf t)) \<and>
    (\<forall>tm. Fbcon_putc \<in> set (sinks con) \<and> ready (screen_driver w) \<and> shows_term (screen_driver w) tm \<longrightarrow>
      shows_term (screen_driver w') (foldl (\<lambda>tm c. term_putc
        (to_native (screen_driver w) (fg (screen_driver w)))
        (to_native (screen_driver w) (bg (screen_driver w))) c tm) tm t))"

lemma send_shows:
  assumes "machine_ok u0 w" and "distinct (sinks con)"
  shows "machine_ok u0 (send (emit (sink_putc dev) con) t w)"
    and "console_shows u0 con t w (send (emit (sink_putc dev) con) t w)"
proof -
  let ?w' = "send (emit (sink_putc dev) con) t w"
  have show_all: "\<And>k v. sink_shows u0 k w v \<Longrightarrow> sink_shows u0 k ?w'
      (if k \<in> set (sinks con) then foldl (\<lambda>v c. sink_feed k c v) v t else v)"
    using kernel_console.send_show [OF assms(2,1)] .
  have line: "foldl (\<lambda>v c. sink_feed Serial_putc c v) (Wire True bs) t = Wire True (bs @ concat (map crlf t))"
    for bs by (induction t arbitrary: bs) simp_all
  have scr: "foldl (\<lambda>v c. sink_feed Fbcon_putc c v) (Screen f b tm) t =
      Screen f b (foldl (\<lambda>tm c. term_putc f b c tm) tm t)" for f b tm
    by (induction t arbitrary: tm) simp_all
  let ?f = "to_native (screen_driver w) (fg (screen_driver w))"
    and ?b = "to_native (screen_driver w) (bg (screen_driver w))"
  have serial: "wire (uart_view u0 (bus (uart_driver ?w'))) =
      wire (uart_view u0 (bus (uart_driver w))) @ concat (map crlf t)"
    if "Serial_putc \<in> set (sinks con)" "present (uart_driver w)"
    using show_all [of Serial_putc "Wire True (wire (uart_view u0 (bus (uart_driver w))))"] that
    by (simp add: line)
  have screen: "shows_term (screen_driver ?w') (foldl (\<lambda>tm c. term_putc ?f ?b c tm) tm t)"
    if s: "Fbcon_putc \<in> set (sinks con)" "ready (screen_driver w)" "shows_term (screen_driver w) tm" for tm
  proof -
    have "sink_shows u0 Fbcon_putc w (Screen ?f ?b tm)" using s(2,3) by simp
    from show_all [OF this] have "sink_shows u0 Fbcon_putc ?w'
        (Screen ?f ?b (foldl (\<lambda>tm c. term_putc ?f ?b c tm) tm t))"
      unfolding scr using s(1) by (simp only: if_True)
    then show ?thesis unfolding sink_shows.simps by blast
  qed
  from serial screen show "console_shows u0 con t w ?w'" unfolding console_shows_def by blast
  show "machine_ok u0 ?w'" by (rule kernel_console.send_ok [OF assms(1)])
qed

text \<open>
  C30: a call of \<open>kprintf\<close> that returns has put one and the same text on both outputs,
  the one its format and arguments stand for: a registered and present serial driver has sent it down
  the line, behind what was sent before and with each line feed as carriage return and line feed; a
  registered and ready framebuffer console shows the terminal it showed before with the text written
  to it.
\<close>
theorem console_shows_message:
  assumes "machine_ok u0 w" and "distinct (sinks con)"
    and "kprintf (sink_putc dev) con fmt ap w = Some w'"
  shows "\<exists>t. sprintf fmt ap = Some t \<and> machine_ok u0 w' \<and>
    (Serial_putc \<in> set (sinks con) \<and> present (uart_driver w) \<longrightarrow>
      wire (uart_view u0 (bus (uart_driver w'))) =
        wire (uart_view u0 (bus (uart_driver w))) @ concat (map crlf t)) \<and>
    (\<forall>tm. Fbcon_putc \<in> set (sinks con) \<and> ready (screen_driver w) \<and> shows_term (screen_driver w) tm \<longrightarrow>
      shows_term (screen_driver w') (foldl (\<lambda>tm c. term_putc
        (to_native (screen_driver w) (fg (screen_driver w)))
        (to_native (screen_driver w) (bg (screen_driver w))) c tm) tm t))"
proof -
  from assms(3) obtain t where t: "sprintf fmt ap = Some t" "w' = send (emit (sink_putc dev) con) t w"
    by (auto simp: kprintf_send)
  with send_shows [OF assms(1,2), where dev = dev and t = t] show ?thesis unfolding console_shows_def by blast
qed

text \<open>The machine after the bring-up of both drivers, for a concrete run.\<close>

definition uart_reset :: uart where
  "uart_reset = \<lparr>lcr = 0, mcr = 0, ier = 0, divisor_lo = 0, divisor_hi = 0, wire = []\<rparr>"

definition console_up :: machine where
  "console_up = \<lparr>uart_driver = snd (serial_init echo_device \<lparr>bus = [], present = False\<rparr>),
     screen_driver = snd (fbcon_init vga_mode (fbcon_cold (\<lambda>_. 0)))\<rparr>"

lemma console_up_ok: "machine_ok uart_reset console_up" "present (uart_driver console_up)"
  "wire (uart_view uart_reset (bus (uart_driver console_up))) = []"
proof -
  let ?s = "\<lparr>bus = [], present = False\<rparr>"
  have p: "echo_device (probe_trace ?s) 0x3FF = 0x5A" "echo_device (loopback_trace echo_device ?s) 0x3F8 = 0xA5"
    by (simp_all add: echo_device_def probe_trace_def loopback_trace_def)
  have u: "uart_driver console_up = ?s\<lparr>bus := loopback_trace echo_device ?s @ [In 0x3F8 0xA5, Out 0x3FC 0x0F],
      present := True\<rparr>"
    by (simp add: console_up_def serial_init_success [OF p])
  have "con_inv (screen_driver console_up)"
    unfolding console_up_def
    by (simp, rule fbcon_init_geometry) (simp_all add: mode_ok_def vga_mode_def unat_div)
  then show "machine_ok uart_reset console_up" "present (uart_driver console_up)"
    "wire (uart_view uart_reset (bus (uart_driver console_up))) = []"
    by (simp_all add: machine_ok_def u serial_ready_view Let_def transmitting_def)
      (simp_all add: uart_view_def uart_reset_def)
qed

lemma console_up_screen:
  "ready (screen_driver console_up)"
  "shows_term (screen_driver console_up) (blank_terminal 39 29 0x000B0E14)"
proof -
  let ?c = "fbcon_cold (\<lambda>_. 0)"
  have ok: "mode_ok vga_mode" "unat (bi_fb_width vga_mode) \<le> unat (bi_fb_pitch vga_mode div 4)"
    by (simp_all add: mode_ok_def vga_mode_def unat_div)
  have v: "screen_driver console_up = snd (fbcon_init vga_mode ?c)" by (simp add: console_up_def)
  have f: "ready (snd (fbcon_init vga_mode ?c))" "unat (cols (snd (fbcon_init vga_mode ?c))) = 39"
    "unat (rows (snd (fbcon_init vga_mode ?c))) = 29"
    "to_native (snd (fbcon_init vga_mode ?c)) (bg ?c) = 0x000B0E14"
    by (simp_all add: fbcon_init_ok [OF ok(1)] mode_set_def to_native_def cell_size unat_div)
      (simp_all add: vga_mode_def fbcon_cold_def SYPAS_FB_XRGB8888_def SYPAS_FB_XBGR8888_def)
  from fbcon_init_shows [OF ok, of ?c] f(1) show "ready (screen_driver console_up)"
    "shows_term (screen_driver console_up) (blank_terminal 39 29 0x000B0E14)"
    unfolding v f(2-4) by blast+
qed

lemma console_up_native: "to_native (screen_driver console_up) c = c"
proof -
  have "mode_ok vga_mode" by (simp add: mode_ok_def vga_mode_def)
  from fbcon_init_ok [OF this] show ?thesis
    by (simp add: console_up_def to_native_def mode_set_def vga_mode_def SYPAS_FB_XRGB8888_def SYPAS_FB_XBGR8888_def)
qed

theorem console_shows_message_witness:
  "\<exists>w'. kprintf (sink_putc echo_device) \<lparr>sinks = [Serial_putc, Fbcon_putc]\<rparr> (bytes_of ''up'' @ [10, 0]) [] console_up
      = Some w' \<and>
    wire (uart_view uart_reset (bus (uart_driver w'))) = bytes_of ''up'' @ [13, 10]"
proof -
  have t: "sprintf (bytes_of ''up'' @ [10, 0]) [] = Some (bytes_of ''up'' @ [10])"
    by (simp add: bytes_of_def sprintf_chr)
  have "kprintf (sink_putc echo_device) \<lparr>sinks = [Serial_putc, Fbcon_putc]\<rparr> (bytes_of ''up'' @ [10, 0]) []
      console_up \<noteq> None"
    by (simp add: kprintf_send t)
  then obtain w' where w': "kprintf (sink_putc echo_device) \<lparr>sinks = [Serial_putc, Fbcon_putc]\<rparr>
      (bytes_of ''up'' @ [10, 0]) [] console_up = Some w'" by blast
  from console_shows_message [OF console_up_ok(1) _ w'] t w' console_up_ok(2,3)
  show ?thesis by (auto simp: bytes_of_def crlf_def)
qed

end
