(* ===== verification/Panic.thy ===== *)
theory Panic
  imports Interrupts Console "HOL-Library.Sublist"
begin

text \<open>
  The panic path, src/kernel/debug/panic.c: colours, banner, reason, register dump, stack window.
  The control registers are read from the processor and the stack words from memory; both are
  parameters, and a stack word that cannot be read is \<open>None\<close>, a fault inside the panic.
  What comes after the last line, a loop around \<open>cli; hlt\<close>, has no effect and no end; the
  result is the machine that is left halted.
\<close>

section \<open>Messages\<close>

text \<open>A message of the source that ends in a newline, and one that does not, with its terminator.\<close>

definition line_fmt :: "string \<Rightarrow> u8 list" where
  "line_fmt s = bytes_of s @ [10, 0]"

definition word_fmt :: "string \<Rightarrow> u8 list" where
  "word_fmt s = bytes_of s @ [0]"

text \<open>Calls of \<open>kprintf\<close> one after the other.\<close>

fun kprintfs :: "('k, 'w) sink_call \<Rightarrow> 'k console \<Rightarrow> (u8 list \<times> arg list) list \<Rightarrow> 'w \<Rightarrow> 'w option" where
  "kprintfs call con [] w = Some w"
| "kprintfs call con ((fmt, ap) # r) w =
    (case kprintf call con fmt ap w of None \<Rightarrow> None | Some w \<Rightarrow> kprintfs call con r w)"

record control_regs =
  cr0 :: u64
  cr2 :: u64
  cr3 :: u64
  cr4 :: u64

section \<open>The dump\<close>

definition frame_lines :: "interrupt_frame \<Rightarrow> control_regs \<Rightarrow> (u8 list \<times> arg list) list" where
  "frame_lines f cr =
    [(line_fmt ''vector=%lu error=0x%lx'', [Arg_long (vector f), Arg_long (error_code f)]),
     (line_fmt ''RIP=%016lx CS=%04lx RFLAGS=%016lx'', [Arg_long (rip f), Arg_long (cs f), Arg_long (rflags f)]),
     (line_fmt ''RSP=%016lx SS=%04lx'', [Arg_long (rsp f), Arg_long (ss f)]),
     (line_fmt ''RAX=%016lx RBX=%016lx RCX=%016lx'', [Arg_long (rax f), Arg_long (rbx f), Arg_long (rcx f)]),
     (line_fmt ''RDX=%016lx RSI=%016lx RDI=%016lx'', [Arg_long (rdx f), Arg_long (rsi f), Arg_long (rdi f)]),
     (line_fmt ''RBP=%016lx R8 =%016lx R9 =%016lx'', [Arg_long (rbp f), Arg_long (r8 f), Arg_long (r9 f)]),
     (line_fmt ''R10=%016lx R11=%016lx R12=%016lx'', [Arg_long (r10 f), Arg_long (r11 f), Arg_long (r12 f)]),
     (line_fmt ''R13=%016lx R14=%016lx R15=%016lx'', [Arg_long (r13 f), Arg_long (r14 f), Arg_long (r15 f)]),
     (bytes_of ''CR0=%016lx CR2=%016lx'' @ [10] @ line_fmt ''CR3=%016lx CR4=%016lx'',
       [Arg_long (cr0 cr), Arg_long (cr2 cr), Arg_long (cr3 cr), Arg_long (cr4 cr)]),
     (word_fmt ''stack:'', [])]"

fun dump_stack :: "('k, 'w) sink_call \<Rightarrow> 'k console \<Rightarrow> (u64 \<Rightarrow> u64 option) \<Rightarrow> u64 \<Rightarrow> nat list \<Rightarrow> 'w \<Rightarrow> 'w option" where
  "dump_stack call con qword sp [] w = Some w"
| "dump_stack call con qword sp (i # is) w =
    (case qword (sp + 8 * of_nat i) of
       None \<Rightarrow> None
     | Some v \<Rightarrow>
         (case kprintf call con (word_fmt '' %016lx'') [Arg_long v] w of
            None \<Rightarrow> None
          | Some w \<Rightarrow> dump_stack call con qword sp is w))"

definition dump_frame :: "('k, 'w) sink_call \<Rightarrow> 'k console \<Rightarrow> control_regs \<Rightarrow> (u64 \<Rightarrow> u64 option) \<Rightarrow>
    interrupt_frame \<Rightarrow> 'w \<Rightarrow> 'w option" where
  "dump_frame call con cr qword f w =
    (case kprintfs call con (frame_lines f cr) w of
       None \<Rightarrow> None
     | Some w \<Rightarrow>
         (case dump_stack call con qword (rsp f) [0..<8] w of
            None \<Rightarrow> None
          | Some w \<Rightarrow> kprintf call con (line_fmt '''') [] w))"

definition alert :: "machine \<Rightarrow> machine" where
  "alert w = w\<lparr>screen_driver := fbcon_set_colors 0x00FFB4AB 0x00330A0A (screen_driver w)\<rparr>"

definition panic_banner :: "u8 list" where
  "panic_banner = [10] @ line_fmt ''================ SYPAS KERNEL PANIC ================''"

definition panic_footer :: "u8 list" where
  "panic_footer = line_fmt ''====================================================''"

definition panic_with_frame :: "device \<Rightarrow> kernel_sink console \<Rightarrow> control_regs \<Rightarrow> (u64 \<Rightarrow> u64 option) \<Rightarrow>
    u8 list option \<Rightarrow> interrupt_frame \<Rightarrow> machine \<Rightarrow> machine option" where
  "panic_with_frame dev con cr qword reason f w =
    (case kprintfs (sink_putc dev) con
        [(panic_banner, []), (line_fmt ''reason : %s'', [Arg_str reason])] (alert w) of
       None \<Rightarrow> None
     | Some w \<Rightarrow>
         (case dump_frame (sink_putc dev) con cr qword f w of
            None \<Rightarrow> None
          | Some w \<Rightarrow> kprintfs (sink_putc dev) con
              [(line_fmt ''SYSTEM STATUS: HALTED'', []), (panic_footer, [])] w))"

definition panic :: "device \<Rightarrow> kernel_sink console \<Rightarrow> u8 list \<Rightarrow> arg list \<Rightarrow> machine \<Rightarrow> machine option" where
  "panic dev con fmt ap w =
    kprintfs (sink_putc dev) con
      [(panic_banner, []), (word_fmt ''reason : '', []), (fmt, ap),
       ([10] @ line_fmt ''SYSTEM STATUS: HALTED'', []), (panic_footer, [])] (alert w)"

section \<open>The text of a panic\<close>

fun sprintfs :: "(u8 list \<times> arg list) list \<Rightarrow> u8 list option" where
  "sprintfs [] = Some []"
| "sprintfs ((fmt, ap) # r) =
    (case sprintf fmt ap of None \<Rightarrow> None | Some t \<Rightarrow> map_option (\<lambda>u. t @ u) (sprintfs r))"

lemma kprintfs_send:
  "kprintfs call con ms w = map_option (\<lambda>t. send (emit call con) t w) (sprintfs ms)"
proof (induction call con ms w rule: kprintfs.induct)
  case (2 call con fmt ap r w)
  then show ?case
    by (cases "sprintf fmt ap") (simp_all add: kprintf_send option.map_comp o_def send_append)
qed simp

text \<open>A number in hexadecimal with leading zeros, as \<open>%016lx\<close> and \<open>%04lx\<close> print it.\<close>

definition hex_pad :: "nat \<Rightarrow> u64 \<Rightarrow> u8 list" where
  "hex_pad n v = replicate (n - length (digit_text 16 False v)) 48 @ digit_text 16 False v"

lemma render_lit: "render (map Chr t @ ps) ap = map_option (\<lambda>u. t @ u) (render ps ap)"
  by (induction t) (simp_all add: option.map_comp o_def option.map_ident)

lemma render_chr: "render [Chr c] ap = Some [c]"
  by simp

lemma render_hex:
  "render (Spec True n (Suc 0) 120 # ps) (Arg_long v # ap) = map_option (\<lambda>u. hex_pad n v @ u) (render ps ap)"
proof -
  have "nat (int n - int k) = n - k" for k by simp
  then show ?thesis
    by (cases "render ps ap") (simp_all add: convert_def emit_uint_text send_collect hex_pad_def)
qed

lemma sprintf_pieces:
  assumes "fmt = concat (map piece_bytes ps) @ [0]" and "list_all piece_ok ps"
  shows "sprintf fmt ap = render ps ap"
  using sprintf_pieces_aux [OF assms(2), of "[]" ap] assms(1) by simp

text \<open>The fields of a line: a label and a register in hexadecimal of a given width, for each.\<close>

fun field_pieces :: "(string \<times> nat) list \<Rightarrow> piece list" where
  "field_pieces [] = []"
| "field_pieces ((n, wd) # ns) = map Chr (bytes_of n) @ Spec True wd (Suc 0) 120 # field_pieces ns"

fun field_chunks :: "(string \<times> nat \<times> u64) list \<Rightarrow> u8 list list" where
  "field_chunks [] = []"
| "field_chunks ((n, wd, v) # r) = (bytes_of n @ hex_pad wd v) # field_chunks r"

lemma render_fields:
  "render (field_pieces (map (\<lambda>(n, wd, v). (n, wd)) r) @ map Chr t) (map (\<lambda>(n, wd, v). Arg_long v) r) =
    Some (concat (field_chunks r) @ t)"
proof (induction r)
  case Nil
  show ?case using render_lit [of t "[]" "[]"] by simp
next
  case (Cons a r)
  then show ?case by (cases a) (simp add: render_lit render_hex del: render.simps)
qed

definition field_ok :: "string \<times> nat \<Rightarrow> bool" where
  "field_ok p \<longleftrightarrow> list_all (\<lambda>c. c \<noteq> 0 \<and> c \<noteq> 37) (bytes_of (fst p)) \<and> snd p \<le> 16"

lemma field_pieces_ok: "list_all field_ok ns \<Longrightarrow> list_all piece_ok (field_pieces ns)"
  by (induction ns rule: field_pieces.induct) (auto simp: field_ok_def list_all_iff is_digit_def)

lemma sprintf_fields:
  assumes "fmt = concat (map piece_bytes (field_pieces (map (\<lambda>(n, wd, v). (n, wd)) r) @ map Chr t)) @ [0]"
    and "list_all field_ok (map (\<lambda>(n, wd, v). (n, wd)) r)" and "list_all (\<lambda>c. c \<noteq> 0 \<and> c \<noteq> 37) t"
  shows "sprintf fmt (map (\<lambda>(n, wd, v). Arg_long v) r) = Some (concat (field_chunks r) @ t)"
proof -
  have "list_all piece_ok (field_pieces (map (\<lambda>(n, wd, v). (n, wd)) r) @ map Chr t)"
    using field_pieces_ok [OF assms(2)] assms(3) by (auto simp: list_all_iff)
  from sprintf_pieces [OF assms(1) this] show ?thesis by (simp only: render_fields)
qed

lemma dec_16 [simp]: "dec_bytes 16 = [49, 54]" and dec_4 [simp]: "dec_bytes 4 = [52]"
  by (simp_all add: dec_bytes.simps)

definition frame_fields :: "interrupt_frame \<Rightarrow> control_regs \<Rightarrow> (string \<times> nat \<times> u64) list list" where
  "frame_fields f cr =
    [[(''RIP='', 16, rip f), ('' CS='', 4, cs f), ('' RFLAGS='', 16, rflags f)],
     [(''RSP='', 16, rsp f), ('' SS='', 4, ss f)],
     [(''RAX='', 16, rax f), ('' RBX='', 16, rbx f), ('' RCX='', 16, rcx f)],
     [(''RDX='', 16, rdx f), ('' RSI='', 16, rsi f), ('' RDI='', 16, rdi f)],
     [(''RBP='', 16, rbp f), ('' R8 ='', 16, r8 f), ('' R9 ='', 16, r9 f)],
     [(''R10='', 16, r10 f), ('' R11='', 16, r11 f), ('' R12='', 16, r12 f)],
     [(''R13='', 16, r13 f), ('' R14='', 16, r14 f), ('' R15='', 16, r15 f)],
     [(''CR0='', 16, cr0 cr), ('' CR2='', 16, cr2 cr), (CHR 0x0A # ''CR3='', 16, cr3 cr), ('' CR4='', 16, cr4 cr)]]"

text \<open>The lines of registers of the dump are the lines of these fields.\<close>

lemma register_lines:
  "map (\<lambda>(fmt, ap). sprintf fmt ap) (take 8 (drop 1 (frame_lines f cr))) =
    map (\<lambda>r. Some (concat (field_chunks r) @ [10])) (frame_fields f cr)"
  unfolding frame_lines_def frame_fields_def
  using
    sprintf_fields [where r = "[(''RIP='', 16, rip f), ('' CS='', 4, cs f), ('' RFLAGS='', 16, rflags f)]" and t = "[10]"]
    sprintf_fields [where r = "[(''RSP='', 16, rsp f), ('' SS='', 4, ss f)]" and t = "[10]"]
    sprintf_fields [where r = "[(''RAX='', 16, rax f), ('' RBX='', 16, rbx f), ('' RCX='', 16, rcx f)]" and t = "[10]"]
    sprintf_fields [where r = "[(''RDX='', 16, rdx f), ('' RSI='', 16, rsi f), ('' RDI='', 16, rdi f)]" and t = "[10]"]
    sprintf_fields [where r = "[(''RBP='', 16, rbp f), ('' R8 ='', 16, r8 f), ('' R9 ='', 16, r9 f)]" and t = "[10]"]
    sprintf_fields [where r = "[(''R10='', 16, r10 f), ('' R11='', 16, r11 f), ('' R12='', 16, r12 f)]" and t = "[10]"]
    sprintf_fields [where r = "[(''R13='', 16, r13 f), ('' R14='', 16, r14 f), ('' R15='', 16, r15 f)]" and t = "[10]"]
    sprintf_fields [where r = "[(''CR0='', 16, cr0 cr), ('' CR2='', 16, cr2 cr), (CHR 0x0A # ''CR3='', 16, cr3 cr), ('' CR4='', 16, cr4 cr)]" and t = "[10]"]
  by (simp add: bytes_of_def line_fmt_def field_ok_def)

lemma sprintf_vector_line:
  "sprintf (line_fmt ''vector=%lu error=0x%lx'') [Arg_long a, Arg_long b] =
    Some (bytes_of ''vector='' @ digit_text 10 False a @ bytes_of '' error=0x'' @ digit_text 16 False b @ [10])"
proof -
  let ?ps = "map Chr (bytes_of ''vector='') @ [Spec False 0 (Suc 0) 117] @ map Chr (bytes_of '' error=0x'') @
    [Spec False 0 (Suc 0) 120, Chr 10]"
  have "line_fmt ''vector=%lu error=0x%lx'' = concat (map piece_bytes ?ps) @ [0]"
    by (simp add: line_fmt_def bytes_of_def)
  moreover have "list_all piece_ok ?ps" by (simp add: bytes_of_def is_digit_def)
  ultimately have "sprintf (line_fmt ''vector=%lu error=0x%lx'') [Arg_long a, Arg_long b] =
      render ?ps [Arg_long a, Arg_long b]" by (rule sprintf_pieces)
  also have "\<dots> = Some (bytes_of ''vector='' @ digit_text 10 False a @ bytes_of '' error=0x'' @ digit_text 16 False b @ [10])"
    by (simp add: render_lit convert_def emit_uint_text send_collect)
  finally show ?thesis .
qed

lemma emit_str_text:
  "0 \<notin> set s \<Longrightarrow> emit_str collect (s @ 0 # tail) t = Some (t @ s)"
  by (induction s arbitrary: t) (auto simp: collect_def)

lemma sprintf_reason_line:
  assumes "0 \<notin> set s"
  shows "sprintf (line_fmt ''reason : %s'') [Arg_str (Some (s @ 0 # tail))] = Some (bytes_of ''reason : '' @ s @ [10])"
proof -
  let ?ps = "map Chr (bytes_of ''reason : '') @ [Spec False 0 0 115, Chr 10]"
  have "line_fmt ''reason : %s'' = concat (map piece_bytes ?ps) @ [0]"
    by (simp add: line_fmt_def bytes_of_def)
  moreover have "list_all piece_ok ?ps" by (simp add: bytes_of_def is_digit_def)
  ultimately have "sprintf (line_fmt ''reason : %s'') [Arg_str (Some (s @ 0 # tail))] =
      render ?ps [Arg_str (Some (s @ 0 # tail))]" by (rule sprintf_pieces)
  also have "\<dots> = Some (bytes_of ''reason : '' @ s @ [10])"
    by (simp add: render_lit convert_def emit_str_text [OF assms])
  finally show ?thesis .
qed

text \<open>A format without conversions stands for itself.\<close>

lemma sprintf_plain:
  assumes "list_all (\<lambda>c. c \<noteq> 0 \<and> c \<noteq> 37) t"
  shows "sprintf (t @ [0]) ap = Some t"
  using assms by (induction t) (simp_all add: sprintf_chr)

lemma sprintf_stack_word: "sprintf (word_fmt '' %016lx'') [Arg_long v] = Some (32 # hex_pad 16 v)"
  using sprintf_fields [where r = "[('' '', 16, v)]" and t = "[]"]
  by (simp add: word_fmt_def bytes_of_def field_ok_def)

lemma sprintfs_texts:
  assumes "map (\<lambda>(fmt, ap). sprintf fmt ap) ms = map Some ts"
  shows "sprintfs ms = Some (concat ts)"
  using assms
proof (induction ms arbitrary: ts)
  case (Cons m ms)
  then obtain t ts' where "ts = t # ts'" "(case m of (fmt, ap) \<Rightarrow> sprintf fmt ap) = Some t"
    "map (\<lambda>(fmt, ap). sprintf fmt ap) ms = map Some ts'" by (cases ts) auto
  with Cons.IH show ?case by (cases m) simp
qed simp

definition dump_text :: "interrupt_frame \<Rightarrow> control_regs \<Rightarrow> u8 list" where
  "dump_text f cr = bytes_of ''vector='' @ digit_text 10 False (vector f) @ bytes_of '' error=0x'' @
     digit_text 16 False (error_code f) @ [10] @
     concat (map (\<lambda>r. concat (field_chunks r) @ [10]) (frame_fields f cr)) @ bytes_of ''stack:''"

lemma sprintfs_frame_lines: "sprintfs (frame_lines f cr) = Some (dump_text f cr)"
proof -
  have stack: "sprintf (word_fmt ''stack:'') [] = Some (bytes_of ''stack:'')"
    unfolding word_fmt_def by (rule sprintf_plain) (simp add: bytes_of_def)
  have len: "frame_lines f cr = [frame_lines f cr ! 0] @ take 8 (drop 1 (frame_lines f cr)) @ [frame_lines f cr ! 9]"
    by (simp add: frame_lines_def)
  have "map (\<lambda>(fmt, ap). sprintf fmt ap) (frame_lines f cr) = map Some
      ([bytes_of ''vector='' @ digit_text 10 False (vector f) @ bytes_of '' error=0x'' @ digit_text 16 False (error_code f) @ [10]]
       @ map (\<lambda>r. concat (field_chunks r) @ [10]) (frame_fields f cr) @ [bytes_of ''stack:''])"
    by (subst len) (simp only: map_append list.map register_lines,
      simp add: frame_lines_def sprintf_vector_line stack)
  from sprintfs_texts [OF this] show ?thesis by (simp add: dump_text_def)
qed

lemma dump_stack_text:
  assumes "\<forall>i \<in> set is. qword (sp + 8 * of_nat i) = Some (q i)"
  shows "dump_stack call con qword sp is w =
    Some (send (emit call con) (concat (map (\<lambda>i. 32 # hex_pad 16 (q i)) is)) w)"
  using assms
proof (induction "is" arbitrary: w)
  case (Cons i "is")
  then show ?case
    by (simp add: kprintf_send sprintf_stack_word) (simp add: send_def)
qed simp

lemma dump_frame_text:
  assumes "\<forall>i < 8. qword (rsp f + 8 * of_nat i) = Some (q i)"
  shows "dump_frame call con cr qword f w = Some (send (emit call con)
    (dump_text f cr @ concat (map (\<lambda>i. 32 # hex_pad 16 (q i)) [0..<8]) @ [10]) w)"
proof -
  have "\<forall>i \<in> set [0..<8]. qword (rsp f + 8 * of_nat i) = Some (q i)" using assms by simp
  note stack = dump_stack_text [OF this]
  have lines: "kprintfs call con (frame_lines f cr) w = Some (send (emit call con) (dump_text f cr) w)"
    by (simp add: kprintfs_send sprintfs_frame_lines)
  have newline: "kprintf call con (line_fmt '''') [] x = Some (send (emit call con) [10] x)" for x
    by (simp add: kprintf_send line_fmt_def bytes_of_def sprintf_chr)
  show ?thesis
    unfolding dump_frame_def lines option.case stack newline send_append by (rule refl)
qed

lemma banner_text:
  "sprintf panic_banner [] = Some ([10] @ bytes_of ''================ SYPAS KERNEL PANIC ================'' @ [10])"
  using sprintf_plain [of "[10] @ bytes_of ''================ SYPAS KERNEL PANIC ================'' @ [10]" "[]"]
  by (simp add: panic_banner_def line_fmt_def bytes_of_def)

lemma footer_text:
  "sprintf panic_footer [] = Some (bytes_of ''===================================================='' @ [10])"
  using sprintf_plain [of "bytes_of ''===================================================='' @ [10]" "[]"]
  by (simp add: panic_footer_def line_fmt_def bytes_of_def)

lemma status_text:
  "sprintf (line_fmt ''SYSTEM STATUS: HALTED'') [] = Some (bytes_of ''SYSTEM STATUS: HALTED'' @ [10])"
  using sprintf_plain [of "bytes_of ''SYSTEM STATUS: HALTED'' @ [10]" "[]"]
  by (simp add: line_fmt_def bytes_of_def)

definition panic_text :: "u8 list \<Rightarrow> interrupt_frame \<Rightarrow> control_regs \<Rightarrow> (nat \<Rightarrow> u64) \<Rightarrow> u8 list" where
  "panic_text reason f cr q =
    ([10] @ bytes_of ''================ SYPAS KERNEL PANIC ================'' @ [10]) @
    (bytes_of ''reason : '' @ reason @ [10]) @ dump_text f cr @
    (concat (map (\<lambda>i. 32 # hex_pad 16 (q i)) [0..<8]) @ [10]) @
    (bytes_of ''SYSTEM STATUS: HALTED'' @ [10]) @
    bytes_of ''===================================================='' @ [10]"

lemma panic_with_frame_text:
  assumes "0 \<notin> set s" and "\<forall>i < 8. qword (rsp f + 8 * of_nat i) = Some (q i)"
  shows "panic_with_frame dev con cr qword (Some (s @ 0 # tail)) f w =
    Some (send (emit (sink_putc dev) con) (panic_text s f cr q) (alert w))"
proof -
  let ?em = "send (emit (sink_putc dev) con)"
  have first: "kprintfs (sink_putc dev) con
      [(panic_banner, []), (line_fmt ''reason : %s'', [Arg_str (Some (s @ 0 # tail))])] x =
      Some (?em (([10] @ bytes_of ''================ SYPAS KERNEL PANIC ================'' @ [10]) @
        bytes_of ''reason : '' @ s @ [10]) x)" for x
    by (simp add: kprintfs_send banner_text sprintf_reason_line [OF assms(1)])
  have lastp: "kprintfs (sink_putc dev) con [(line_fmt ''SYSTEM STATUS: HALTED'', []), (panic_footer, [])] x =
      Some (?em ((bytes_of ''SYSTEM STATUS: HALTED'' @ [10]) @
        bytes_of ''===================================================='' @ [10]) x)" for x
    by (simp add: kprintfs_send footer_text status_text)
  show ?thesis
    unfolding panic_with_frame_def first option.case dump_frame_text [OF assms(2)] lastp panic_text_def send_append
    by (rule refl)
qed

section \<open>What can be read off the screen\<close>

lemma number_of_zeros: "number_of b (replicate k 48 @ ds) = number_of b ds"
  by (induction k) (simp_all add: number_of_def digit_value_def)

lemma number_of_hex_pad: "number_of 16 (hex_pad n v) = unat v"
  using digit_text_number [of 16 False v] by (simp add: hex_pad_def number_of_zeros)

lemma length_hex_pad: "n \<le> length (hex_pad n v)"
  by (simp add: hex_pad_def)

lemma sublist_in_context: "sublist x y \<Longrightarrow> sublist x (a @ y @ b)"
  by (auto simp: sublist_def) (metis append.assoc)

lemma sublist_trans:
  assumes "sublist x y" and "sublist y z"
  shows "sublist x z"
proof -
  obtain a b c d where "y = a @ x @ b" "z = c @ y @ d" using assms by (auto simp: sublist_def)
  then have "z = (c @ a) @ x @ (b @ d)" by simp
  then show ?thesis unfolding sublist_def by blast
qed

lemma sublist_concat: "x \<in> set xs \<Longrightarrow> sublist x (concat xs)"
  by (auto simp: sublist_def in_set_conv_decomp) (metis concat.simps(2) concat_append)

lemma field_sublist: "(n, wd, v) \<in> set r \<Longrightarrow> sublist (bytes_of n @ hex_pad wd v) (concat (field_chunks r))"
proof -
  assume "(n, wd, v) \<in> set r"
  then have "bytes_of n @ hex_pad wd v \<in> set (field_chunks r)"
    by (induction r rule: field_chunks.induct) auto
  then show ?thesis by (rule sublist_concat)
qed

lemma dump_field:
  assumes "(n, wd, v) \<in> set (concat (frame_fields f cr))"
  shows "sublist (bytes_of n @ hex_pad wd v) (dump_text f cr)"
proof -
  obtain r where r: "r \<in> set (frame_fields f cr)" "(n, wd, v) \<in> set r" using assms by auto
  have "sublist (bytes_of n @ hex_pad wd v) (concat (field_chunks r) @ [10])"
    using sublist_in_context [OF field_sublist [OF r(2)], of "[]" "[10]"] by simp
  moreover have "sublist (concat (field_chunks r) @ [10])
      (concat (map (\<lambda>r. concat (field_chunks r) @ [10]) (frame_fields f cr)))"
    by (rule sublist_concat) (use r(1) in auto)
  ultimately have "sublist (bytes_of n @ hex_pad wd v)
      (concat (map (\<lambda>r. concat (field_chunks r) @ [10]) (frame_fields f cr)))"
    by (rule sublist_trans)
  from sublist_in_context [OF this, of "bytes_of ''vector='' @ digit_text 10 False (vector f) @ bytes_of '' error=0x'' @
      digit_text 16 False (error_code f) @ [10]" "bytes_of ''stack:''"]
  show ?thesis by (simp add: dump_text_def)
qed

text \<open>
  The alert colours are the colours of the text that follows; what is on the line and on the screen
  stays as it is.
\<close>

lemma alert_keeps:
  "uart_driver (alert w) = uart_driver w"
  "machine_ok u0 (alert w) = machine_ok u0 w"
  "ready (screen_driver (alert w)) = ready (screen_driver w)"
  "shows_term (screen_driver (alert w)) tm = shows_term (screen_driver w) tm"
  by (simp_all add: alert_def fbcon_set_colors_def machine_ok_def con_inv_def geometry_def shows_term_def)

lemma alert_colours:
  "to_native (screen_driver (alert w)) (fg (screen_driver (alert w))) = to_native (screen_driver w) 0x00FFB4AB"
  "to_native (screen_driver (alert w)) (bg (screen_driver (alert w))) = to_native (screen_driver w) 0x00330A0A"
  by (simp_all add: alert_def fbcon_set_colors_def to_native_def)

lemmas panic_shows = send_shows [of _ "alert w" for w, unfolded alert_keeps console_shows_def alert_colours]

lemma panic_text_tells:
  assumes t_def: "t = panic_text s f cr q"
  shows "sublist (bytes_of ''reason : '' @ s @ [10]) t"
    and "\<exists>ds es. sublist (bytes_of ''vector='' @ ds @ bytes_of '' error=0x'' @ es @ [10]) t \<and>
      number_of 10 ds = unat (vector f) \<and> number_of 16 es = unat (error_code f)"
    and "\<forall>(n, wd, v) \<in> set (concat (frame_fields f cr)).
       \<exists>hs. sublist (bytes_of n @ hs) t \<and> wd \<le> length hs \<and> number_of 16 hs = unat v"
    and "\<exists>ws. sublist (bytes_of ''stack:'' @ concat (map (\<lambda>h. 32 # h) ws) @ [10]) t \<and>
      map (number_of 16) ws = map (\<lambda>i. unat (q i)) [0..<8]"
proof -
  let ?ws = "map (\<lambda>i. hex_pad 16 (q i)) [0..<8]"
  have stack: "concat (map (\<lambda>i. 32 # hex_pad 16 (q i)) [0..<8]) = concat (map (\<lambda>h. 32 # h) ?ws)"
    by (simp only: list.map_comp comp_def)
  show "sublist (bytes_of ''reason : '' @ s @ [10]) t"
    unfolding t_def panic_text_def by (rule sublist_appendI)
  have "sublist (bytes_of ''vector='' @ digit_text 10 False (vector f) @ bytes_of '' error=0x'' @
      digit_text 16 False (error_code f) @ [10]) t"
    unfolding t_def panic_text_def dump_text_def sublist_def by (metis append.assoc)
  moreover have "number_of 10 (digit_text 10 False (vector f)) = unat (vector f)"
    "number_of 16 (digit_text 16 False (error_code f)) = unat (error_code f)"
    using digit_text_number [of 10 False "vector f"] digit_text_number [of 16 False "error_code f"] by simp_all
  ultimately show "\<exists>ds es. sublist (bytes_of ''vector='' @ ds @ bytes_of '' error=0x'' @ es @ [10]) t \<and>
      number_of 10 ds = unat (vector f) \<and> number_of 16 es = unat (error_code f)" by blast
  show "\<forall>(n, wd, v) \<in> set (concat (frame_fields f cr)).
       \<exists>hs. sublist (bytes_of n @ hs) t \<and> wd \<le> length hs \<and> number_of 16 hs = unat v"
  proof clarify
    fix n wd v
    assume "(n, wd, v) \<in> set (concat (frame_fields f cr))"
    from sublist_in_context [OF dump_field [OF this]]
    have "sublist (bytes_of n @ hex_pad wd v) t"
      unfolding t_def panic_text_def by (metis append.assoc)
    with length_hex_pad number_of_hex_pad
    show "\<exists>hs. sublist (bytes_of n @ hs) t \<and> wd \<le> length hs \<and> number_of 16 hs = unat v" by blast
  qed
  have "sublist (bytes_of ''stack:'' @ concat (map (\<lambda>h. 32 # h) ?ws) @ [10]) t"
    unfolding t_def panic_text_def dump_text_def stack sublist_def by (metis append.assoc)
  moreover have "map (number_of 16) ?ws = map (\<lambda>i. unat (q i)) [0..<8]"
    by (simp only: list.map_comp comp_def number_of_hex_pad)
  ultimately show "\<exists>ws. sublist (bytes_of ''stack:'' @ concat (map (\<lambda>h. 32 # h) ws) @ [10]) t \<and>
      map (number_of 16) ws = map (\<lambda>i. unat (q i)) [0..<8]" by blast
qed

text \<open>
  C37: a panic tells the truth, on the serial line and on the screen.  Let the drivers be in working
  order, no sink be registered twice, the reason be a string, and the eight words at the saved stack
  pointer be readable.  Then the panic puts one and the same text on both outputs and returns: a
  registered and present serial driver has sent it down the line behind what was sent before, and a
  registered and ready framebuffer console shows the terminal it showed before with the text written
  to it in the two alert colours.  In that text the reason stands whole on its line, and the vector,
  the error code, every general register, the instruction pointer, the flags, both segment
  selectors, the four control registers and the stack window stand behind their labels as digits
  that read back as the values in the frame.
\<close>
theorem panic_tells_truth:
  assumes "machine_ok u0 w" and "distinct (sinks con)"
    and "0 \<notin> set s" and "\<forall>i < 8. qword (rsp f + 8 * of_nat i) = Some (q i)"
  shows "\<exists>w' t ds es ws. panic_with_frame dev con cr qword (Some (s @ 0 # tail)) f w = Some w' \<and>
    machine_ok u0 w' \<and>
    (Serial_putc \<in> set (sinks con) \<and> present (uart_driver w) \<longrightarrow>
      wire (uart_view u0 (bus (uart_driver w'))) =
        wire (uart_view u0 (bus (uart_driver w))) @ concat (map crlf t)) \<and>
    (\<forall>tm. Fbcon_putc \<in> set (sinks con) \<and> ready (screen_driver w) \<and> shows_term (screen_driver w) tm \<longrightarrow>
      shows_term (screen_driver w') (foldl (\<lambda>tm c. term_putc
        (to_native (screen_driver w) 0x00FFB4AB) (to_native (screen_driver w) 0x00330A0A) c tm) tm t)) \<and>
    sublist (bytes_of ''reason : '' @ s @ [10]) t \<and>
    sublist (bytes_of ''vector='' @ ds @ bytes_of '' error=0x'' @ es @ [10]) t \<and>
    number_of 10 ds = unat (vector f) \<and> number_of 16 es = unat (error_code f) \<and>
    (\<forall>(n, wd, v) \<in> set (concat (frame_fields f cr)).
       \<exists>hs. sublist (bytes_of n @ hs) t \<and> wd \<le> length hs \<and> number_of 16 hs = unat v) \<and>
    sublist (bytes_of ''stack:'' @ concat (map (\<lambda>h. 32 # h) ws) @ [10]) t \<and>
    map (number_of 16) ws = map (\<lambda>i. unat (q i)) [0..<8]"
proof -
  let ?t = "panic_text s f cr q"
  obtain ds es where d: "sublist (bytes_of ''vector='' @ ds @ bytes_of '' error=0x'' @ es @ [10]) ?t"
    "number_of 10 ds = unat (vector f)" "number_of 16 es = unat (error_code f)"
    using panic_text_tells(2) [OF refl] by blast
  obtain ws where s: "sublist (bytes_of ''stack:'' @ concat (map (\<lambda>h. 32 # h) ws) @ [10]) ?t"
    "map (number_of 16) ws = map (\<lambda>i. unat (q i)) [0..<8]"
    using panic_text_tells(4) [OF refl] by blast
  from panic_shows [OF assms(1,2), where dev = dev and t = ?t] panic_text_tells(1,3) [OF refl] d s show ?thesis
    unfolding panic_with_frame_text [OF assms(3,4), of dev con cr tail w]
    by (intro exI [of _ "send (emit (sink_putc dev) con) ?t (alert w)"] exI [of _ ?t] exI [of _ ds]
        exI [of _ es] exI [of _ ws] conjI refl) blast+
qed

theorem panic_tells_truth_witness:
  "\<exists>w' t. panic_with_frame echo_device \<lparr>sinks = [Serial_putc, Fbcon_putc]\<rparr> \<lparr>cr0 = 1, cr2 = 0x1234, cr3 = 2, cr4 = 3\<rparr>
      (\<lambda>a. Some a) (Some (bytes_of ''#PF page fault'' @ [0])) (frame_of 14) console_up = Some w' \<and>
    wire (uart_view uart_reset (bus (uart_driver w'))) = concat (map crlf t) \<and>
    shows_term (screen_driver w') (foldl (\<lambda>tm c. term_putc 0x00FFB4AB 0x00330A0A c tm)
      (blank_terminal 39 29 0x000B0E14) t) \<and>
    sublist (bytes_of ''reason : #PF page fault'' @ [10]) t \<and>
    (\<exists>hs. sublist (bytes_of '' CR2='' @ hs) t \<and> number_of 16 hs = 0x1234)"
proof -
  let ?cr = "\<lparr>cr0 = 1, cr2 = 0x1234, cr3 = 2, cr4 = 3\<rparr>" and ?con = "\<lparr>sinks = [Serial_putc, Fbcon_putc]\<rparr>"
  have con: "distinct (sinks ?con)" "Serial_putc \<in> set (sinks ?con)" "Fbcon_putc \<in> set (sinks ?con)" by simp_all
  have r: "0 \<notin> set (bytes_of ''#PF page fault'')" by (simp add: bytes_of_def)
  have q: "\<forall>i < 8. (\<lambda>a. Some a) (rsp (frame_of 14) + 8 * of_nat i) = Some ((\<lambda>i. 8 * of_nat i :: u64) i)"
    by (simp add: frame_of_def)
  have m: "('' CR2='', 16, 0x1234) \<in> set (concat (frame_fields (frame_of 14) ?cr))"
    by (simp add: frame_fields_def)
  from panic_tells_truth [OF console_up_ok(1) con(1) r q, of echo_device ?cr "[]"]
  obtain w' t where t: "panic_with_frame echo_device ?con ?cr
      (\<lambda>a. Some a) (Some (bytes_of ''#PF page fault'' @ [0])) (frame_of 14) console_up = Some w'"
    "wire (uart_view uart_reset (bus (uart_driver w'))) = concat (map crlf t)"
    "\<And>tm. shows_term (screen_driver console_up) tm \<Longrightarrow> shows_term (screen_driver w') (foldl (\<lambda>tm c. term_putc
        (to_native (screen_driver console_up) 0x00FFB4AB) (to_native (screen_driver console_up) 0x00330A0A) c tm) tm t)"
    "sublist (bytes_of ''reason : '' @ bytes_of ''#PF page fault'' @ [10]) t"
    and f: "\<forall>(n, wd, v) \<in> set (concat (frame_fields (frame_of 14) ?cr)).
       \<exists>hs. sublist (bytes_of n @ hs) t \<and> wd \<le> length hs \<and> number_of 16 hs = unat v"
    using con(2,3) console_up_ok(2,3) console_up_screen(1) by auto
  from bspec [OF f m] have "\<exists>hs. sublist (bytes_of '' CR2='' @ hs) t \<and> number_of 16 hs = 0x1234" by auto
  with t(1,2) t(3) [OF console_up_screen(2)] t(4) show ?thesis
    unfolding console_up_native by (auto simp: bytes_of_def)
qed

end
