(* ===== verification/Cpu.thy ===== *)
theory Cpu
  imports Prelude
begin

text \<open>
  Processor identification, src/kernel/arch/x86_64/cpu.c. The \<open>cpuid\<close> instruction is a
  parameter, a function of leaf and subleaf to the four registers; the structure the caller passes in
  is a value that is returned updated, so what the function leaves alone stays what it was.
\<close>

record cpuid_regs =
  reg_a :: u32
  reg_b :: u32
  reg_c :: u32
  reg_d :: u32

type_synonym cpuid = "u32 \<Rightarrow> u32 \<Rightarrow> cpuid_regs"

record cpu_info =
  vendor :: "u8 list"
  brand :: "u8 list"
  family :: u32
  model :: u32
  stepping :: u32
  has_sse2 :: bool
  has_apic :: bool
  has_tsc :: bool
  has_1gb_pages :: bool
  has_nx :: bool

text \<open>A store of a 32-bit word at a word index of a character array.\<close>

definition store_word :: "nat \<Rightarrow> u32 \<Rightarrow> u8 list \<Rightarrow> u8 list" where
  "store_word k v bs = take (4 * k) bs @ le_bytes 4 (unat v) @ drop (4 * k + 4) bs"

definition cpu_vendor :: "cpuid \<Rightarrow> cpu_info \<Rightarrow> cpu_info" where
  "cpu_vendor cpuid info =
    (let r = cpuid 0 0;
         v = store_word 0 (reg_b r) (vendor info);
         v = store_word 1 (reg_d r) v;
         v = store_word 2 (reg_c r) v
     in info\<lparr>vendor := v[12 := 0]\<rparr>)"

definition cpu_signature :: "cpuid \<Rightarrow> cpu_info \<Rightarrow> cpu_info" where
  "cpu_signature cpuid info =
    (let r = cpuid 1 0; a = reg_a r; d = reg_d r;
         base_family = drop_bit 8 a AND 0xF;
         base_model = drop_bit 4 a AND 0xF;
         ext_family = drop_bit 20 a AND 0xFF;
         ext_model = drop_bit 16 a AND 0xF;
         info = info\<lparr>stepping := a AND 0xF, family := base_family, model := base_model\<rparr>;
         info = (if base_family = 0xF then info\<lparr>family := family info + ext_family\<rparr> else info);
         info = (if base_family = 0x6 \<or> base_family = 0xF
                 then info\<lparr>model := model info OR push_bit 4 ext_model\<rparr> else info)
     in info\<lparr>has_tsc := (d AND push_bit 4 1 \<noteq> 0), has_apic := (d AND push_bit 9 1 \<noteq> 0),
             has_sse2 := (d AND push_bit 26 1 \<noteq> 0)\<rparr>)"

definition cpu_features :: "cpuid \<Rightarrow> u32 \<Rightarrow> cpu_info \<Rightarrow> cpu_info" where
  "cpu_features cpuid max_leaf info =
    (let info = info\<lparr>has_nx := False, has_1gb_pages := False\<rparr>
     in if 0x80000001 \<le> max_leaf then
          (let d = reg_d (cpuid 0x80000001 0)
           in info\<lparr>has_nx := (d AND push_bit 20 1 \<noteq> 0), has_1gb_pages := (d AND push_bit 26 1 \<noteq> 0)\<rparr>)
        else info)"

text \<open>The loop over the three brand leaves, with the pointer as a word index.\<close>

fun brand_leaves :: "cpuid \<Rightarrow> u32 list \<Rightarrow> nat \<Rightarrow> u8 list \<Rightarrow> u8 list" where
  "brand_leaves cpuid [] p bs = bs"
| "brand_leaves cpuid (leaf # ls) p bs =
    (let r = cpuid leaf 0;
         bs = store_word p (reg_a r) bs;
         bs = store_word (p + 1) (reg_b r) bs;
         bs = store_word (p + 2) (reg_c r) bs;
         bs = store_word (p + 3) (reg_d r) bs
     in brand_leaves cpuid ls (p + 4) bs)"

definition cpu_brand :: "cpuid \<Rightarrow> u32 \<Rightarrow> cpu_info \<Rightarrow> cpu_info" where
  "cpu_brand cpuid max_leaf info =
    (let info = info\<lparr>brand := (brand info)[0 := 0]\<rparr>
     in if 0x80000004 \<le> max_leaf then
          info\<lparr>brand := (brand_leaves cpuid [0x80000002, 0x80000003, 0x80000004] 0 (brand info))[48 := 0]\<rparr>
        else info)"

definition cpu_identify :: "cpuid \<Rightarrow> cpu_info \<Rightarrow> cpu_info" where
  "cpu_identify cpuid info =
    (let info = cpu_vendor cpuid info;
         info = cpu_signature cpuid info;
         max_leaf = reg_a (cpuid 0x80000000 0);
         info = cpu_features cpuid max_leaf info
     in cpu_brand cpuid max_leaf info)"

section \<open>Family and model\<close>

text \<open>
  How the manuals lay a display family, a display model and a stepping out in the signature: a family
  from 15 up has base 15 and the rest as extended family; the high digit of the model is an extended
  model, and only families 6 and from 15 up have one.
\<close>

definition signature_ok :: "nat \<Rightarrow> nat \<Rightarrow> nat \<Rightarrow> bool" where
  "signature_ok fam mdl step \<longleftrightarrow> step < 16 \<and> mdl < 256 \<and> fam < 15 + 256 \<and> (fam = 6 \<or> 15 \<le> fam \<or> mdl < 16)"

definition signature_of :: "nat \<Rightarrow> nat \<Rightarrow> nat \<Rightarrow> nat" where
  "signature_of fam mdl step =
    step + 2 ^ 4 * (mdl mod 16) + 2 ^ 8 * min fam 15 + 2 ^ 16 * (mdl div 16) + 2 ^ 20 * (fam - 15)"

lemma unat_and_0xF: "unat (x AND 0xF :: u32) = unat x mod 16"
proof -
  have "(0xF :: u32) = mask 4" by (simp add: mask_eq_exp_minus_1)
  then have "x AND 0xF = take_bit 4 x" by (simp only: take_bit_eq_mask)
  then show ?thesis by (simp only: unsigned_take_bit_eq) (simp add: take_bit_eq_mod)
qed

lemma unat_and_0xFF: "unat (x AND 0xFF :: u32) = unat x mod 256"
proof -
  have "(0xFF :: u32) = mask 8" by (simp add: mask_eq_exp_minus_1)
  then have "x AND 0xFF = take_bit 8 x" by (simp only: take_bit_eq_mask)
  then show ?thesis by (simp only: unsigned_take_bit_eq) (simp add: take_bit_eq_mod)
qed

lemma unat_drop_bit_u32: "unat (drop_bit n (a :: u32)) = unat a div 2 ^ n"
  by (simp only: unat_drop_bit_eq) (simp only: drop_bit_eq_div)

lemma signature_fields:
  assumes "signature_ok fam mdl step"
  shows "signature_of fam mdl step < 2 ^ 32"
    and "signature_of fam mdl step mod 16 = step"
    and "signature_of fam mdl step div 2 ^ 4 mod 16 = mdl mod 16"
    and "signature_of fam mdl step div 2 ^ 8 mod 16 = min fam 15"
    and "signature_of fam mdl step div 2 ^ 16 mod 16 = mdl div 16"
    and "signature_of fam mdl step div 2 ^ 20 mod 256 = fam - 15"
proof -
  define m0 m1 f0 f1 where "m0 = mdl mod 16" and "m1 = mdl div 16" and "f0 = min fam 15" and "f1 = fam - 15"
  have b: "step < 16" "m0 < 16" "m1 < 16" "f0 < 16" "f1 < 256"
    using assms by (auto simp: signature_ok_def m0_def m1_def f0_def f1_def)
  have s: "signature_of fam mdl step = step + 16 * (m0 + 16 * (f0 + 256 * (m1 + 16 * f1)))"
    by (simp add: signature_of_def m0_def m1_def f0_def f1_def)
  have e: "signature_of fam mdl step div 2 ^ 4 = m0 + 16 * (f0 + 256 * (m1 + 16 * f1))"
    using b(1) by (simp add: s)
  have d: "x div 2 ^ (k + j) = x div 2 ^ k div 2 ^ j" for x k j :: nat
    by (simp add: power_add div_mult2_eq)
  have e8: "signature_of fam mdl step div 2 ^ 8 = f0 + 256 * (m1 + 16 * f1)"
    using d [of "signature_of fam mdl step" 4 4] b(2) e by simp
  have e16: "signature_of fam mdl step div 2 ^ 16 = m1 + 16 * f1"
    using d [of "signature_of fam mdl step" 8 8] b(4) e8 by simp
  have e20: "signature_of fam mdl step div 2 ^ 20 = f1"
    using d [of "signature_of fam mdl step" 16 4] b(3) e16 by simp
  show "signature_of fam mdl step < 2 ^ 32" unfolding s using b by simp
  show "signature_of fam mdl step mod 16 = step"
    unfolding s mod_mult_self2 using b(1) by simp
  show "signature_of fam mdl step div 2 ^ 4 mod 16 = mdl mod 16" 
    unfolding e mod_mult_self2 by (simp add: m0_def)
  show "signature_of fam mdl step div 2 ^ 8 mod 16 = min fam 15"
  proof -
    have "f0 + 256 * (m1 + 16 * f1) = f0 + 16 * (16 * (m1 + 16 * f1))" by simp
    then have "(f0 + 256 * (m1 + 16 * f1)) mod 16 = f0"
      using b(4) by (simp only: mod_mult_self2 mod_less)
    then show ?thesis unfolding e8 by (simp add: f0_def)
  qed
  show "signature_of fam mdl step div 2 ^ 16 mod 16 = mdl div 16" unfolding e16 using b by (simp add: m1_def)
  show "signature_of fam mdl step div 2 ^ 20 mod 256 = fam - 15" unfolding e20 using b by (simp add: f1_def)
qed

lemma nibble_or: "unat ((x AND 0xF) OR push_bit 4 (y AND 0xF) :: u32) = unat (x AND 0xF) + 16 * unat (y AND 0xF)"
proof -
  have m: "(0xF :: u32) = mask 4" by (simp add: mask_eq_exp_minus_1)
  have "(x AND 0xF) OR push_bit 4 (y AND 0xF) = (x AND 0xF) + push_bit 4 (y AND 0xF)"
    unfolding m by (rule disjunctive_add [symmetric]) (auto simp: bit_simps)
  moreover have "unat (x AND 0xF) < 16" "unat (y AND 0xF) < 16" by (simp_all add: unat_and_0xF)
  ultimately show ?thesis
    by (simp add: push_bit_eq_mult unat_word_ariths)
qed

text \<open>
  C38: family, model and stepping are decoded as the manuals encode them: whatever the processor's
  family, model and stepping are, if leaf 1 returns their signature, \<open>cpu_identify\<close>
  reports exactly them; the extended fields neither leak into nor get lost from the result.
\<close>
theorem cpu_identify_signature:
  assumes "signature_ok fam mdl step" and "unat (reg_a (cpuid 1 0)) = signature_of fam mdl step"
  shows "unat (family (cpu_identify cpuid info)) = fam \<and> unat (model (cpu_identify cpuid info)) = mdl \<and>
    unat (stepping (cpu_identify cpuid info)) = step"
proof -
  let ?a = "reg_a (cpuid 1 0)"
  note sig = signature_fields [OF assms(1)]
  have fields: "unat (?a AND 0xF) = step" "unat (drop_bit 8 ?a AND 0xF) = min fam 15"
    "unat (drop_bit 4 ?a AND 0xF) = mdl mod 16" "unat (drop_bit 20 ?a AND 0xFF) = fam - 15"
    "unat (drop_bit 16 ?a AND 0xF) = mdl div 16"
    unfolding unat_and_0xF unat_and_0xFF unat_drop_bit_u32 assms(2) by (rule sig)+
  have fam: "drop_bit 8 ?a AND 0xF = 0xF \<longleftrightarrow> 15 \<le> fam" "drop_bit 8 ?a AND 0xF = 0x6 \<longleftrightarrow> fam = 6"
    using fields(2) by (auto simp: word_unat_eq_iff)
  have "unat (family (cpu_identify cpuid info)) = fam"
    using fields(2,4) fam(1) assms(1)
    by (auto simp: cpu_identify_def cpu_brand_def cpu_features_def cpu_signature_def Let_def unat_word_ariths
        signature_ok_def)
  moreover have "unat (model (cpu_identify cpuid info)) = mdl"
    using fields(3,5) nibble_or [of "drop_bit 4 ?a" "drop_bit 16 ?a"] fam assms(1)
    by (auto simp: cpu_identify_def cpu_brand_def cpu_features_def cpu_signature_def Let_def signature_ok_def)
  moreover have "unat (stepping (cpu_identify cpuid info)) = step"
    using fields(1)
    by (auto simp: cpu_identify_def cpu_brand_def cpu_features_def cpu_signature_def Let_def)
  ultimately show ?thesis by blast
qed

text \<open>A processor of family 25, model 97, stepping 2.\<close>

definition zen_cpuid :: cpuid where
  "zen_cpuid leaf sub = (if leaf = 1 then \<lparr>reg_a = 0x00A60F12, reg_b = 0, reg_c = 0, reg_d = 0\<rparr>
     else \<lparr>reg_a = 0, reg_b = 0, reg_c = 0, reg_d = 0\<rparr>)"

definition blank_info :: cpu_info where
  "blank_info = \<lparr>vendor = replicate 13 0, brand = replicate 49 0, family = 0, model = 0, stepping = 0,
     has_sse2 = False, has_apic = False, has_tsc = False, has_1gb_pages = False, has_nx = False\<rparr>"

theorem cpu_identify_signature_witness:
  "unat (family (cpu_identify zen_cpuid blank_info)) = 25 \<and>
   unat (model (cpu_identify zen_cpuid blank_info)) = 97"
proof -
  have "signature_ok 25 97 2" by (simp add: signature_ok_def)
  moreover have "unat (reg_a (zen_cpuid 1 0)) = signature_of 25 97 2"
    by (simp add: zen_cpuid_def signature_of_def)
  ultimately show ?thesis using cpu_identify_signature [of 25 97 2 zen_cpuid blank_info] by simp
qed

end
