(* ===== verification/Gdt.thy ===== *)
theory Gdt
  imports Prelude
begin

text \<open>
  The global descriptor table, src/kernel/arch/x86_64/gdt.c. Loading it and the segment registers is
  one block of assembly; its effect, the table register and the selectors, is the result.
\<close>

definition GDT_KCODE :: u16 where "GDT_KCODE = 0x08"
definition GDT_KDATA :: u16 where "GDT_KDATA = 0x10"

record gdt_entry =
  limit_lo :: u16
  base_lo :: u16
  base_mid :: u8
  access :: u8
  gran :: u8
  base_hi :: u8

record gdt_ptr =
  gdt_limit :: u16
  gdt_base :: u64

record gdt_state =
  gdt :: "gdt_entry list"
  gp :: gdt_ptr
  gdtr :: "gdt_ptr option"
  sel_cs :: u16
  sel_data :: u16        \<comment> \<open>ds, es and ss\<close>
  sel_fs_gs :: u16

definition sizeof_gdt_entry :: nat where "sizeof_gdt_entry = 8"

definition gdt_set :: "nat \<Rightarrow> u8 \<Rightarrow> u8 \<Rightarrow> gdt_state \<Rightarrow> gdt_state" where
  "gdt_set i acc gr s = s\<lparr>gdt := (gdt s)[i :=
     \<lparr>limit_lo = 0xFFFF, base_lo = 0, base_mid = 0, access = acc, gran = gr, base_hi = 0\<rparr>]\<rparr>"

text \<open>\<open>gdt_address\<close> is where the linker put the table.\<close>

definition gdt_init :: "u64 \<Rightarrow> gdt_state \<Rightarrow> gdt_state" where
  "gdt_init gdt_address s =
    (let s = gdt_set 0 0 0 s;
         s = gdt_set 1 0x9A 0xA0 s;
         s = gdt_set 2 0x92 0xC0 s;
         s = s\<lparr>gp := \<lparr>gdt_limit = of_nat (sizeof_gdt_entry * length (gdt s) - 1), gdt_base = gdt_address\<rparr>\<rparr>
     in s\<lparr>gdtr := Some (gp s), sel_cs := GDT_KCODE, sel_data := GDT_KDATA, sel_fs_gs := 0\<rparr>)"

section \<open>What the processor makes of the table\<close>

definition descriptor_bytes :: "gdt_entry \<Rightarrow> u8 list" where
  "descriptor_bytes e = le_bytes 2 (unat (limit_lo e)) @ le_bytes 2 (unat (base_lo e)) @
     [base_mid e, access e, gran e, base_hi e]"

text \<open>The attributes of a code or data descriptor, from bytes 5 and 6.\<close>

definition d_present :: "u8 list \<Rightarrow> bool" where "d_present d = bit (d ! 5) 7"
definition d_ring :: "u8 list \<Rightarrow> nat" where "d_ring d = unat (drop_bit 5 (d ! 5) AND 3)"
definition d_segment :: "u8 list \<Rightarrow> bool" where "d_segment d = bit (d ! 5) 4"
definition d_code :: "u8 list \<Rightarrow> bool" where "d_code d = bit (d ! 5) 3"
definition d_rw :: "u8 list \<Rightarrow> bool" where "d_rw d = bit (d ! 5) 1"
definition d_long :: "u8 list \<Rightarrow> bool" where "d_long d = bit (d ! 6) 5"
definition d_big :: "u8 list \<Rightarrow> bool" where "d_big d = bit (d ! 6) 6"

text \<open>The descriptor a selector names in a table img: table index in bits 3 and up.\<close>

definition descriptor_at :: "u8 list \<Rightarrow> u16 \<Rightarrow> u8 list" where
  "descriptor_at img sel = take 8 (drop (8 * (unat sel div 8)) img)"

lemmas descriptor_bits = d_present_def d_ring_def d_segment_def d_code_def d_rw_def d_long_def d_big_def

lemma le_bytes_2: "le_bytes 2 v = [of_nat v, of_nat (v div 256)]"
  by (simp add: numeral_2_eq_2)

text \<open>
  C39: after \<open>gdt_init\<close> the table register covers exactly the three descriptors, the code
  selector names a present, ring-0, readable 64-bit code segment (long, and not big, as the processor
  requires), and the data selectors a present, ring-0, writable data segment.
\<close>
theorem gdt_init_segments:
  assumes "length (gdt s) = 3"
  shows "let t = gdt_init a s; img = concat (map descriptor_bytes (gdt t));
      c = descriptor_at img (sel_cs t); d = descriptor_at img (sel_data t) in
    gdtr t = Some \<lparr>gdt_limit = of_nat (length img - 1), gdt_base = a\<rparr> \<and> length img = 24 \<and>
    d_present c \<and> d_ring c = 0 \<and> d_segment c \<and> d_code c \<and> d_rw c \<and> d_long c \<and> \<not> d_big c \<and>
    d_present d \<and> d_ring d = 0 \<and> d_segment d \<and> \<not> d_code d \<and> d_rw d"
proof -
  obtain x y z where "gdt s = [x, y, z]"
    using assms by (auto simp: numeral_3_eq_3 length_Suc_conv)
  then show ?thesis
    by (simp add: gdt_init_def gdt_set_def Let_def sizeof_gdt_entry_def descriptor_at_def descriptor_bytes_def
        GDT_KCODE_def GDT_KDATA_def descriptor_bits le_bytes_2)
qed

definition gdt_cold :: gdt_state where
  "gdt_cold = \<lparr>gdt = replicate 3 \<lparr>limit_lo = 0, base_lo = 0, base_mid = 0, access = 0, gran = 0, base_hi = 0\<rparr>,
     gp = \<lparr>gdt_limit = 0, gdt_base = 0\<rparr>, gdtr = None, sel_cs = 0, sel_data = 0, sel_fs_gs = 0\<rparr>"

theorem gdt_init_segments_witness:
  "d_long (descriptor_at (concat (map descriptor_bytes (gdt (gdt_init 0x5000 gdt_cold)))) (sel_cs (gdt_init 0x5000 gdt_cold)))"
proof -
  have "length (gdt gdt_cold) = 3" by (simp add: gdt_cold_def)
  from gdt_init_segments [OF this, of "0x5000"] show ?thesis by (simp add: Let_def)
qed

end
