(* ===== verification/Pmm.thy ===== *)
theory Pmm
  imports MemoryMap Ram
begin

text \<open>
  The physical memory manager, \<^verbatim>\<open>kernel/mm/pmm.c\<close>.

  The file's static variables are the record \<open>pmm_state\<close>, together with the physical memory
  \<open>pmm_ram\<close> the bitmap lives in: \<^verbatim>\<open>bitmap[i]\<close> is the byte of RAM at \<open>bitmap + i\<close>.  \<^verbatim>\<open>panic\<close> does not
  return, so an operation that may panic has a sum type whose left side names the panic.
  \<^verbatim>\<open>pmm_init\<close> reads the boot map from RAM, entry by entry, while it writes the bitmap there.  The
  scan of \<^verbatim>\<open>pmm_alloc_page\<close> advances its counter by 1 or 8 and is a partial function
  (\<open>None\<close>: no return).  The counted loops \<^verbatim>\<open>for (p = first; p < last; p++)\<close> recurse on the number of
  turns left.

  The specification views a state as the set \<open>free_set\<close> of free page numbers.
\<close>

unbundle bit_operations_syntax

subsection \<open>State\<close>

record pmm_state =
  pmm_ram :: ram
  bitmap :: u64
  bitmap_bytes :: u64
  highest_page :: u64
  free_pages :: u64
  usable_pages :: u64
  allocator_pages :: u64
  cursor :: u64
  usable_bytes :: u64
  reserved_bytes :: u64
  mmio_bytes :: u64

datatype pmm_panic =
    Panic_no_usable_memory
  | Panic_no_bitmap_region u64
  | Panic_free_unaligned u64
  | Panic_free_out_of_range u64
  | Panic_double_free u64

definition bitmap_byte :: "pmm_state \<Rightarrow> u64 \<Rightarrow> u8" where
  "bitmap_byte st i = pmm_ram st (bitmap st + i)"

definition set_bitmap_byte :: "pmm_state \<Rightarrow> u64 \<Rightarrow> u8 \<Rightarrow> pmm_state" where
  "set_bitmap_byte st i b = st\<lparr>pmm_ram := (pmm_ram st)(bitmap st + i := b)\<rparr>"

definition bit_mask :: "u64 \<Rightarrow> u8" where
  "bit_mask page = push_bit (unat (page AND 7)) 1"

definition bit_set :: "pmm_state \<Rightarrow> u64 \<Rightarrow> pmm_state" where
  "bit_set st page =
     set_bitmap_byte st (drop_bit 3 page) (bitmap_byte st (drop_bit 3 page) OR bit_mask page)"

definition bit_clear :: "pmm_state \<Rightarrow> u64 \<Rightarrow> pmm_state" where
  "bit_clear st page =
     set_bitmap_byte st (drop_bit 3 page) (bitmap_byte st (drop_bit 3 page) AND NOT (bit_mask page))"

definition bit_test :: "pmm_state \<Rightarrow> u64 \<Rightarrow> bool" where
  "bit_test st page \<longleftrightarrow> bitmap_byte st (drop_bit 3 page) AND bit_mask page \<noteq> 0"

subsection \<open>Initialisation\<close>

text \<open>Pass 1: the extent of usable memory and the byte accounting.\<close>

fun pmm_extent :: "ram \<Rightarrow> u64 \<Rightarrow> nat \<Rightarrow> nat \<Rightarrow> u64 \<Rightarrow> u64 \<Rightarrow> u64 \<Rightarrow> u64 \<Rightarrow> u64 \<times> u64 \<times> u64 \<times> u64" where
  "pmm_extent m map_base i 0 max_addr usable reserved mmio = (max_addr, usable, reserved, mmio)"
| "pmm_extent m map_base i (Suc n) max_addr usable reserved mmio =
    (let e = map_entry m map_base i in
     if mm_type e = SYPAS_MEM_USABLE then
       pmm_extent m map_base (Suc i) n
         (if mm_base e + mm_length e > max_addr then mm_base e + mm_length e else max_addr)
         (usable + mm_length e) reserved mmio
     else if mm_type e = SYPAS_MEM_MMIO then
       pmm_extent m map_base (Suc i) n max_addr usable reserved (mmio + mm_length e)
     else pmm_extent m map_base (Suc i) n max_addr usable (reserved + mm_length e) mmio)"

text \<open>Pass 2: the first usable region above 1 MiB that holds the bitmap; 0 when there is none.\<close>

fun pmm_place_bitmap :: "ram \<Rightarrow> u64 \<Rightarrow> u64 \<Rightarrow> nat \<Rightarrow> nat \<Rightarrow> u64" where
  "pmm_place_bitmap m map_base bytes i 0 = 0"
| "pmm_place_bitmap m map_base bytes i (Suc n) =
    (let e = map_entry m map_base i in
     if mm_type e \<noteq> SYPAS_MEM_USABLE then pmm_place_bitmap m map_base bytes (Suc i) n
     else if mm_base e < 0x100000 then
       let skip = 0x100000 - mm_base e in
       if mm_length e \<le> skip then pmm_place_bitmap m map_base bytes (Suc i) n
       else if mm_length e - skip \<ge> bytes then mm_base e + skip
       else pmm_place_bitmap m map_base bytes (Suc i) n
     else if mm_length e \<ge> bytes then mm_base e
     else pmm_place_bitmap m map_base bytes (Suc i) n)"

fun pmm_fill_bitmap :: "pmm_state \<Rightarrow> u64 \<Rightarrow> nat \<Rightarrow> pmm_state" where
  "pmm_fill_bitmap st i 0 = st"
| "pmm_fill_bitmap st i (Suc n) = pmm_fill_bitmap (set_bitmap_byte st i 0xFF) (i + 1) n"

fun pmm_free_range :: "pmm_state \<Rightarrow> u64 \<Rightarrow> nat \<Rightarrow> pmm_state" where
  "pmm_free_range st p 0 = st"
| "pmm_free_range st p (Suc n) =
    (if p = 0 then pmm_free_range st (p + 1) n
     else let st1 = bit_clear st p in
          pmm_free_range (st1\<lparr>free_pages := free_pages st1 + 1\<rparr>) (p + 1) n)"

fun pmm_free_usable :: "pmm_state \<Rightarrow> u64 \<Rightarrow> nat \<Rightarrow> nat \<Rightarrow> pmm_state" where
  "pmm_free_usable st map_base i 0 = st"
| "pmm_free_usable st map_base i (Suc n) =
    (let e = map_entry (pmm_ram st) map_base i in
     if mm_type e \<noteq> SYPAS_MEM_USABLE then pmm_free_usable st map_base (Suc i) n
     else let first = ALIGN_UP (mm_base e) PAGE_SIZE div PAGE_SIZE;
              last = ALIGN_DOWN (mm_base e + mm_length e) PAGE_SIZE div PAGE_SIZE
          in pmm_free_usable (pmm_free_range st first (unat last - unat first)) map_base (Suc i) n)"

fun pmm_reserve_range :: "pmm_state \<Rightarrow> u64 \<Rightarrow> nat \<Rightarrow> pmm_state" where
  "pmm_reserve_range st p 0 = st"
| "pmm_reserve_range st p (Suc n) =
    (if \<not> bit_test st p
     then let st1 = bit_set st p in
          pmm_reserve_range (st1\<lparr>free_pages := free_pages st1 - 1\<rparr>) (p + 1) n
     else pmm_reserve_range st (p + 1) n)"

definition bitmap_page_end :: "pmm_state \<Rightarrow> u64" where
  "bitmap_page_end st = ALIGN_UP (bitmap st + bitmap_bytes st) PAGE_SIZE div PAGE_SIZE"

definition pmm_init :: "pmm_state \<Rightarrow> sypas_bootinfo \<Rightarrow> pmm_panic + pmm_state" where
  "pmm_init st bi =
    (let map_base = bi_memmap bi; n = unat (bi_memmap_count bi);
         (max_addr, usable, reserved, mmio) = pmm_extent (pmm_ram st) map_base 0 n 0 0 0 0
     in if max_addr = 0 then Inl Panic_no_usable_memory
     else
       let highest = max_addr div PAGE_SIZE;
           bytes = ALIGN_UP highest 8 div 8;
           bm = pmm_place_bitmap (pmm_ram st) map_base bytes 0 n
       in if bm = 0 then Inl (Panic_no_bitmap_region (bytes div 1024))
       else
         let st0 = st\<lparr>bitmap := bm, bitmap_bytes := bytes, highest_page := highest,
                      free_pages := 0, usable_pages := 0, allocator_pages := 0,
                      usable_bytes := usable, reserved_bytes := reserved, mmio_bytes := mmio\<rparr>;
             st1 = pmm_fill_bitmap st0 0 (unat bytes);
             st2 = pmm_free_usable st1 map_base 0 n;
             st3 = st2\<lparr>usable_pages := free_pages st2\<rparr>;
             bm_first = bitmap st3 div PAGE_SIZE;
             bm_last = bitmap_page_end st3;
             st4 = pmm_reserve_range st3 bm_first (unat bm_last - unat bm_first);
             st5 = pmm_reserve_range st4 0 (min 256 (unat (highest_page st4)))
         in Inr (st5\<lparr>allocator_pages := free_pages st5, cursor := bm_last\<rparr>))"

subsection \<open>Allocation and release\<close>

partial_function (option) pmm_scan :: "pmm_state \<Rightarrow> u64 \<Rightarrow> (pmm_state \<times> u64) option" where
  "pmm_scan st scanned =
    (if \<not> scanned < highest_page st then Some (st, 0)
     else
       let p = cursor st;
           st1 = st\<lparr>cursor := (cursor st + 1) mod highest_page st\<rparr>
       in if p AND 7 = 0 \<and> bitmap_byte st1 (drop_bit 3 p) = 0xFF
          then pmm_scan (st1\<lparr>cursor := (p + 8) mod highest_page st1\<rparr>) (scanned + 7 + 1)
          else if \<not> bit_test st1 p
          then let st2 = bit_set st1 p
               in Some (st2\<lparr>free_pages := free_pages st2 - 1\<rparr>, p * PAGE_SIZE)
          else pmm_scan st1 (scanned + 1))"

definition pmm_alloc_page :: "pmm_state \<Rightarrow> (pmm_state \<times> u64) option" where
  "pmm_alloc_page st = pmm_scan st 0"

definition pmm_free_page :: "pmm_state \<Rightarrow> u64 \<Rightarrow> pmm_panic + pmm_state" where
  "pmm_free_page st addr =
    (let p = addr div PAGE_SIZE in
     if addr AND (PAGE_SIZE - 1) \<noteq> 0 then Inl (Panic_free_unaligned addr)
     else if p \<ge> highest_page st then Inl (Panic_free_out_of_range addr)
     else if \<not> bit_test st p then Inl (Panic_double_free addr)
     else let st1 = bit_clear st p in Inr (st1\<lparr>free_pages := free_pages st1 + 1\<rparr>))"

record pmm_stats =
  ps_usable_pages :: u64
  ps_allocator_pages :: u64
  ps_free_pages :: u64
  ps_usable_bytes :: u64
  ps_reserved_bytes :: u64
  ps_mmio_bytes :: u64
  ps_bitmap_bytes :: u64

definition pmm_get_stats :: "pmm_state \<Rightarrow> pmm_stats" where
  "pmm_get_stats st = \<lparr>
     ps_usable_pages = usable_pages st, ps_allocator_pages = allocator_pages st,
     ps_free_pages = free_pages st, ps_usable_bytes = usable_bytes st,
     ps_reserved_bytes = reserved_bytes st, ps_mmio_bytes = mmio_bytes st,
     ps_bitmap_bytes = bitmap_bytes st \<rparr>"

subsection \<open>Self-test\<close>

definition ST_PAGES :: nat where "ST_PAGES = 512"

text \<open>What the self-test reports on the console; it returns true exactly for \<open>Selftest_ok\<close>.\<close>

datatype selftest_report =
    Selftest_ok
  | Selftest_exhausted nat
  | Selftest_duplicate u64
  | Selftest_mismatch u64
  | Selftest_leak u64 u64

definition st_pattern :: "u64 \<Rightarrow> u64" where
  "st_pattern a = 0x5350415359 XOR a"

fun st_alloc :: "pmm_state \<Rightarrow> u64 list \<Rightarrow> nat \<Rightarrow> (pmm_state \<times> (nat + u64 list)) option" where
  "st_alloc st got 0 = Some (st, Inr got)"
| "st_alloc st got (Suc n) =
    (case pmm_alloc_page st of
       None \<Rightarrow> None
     | Some (st1, a) \<Rightarrow>
       if a = 0 then Some (st1, Inl (length got)) else st_alloc st1 (got @ [a]) n)"

fun st_write :: "pmm_state \<Rightarrow> u64 list \<Rightarrow> pmm_state \<times> u64 option" where
  "st_write st [] = (st, None)"
| "st_write st (a # rest) =
    (let st1 = st\<lparr>pmm_ram := store_u64 (pmm_ram st) a (st_pattern a)\<rparr> in
     if a \<in> set rest then (st1, Some a) else st_write st1 rest)"

definition st_check :: "pmm_state \<Rightarrow> u64 list \<Rightarrow> u64 option" where
  "st_check st got = find (\<lambda>a. load_u64 (pmm_ram st) a \<noteq> st_pattern a) got"

fun st_release :: "pmm_state \<Rightarrow> u64 list \<Rightarrow> pmm_panic + pmm_state" where
  "st_release st [] = Inr st"
| "st_release st (a # rest) =
    (case pmm_free_page st a of Inl e \<Rightarrow> Inl e | Inr st1 \<Rightarrow> st_release st1 rest)"

definition pmm_selftest :: "pmm_state \<Rightarrow> (pmm_panic + pmm_state \<times> selftest_report) option" where
  "pmm_selftest st =
    (case st_alloc st [] ST_PAGES of
       None \<Rightarrow> None
     | Some (st1, Inl i) \<Rightarrow> Some (Inr (st1, Selftest_exhausted i))
     | Some (st1, Inr got) \<Rightarrow>
       (case st_write st1 got of
          (st2, Some a) \<Rightarrow> Some (Inr (st2, Selftest_duplicate a))
        | (st2, None) \<Rightarrow>
          (case st_check st2 got of
             Some a \<Rightarrow> Some (Inr (st2, Selftest_mismatch a))
           | None \<Rightarrow>
             (case st_release st2 got of
                Inl e \<Rightarrow> Some (Inl e)
              | Inr st3 \<Rightarrow>
                Some (Inr (st3, if free_pages st3 \<noteq> free_pages st
                                then Selftest_leak (free_pages st) (free_pages st3)
                                else Selftest_ok))))))"

subsection \<open>Single bits of the bitmap\<close>

lemma unat_drop_3: "unat (drop_bit 3 (p :: u64)) = unat p div 8"
  by (simp add: drop_bit_eq_div unat_div_distrib)

lemma unat_and_7: "unat ((p :: u64) AND 7) = unat p mod 8"
proof -
  have "p AND 7 = p mod 8"
    using take_bit_eq_mask [of 3 p] by (simp add: take_bit_eq_mod mask_eq_exp_minus_1)
  then show ?thesis by (simp add: unat_mod_distrib)
qed

lemma bit_bit_mask: "bit (bit_mask p) i \<longleftrightarrow> i = unat p mod 8"
proof -
  have "unat p mod 8 < 8" by simp
  then show ?thesis
    unfolding bit_mask_def unat_and_7 bit_push_bit_iff by (auto simp: bit_1_iff simp del: push_bit_of_1)
qed

lemma bit_test_iff: "bit_test st p \<longleftrightarrow> bit (bitmap_byte st (drop_bit 3 p)) (unat p mod 8)"
proof -
  have "bit_test st p \<longleftrightarrow> (\<exists>i. bit (bitmap_byte st (drop_bit 3 p) AND bit_mask p) i)"
    unfolding bit_test_def by (auto intro: bit_eqI)
  then show ?thesis by (simp add: bit_and_iff bit_bit_mask)
qed

lemma bitmap_byte_set: "bitmap_byte (set_bitmap_byte st i b) j = (if i = j then b else bitmap_byte st j)"
  by (simp add: bitmap_byte_def set_bitmap_byte_def)

lemma page_eq_iff: "p = q \<longleftrightarrow> drop_bit 3 p = drop_bit 3 q \<and> unat p mod 8 = unat (q :: u64) mod 8"
proof
  assume a: "drop_bit 3 p = drop_bit 3 q \<and> unat p mod 8 = unat q mod 8"
  then have "unat p div 8 = unat q div 8" using unat_drop_3 by metis
  with a have "unat p = unat q" by (metis mult_div_mod_eq)
  then show "p = q" by (simp add: word_unat_eq_iff)
qed simp

lemma bit_test_bit_set: "bit_test (bit_set st q) p \<longleftrightarrow> p = q \<or> bit_test st p"
  by (auto simp: bit_test_iff bit_set_def bitmap_byte_set bit_or_iff bit_bit_mask page_eq_iff [of p q])

lemma bit_test_bit_clear: "bit_test (bit_clear st q) p \<longleftrightarrow> p \<noteq> q \<and> bit_test st p"
proof -
  have "bit (NOT (bit_mask q)) i \<longleftrightarrow> i < 8 \<and> i \<noteq> unat q mod 8" for i
    by (auto simp: bit_not_iff bit_bit_mask)
  moreover have "unat p mod 8 < 8" by simp
  ultimately show ?thesis
    by (auto simp: bit_test_iff bit_clear_def bitmap_byte_set bit_and_iff page_eq_iff [of p q])
qed

definition same_config :: "pmm_state \<Rightarrow> pmm_state \<Rightarrow> bool" where
  "same_config st st' \<longleftrightarrow> bitmap st' = bitmap st \<and> bitmap_bytes st' = bitmap_bytes st \<and>
     highest_page st' = highest_page st"

lemma bit_op_selectors [simp]:
  "bitmap (bit_set st q) = bitmap st" "bitmap_bytes (bit_set st q) = bitmap_bytes st"
  "highest_page (bit_set st q) = highest_page st" "free_pages (bit_set st q) = free_pages st"
  "cursor (bit_set st q) = cursor st" "usable_pages (bit_set st q) = usable_pages st"
  "bitmap (bit_clear st q) = bitmap st" "bitmap_bytes (bit_clear st q) = bitmap_bytes st"
  "highest_page (bit_clear st q) = highest_page st" "free_pages (bit_clear st q) = free_pages st"
  "cursor (bit_clear st q) = cursor st" "usable_pages (bit_clear st q) = usable_pages st"
  by (simp_all add: bit_set_def bit_clear_def set_bitmap_byte_def)

lemma bit_test_same: "pmm_ram st' = pmm_ram st \<Longrightarrow> bitmap st' = bitmap st \<Longrightarrow> bit_test st' p = bit_test st p"
  by (simp add: bit_test_def bitmap_byte_def)

lemma bit_test_fields [simp]:
  "bit_test (st\<lparr>free_pages := f\<rparr>) p = bit_test st p" "bit_test (st\<lparr>cursor := c\<rparr>) p = bit_test st p"
  "bit_test (st\<lparr>usable_pages := f\<rparr>) p = bit_test st p"
  "bit_test (st\<lparr>allocator_pages := f\<rparr>) p = bit_test st p"
  by (rule bit_test_same; simp)+

lemma bit_op_ram:
  "x \<noteq> bitmap st + drop_bit 3 q \<Longrightarrow> pmm_ram (bit_set st q) x = pmm_ram st x"
  "x \<noteq> bitmap st + drop_bit 3 q \<Longrightarrow> pmm_ram (bit_clear st q) x = pmm_ram st x"
  by (simp_all add: bit_set_def bit_clear_def set_bitmap_byte_def)

subsection \<open>The set of free pages\<close>

definition free_set :: "pmm_state \<Rightarrow> nat set" where
  "free_set st = {n. n < unat (highest_page st) \<and> \<not> bit_test st (of_nat n)}"

lemma finite_free_set [simp]: "finite (free_set st)"
  by (rule finite_subset [of _ "{..<unat (highest_page st)}"]) (auto simp: free_set_def)

lemma of_nat_page_eq: "n < unat (h :: u64) \<Longrightarrow> of_nat n = (p :: u64) \<longleftrightarrow> n = unat p"
  using unat_u64_less [of h] by (auto simp: word_unat_eq_iff unat_of_nat)

lemma unat_of_nat_page: "n < unat (h :: u64) \<Longrightarrow> unat (of_nat n :: u64) = n"
  using unat_u64_less [of h] by (simp add: unat_of_nat)

lemma free_set_bit_set:
  "unat q < unat (highest_page st) \<Longrightarrow> free_set (bit_set st q) = free_set st - {unat q}"
  by (auto simp: free_set_def bit_test_bit_set of_nat_page_eq unat_of_nat_page)

lemma free_set_bit_clear:
  "unat q < unat (highest_page st) \<Longrightarrow> free_set (bit_clear st q) = insert (unat q) (free_set st)"
  by (auto simp: free_set_def bit_test_bit_clear of_nat_page_eq unat_of_nat_page)

lemma free_set_fields [simp]:
  "free_set (st\<lparr>free_pages := f\<rparr>) = free_set st" "free_set (st\<lparr>cursor := c\<rparr>) = free_set st"
  "free_set (st\<lparr>usable_pages := f\<rparr>) = free_set st"
  "free_set (st\<lparr>allocator_pages := f\<rparr>) = free_set st"
  by (simp_all add: free_set_def)

lemma free_set_iff: "unat p < unat (highest_page st) \<Longrightarrow> unat p \<in> free_set st \<longleftrightarrow> \<not> bit_test st p"
  by (simp add: free_set_def)

text \<open>The bitmap is an object of its own: it does not wrap and has a bit for every tracked page.\<close>

definition bitmap_ok :: "pmm_state \<Rightarrow> bool" where
  "bitmap_ok st \<longleftrightarrow> region_ok (bitmap st) (unat (bitmap_bytes st)) \<and>
     unat (highest_page st) \<le> 2 ^ 52 \<and> unat (bitmap_bytes st) = (unat (highest_page st) + 7) div 8"

lemma bitmap_ok_fields [simp]:
  "bitmap_ok (st\<lparr>free_pages := f\<rparr>) = bitmap_ok st" "bitmap_ok (st\<lparr>cursor := c\<rparr>) = bitmap_ok st"
  "bitmap_ok (st\<lparr>usable_pages := f\<rparr>) = bitmap_ok st"
  "bitmap_ok (st\<lparr>allocator_pages := f\<rparr>) = bitmap_ok st"
  "bitmap_ok (bit_set st q) = bitmap_ok st" "bitmap_ok (bit_clear st q) = bitmap_ok st"
  by (simp_all add: bitmap_ok_def)

lemma page_byte_in_bitmap:
  assumes "bitmap_ok st" "unat p < unat (highest_page st)"
  shows "in_range (bitmap st + drop_bit 3 p) (bitmap st) (unat (bitmap_bytes st))"
proof -
  have lt: "unat (drop_bit 3 p) < unat (bitmap_bytes st)"
    using assms by (simp add: bitmap_ok_def unat_drop_3)
  then have "unat (bitmap st) + unat (drop_bit 3 p) < 2 ^ 64"
    using assms(1) by (simp add: bitmap_ok_def region_ok_def)
  then have "unat (bitmap st + drop_bit 3 p) = unat (bitmap st) + unat (drop_bit 3 p)"
    by (simp add: unat_word_ariths)
  with lt show ?thesis by (simp add: in_range_def)
qed

lemma bit_op_frame:
  assumes "bitmap_ok st" "unat q < unat (highest_page st)"
    and "\<not> in_range x (bitmap st) (unat (bitmap_bytes st))"
  shows "pmm_ram (bit_set st q) x = pmm_ram st x" "pmm_ram (bit_clear st q) x = pmm_ram st x"
  using page_byte_in_bitmap [OF assms(1,2)] assms(3) by (auto intro!: bit_op_ram)

lemma free_set_store:
  assumes "bitmap_ok st" "\<And>x. in_range x (bitmap st) (unat (bitmap_bytes st)) \<Longrightarrow> m x = pmm_ram st x"
  shows "free_set (st\<lparr>pmm_ram := m\<rparr>) = free_set st"
proof -
  have "bit_test (st\<lparr>pmm_ram := m\<rparr>) (of_nat n) = bit_test st (of_nat n)"
    if "n < unat (highest_page st)" for n
  proof -
    have "unat (of_nat n :: u64) = n" using that unat_u64_less [of "highest_page st"] by (simp add: unat_of_nat)
    then have "unat (of_nat n :: u64) < unat (highest_page st)" using that by simp
    from page_byte_in_bitmap [OF assms(1) this] assms(2) show ?thesis
      by (simp add: bit_test_def bitmap_byte_def)
  qed
  then show ?thesis by (auto simp: free_set_def)
qed

subsection \<open>The next-fit scan\<close>

lemma full_byte_allocated:
  assumes "p AND 7 = 0" "bitmap_byte st (drop_bit 3 p) = 0xFF" "unat p + j < 2 ^ 64" "j < 8"
  shows "bit_test st (p + of_nat j)"
proof -
  have u: "unat (p + of_nat j) = unat p + j" using assms(3) by (rule unat_add_of_nat)
  have p8: "unat p mod 8 = 0" using assms(1) unat_and_7 [of p] by simp
  then obtain q where q: "unat p = 8 * q" by auto
  have "(8 * q + j) div 8 = q" using assms(4) by presburger
  then have "unat (drop_bit 3 (p + of_nat j)) = unat (drop_bit 3 p)"
    using u q by (simp add: unat_drop_3)
  then have d: "drop_bit 3 (p + of_nat j) = drop_bit 3 p" by (simp add: word_unat_eq_iff)
  have "(0xFF :: u8) = -1" by simp
  then have "bit (0xFF :: u8) (unat (p + of_nat j) mod 8)" by (simp only: bit_minus_1_iff) simp
  then show ?thesis using assms(2) d by (simp add: bit_test_iff)
qed

definition window_free :: "pmm_state \<Rightarrow> nat \<Rightarrow> nat \<Rightarrow> bool" where
  "window_free st c n \<longleftrightarrow> (\<exists>k<n. (c + k) mod unat (highest_page st) \<in> free_set st)"

lemma window_free_split: "window_free st c n \<Longrightarrow> \<not> window_free st c m \<Longrightarrow>
    window_free st ((c + m) mod unat (highest_page st)) (n - m)"
proof -
  assume "window_free st c n" "\<not> window_free st c m"
  then obtain k where k: "k < n" "m \<le> k" "(c + k) mod unat (highest_page st) \<in> free_set st"
    by (auto simp: window_free_def not_less [symmetric])
  have "((c + m) mod unat (highest_page st) + (k - m)) mod unat (highest_page st) =
      ((c + m) + (k - m)) mod unat (highest_page st)" by (rule mod_add_left_eq)
  also have "(c + m) + (k - m) = c + k" using k(2) by simp
  finally show ?thesis
    using k unfolding window_free_def by (intro exI [of _ "k - m"]) simp
qed

definition took_page :: "pmm_state \<Rightarrow> nat \<Rightarrow> u64 \<Rightarrow> pmm_state" where
  "took_page st n c = (let st1 = bit_set (st\<lparr>cursor := c\<rparr>) (of_nat n) in
     st1\<lparr>free_pages := free_pages st1 - 1\<rparr>)"

lemma full_byte_window:
  assumes "p AND 7 = 0" and "bitmap_byte st (drop_bit 3 p) = 0xFF"
    and "unat p < unat (highest_page st)" and "\<forall>n\<in>free_set st. 256 \<le> n"
  shows "\<not> window_free st (unat p) 8"
proof -
  let ?H = "highest_page st"
  have "(unat p + k) mod unat ?H \<notin> free_set st" if k: "k < 8" for k
  proof (cases "unat p + k < unat ?H")
    case True
    have "bit_test st (p + of_nat k)"
      using assms(1,2) True k unat_u64_less [of ?H] by (intro full_byte_allocated) auto
    then have "bit_test st (of_nat (unat p + k))" by simp
    then show ?thesis using True by (simp add: free_set_def)
  next
    case False
    then have "(unat p + k) mod unat ?H = (unat p + k - unat ?H) mod unat ?H"
      by (simp add: le_mod_geq)
    also have "\<dots> \<le> unat p + k - unat ?H" by (rule mod_less_eq_dividend)
    also have "\<dots> < 256" using k assms(3) by simp
    finally have "(unat p + k) mod unat ?H < 256" .
    then show ?thesis using assms(4) by (meson not_less)
  qed
  then show ?thesis by (simp add: window_free_def)
qed

lemma pmm_scan_unfold:
  assumes "s < highest_page st"
  shows "pmm_scan st s =
    (if cursor st AND 7 = 0 \<and> bitmap_byte st (drop_bit 3 (cursor st)) = 0xFF
     then pmm_scan (st\<lparr>cursor := (cursor st + 8) mod highest_page st\<rparr>) (s + 8)
     else if \<not> bit_test st (cursor st)
     then Some (took_page st (unat (cursor st)) ((cursor st + 1) mod highest_page st), cursor st * PAGE_SIZE)
     else pmm_scan (st\<lparr>cursor := (cursor st + 1) mod highest_page st\<rparr>) (s + 1))"
  using assms by (subst pmm_scan.simps) (simp add: Let_def took_page_def bitmap_byte_def add.assoc)

lemma pmm_scan_result:
  assumes "bitmap_ok st" "unat (cursor st) < unat (highest_page st)" "\<forall>n\<in>free_set st. 256 \<le> n"
  shows "\<exists>c. unat c < unat (highest_page st) \<and>
    (pmm_scan st s = Some (st\<lparr>cursor := c\<rparr>, 0) \<and>
       \<not> window_free st (unat (cursor st)) (unat (highest_page st) - unat s) \<or>
     (\<exists>n\<in>free_set st. pmm_scan st s = Some (took_page st n c, of_nat n * PAGE_SIZE)))"
  using assms
proof (induction "unat (highest_page st) - unat s" arbitrary: st s rule: less_induct)
  case less
  let ?H = "highest_page st" and ?p = "cursor st"
  have H: "unat ?H \<le> 2 ^ 52" using less.prems(1) by (simp add: bitmap_ok_def)
  have step_mod: "unat ((?p + of_nat d) mod ?H) = (unat ?p + d) mod unat ?H" if "d \<le> 8" for d
  proof -
    have "unat ?p + d < 2 ^ 64" using H less.prems(2) that by simp
    then have "unat (?p + of_nat d) = unat ?p + d" by (rule unat_add_of_nat)
    then show ?thesis by (simp only: unat_mod_distrib)
  qed
  show ?case
  proof (cases "s < ?H")
    case False
    then show ?thesis
      using less.prems by (intro exI [of _ ?p], subst pmm_scan.simps)
        (simp add: window_free_def word_less_nat_alt)
  next
    case True
    have s: "unat s < unat ?H" using True by (simp add: word_less_nat_alt)
    have advance: ?thesis
      if d: "d = 1 \<or> d = 8" and none: "\<not> window_free st (unat ?p) d"
        and eq: "pmm_scan st s = pmm_scan (st\<lparr>cursor := (?p + of_nat d) mod ?H\<rparr>) (s + of_nat d)" for d
    proof -
      let ?st = "st\<lparr>cursor := (?p + of_nat d) mod ?H\<rparr>"
      have us: "unat (s + of_nat d) = unat s + d" using d s H by (intro unat_add_of_nat) auto
      have uc: "unat ((?p + of_nat d) mod ?H) = (unat ?p + d) mod unat ?H"
        using d by (intro step_mod) auto
      have pos: "0 < unat ?H" using s by simp
      have "unat (highest_page ?st) - unat (s + of_nat d) < unat ?H - unat s"
        using us s d by auto
      from less.hyps [OF this] less.prems uc pos obtain c where c: "unat c < unat ?H"
        "pmm_scan ?st (s + of_nat d) = Some (?st\<lparr>cursor := c\<rparr>, 0) \<and>
           \<not> window_free ?st (unat (cursor ?st)) (unat ?H - unat (s + of_nat d)) \<or>
         (\<exists>n\<in>free_set ?st. pmm_scan ?st (s + of_nat d) = Some (took_page ?st n c, of_nat n * PAGE_SIZE))"
        by auto
      have "window_free ?st (unat (cursor ?st)) (unat ?H - unat (s + of_nat d))"
        if "window_free st (unat ?p) (unat ?H - unat s)"
        using window_free_split [OF that none] us uc by (simp add: window_free_def diff_diff_eq)
      with c eq show ?thesis by (intro exI [of _ c]) (auto simp: took_page_def Let_def)
    qed
    note unfold = pmm_scan_unfold [OF True]
    consider (skip) "?p AND 7 = 0" "bitmap_byte st (drop_bit 3 ?p) = 0xFF"
      | (found) "\<not> (?p AND 7 = 0 \<and> bitmap_byte st (drop_bit 3 ?p) = 0xFF)" "\<not> bit_test st ?p"
      | (taken) "\<not> (?p AND 7 = 0 \<and> bitmap_byte st (drop_bit 3 ?p) = 0xFF)" "bit_test st ?p"
      by blast
    then show ?thesis
    proof cases
      case skip
      then have "\<not> window_free st (unat ?p) 8" using full_byte_window less.prems(2,3) by blast
      then show ?thesis using advance [of 8] skip unfold by simp
    next
      case found
      then have "unat ?p \<in> free_set st" using less.prems(2) by (simp add: free_set_def)
      moreover have "unat ((?p + 1) mod ?H) < unat ?H" using step_mod [of 1] s by simp
      ultimately show ?thesis using found unfold by (intro exI [of _ "(?p + 1) mod ?H"]) auto
    next
      case taken
      then have "\<not> window_free st (unat ?p) 1"
        using less.prems(2) by (auto simp: window_free_def free_set_def)
      moreover have "pmm_scan st s = pmm_scan (st\<lparr>cursor := (?p + of_nat 1) mod ?H\<rparr>) (s + of_nat 1)"
        using taken by (auto simp: unfold)
      ultimately show ?thesis by (intro advance [of 1]) simp_all
    qed
  qed
qed

lemma window_all:
  assumes "n \<in> free_set st" "c < unat (highest_page st)"
  shows "window_free st c (unat (highest_page st))"
proof -
  let ?H = "unat (highest_page st)"
  have n: "n < ?H" using assms(1) by (simp add: free_set_def)
  show ?thesis
  proof (cases "c \<le> n")
    case True
    with n assms show ?thesis unfolding window_free_def by (intro exI [of _ "n - c"]) simp
  next
    case False
    then have "c + (n + ?H - c) = n + ?H" using assms(2) by simp
    with n assms False show ?thesis
      unfolding window_free_def by (intro exI [of _ "n + ?H - c"]) simp
  qed
qed

subsection \<open>The allocator's invariant\<close>

definition page_off_bitmap :: "pmm_state \<Rightarrow> nat \<Rightarrow> bool" where
  "page_off_bitmap st n \<longleftrightarrow> (n + 1) * 4096 \<le> unat (bitmap st) \<or>
     unat (bitmap st) + unat (bitmap_bytes st) \<le> n * 4096"

definition pmm_inv :: "nat set \<Rightarrow> pmm_state \<Rightarrow> bool" where
  "pmm_inv managed st \<longleftrightarrow> bitmap_ok st \<and> unat (cursor st) < unat (highest_page st) \<and>
     unat (free_pages st) = card (free_set st) \<and> free_set st \<subseteq> managed \<and>
     (\<forall>n\<in>managed. 256 \<le> n \<and> n < unat (highest_page st) \<and> page_off_bitmap st n)"

lemma page_addr:
  assumes "pmm_inv managed st" "n \<in> managed"
  shows "unat (of_nat n * PAGE_SIZE) = n * 4096" and "n * 4096 + 4096 \<le> 2 ^ 64"
    and "of_nat n * PAGE_SIZE \<noteq> 0"
proof -
  have n: "256 \<le> n" "n < 2 ^ 52" using assms by (auto simp: pmm_inv_def bitmap_ok_def)
  then have "Suc n * 4096 \<le> 2 ^ 52 * 4096" by (intro mult_le_mono1) simp
  then show b: "n * 4096 + 4096 \<le> 2 ^ 64" by simp
  have "unat (of_nat (n * 4096) :: u64) = n * 4096" using b by (simp add: unat_of_nat del: of_nat_mult)
  then show u: "unat (of_nat n * PAGE_SIZE) = n * 4096" by (simp add: PAGE_SIZE_def)
  show "of_nat n * PAGE_SIZE \<noteq> 0"
  proof
    assume "of_nat n * PAGE_SIZE = 0"
    then have "unat (of_nat n * PAGE_SIZE) = 0" by simp
    with u n show False by simp
  qed
qed

lemma pmm_alloc_page_spec:
  assumes inv: "pmm_inv managed st"
  shows "if free_set st = {}
    then \<exists>st'. pmm_alloc_page st = Some (st', 0) \<and> pmm_inv managed st' \<and> free_set st' = {} \<and>
      pmm_ram st' = pmm_ram st
    else \<exists>st' n. pmm_alloc_page st = Some (st', of_nat n * PAGE_SIZE) \<and> n \<in> free_set st \<and>
      pmm_inv managed st' \<and> free_set st' = free_set st - {n} \<and>
      (\<forall>x. \<not> in_range x (bitmap st) (unat (bitmap_bytes st)) \<longrightarrow> pmm_ram st' x = pmm_ram st x)"
proof -
  have I: "bitmap_ok st" "unat (cursor st) < unat (highest_page st)" "\<forall>n\<in>free_set st. 256 \<le> n"
    using inv by (auto simp: pmm_inv_def)
  obtain c where c: "unat c < unat (highest_page st)"
    "pmm_alloc_page st = Some (st\<lparr>cursor := c\<rparr>, 0) \<and>
       \<not> window_free st (unat (cursor st)) (unat (highest_page st)) \<or>
     (\<exists>n\<in>free_set st. pmm_alloc_page st = Some (took_page st n c, of_nat n * PAGE_SIZE))"
    using pmm_scan_result [OF I, of 0] by (auto simp: pmm_alloc_page_def)
  show ?thesis
  proof (cases "free_set st = {}")
    case True
    with c(2) have "pmm_alloc_page st = Some (st\<lparr>cursor := c\<rparr>, 0)" by auto
    moreover have "pmm_inv managed (st\<lparr>cursor := c\<rparr>)"
      using inv c(1) by (simp add: pmm_inv_def page_off_bitmap_def)
    ultimately show ?thesis using True by auto
  next
    case False
    then have "\<exists>n\<in>free_set st. pmm_alloc_page st = Some (took_page st n c, of_nat n * PAGE_SIZE)"
      using c(2) window_all [OF _ I(2)] by auto
    then obtain n where n: "n \<in> free_set st"
      "pmm_alloc_page st = Some (took_page st n c, of_nat n * PAGE_SIZE)" by blast
    have nH: "n < unat (highest_page st)" using n(1) by (simp add: free_set_def)
    have u: "unat (of_nat n :: u64) = n" using unat_of_nat_page [OF nH] .
    let ?st = "took_page st n c"
    have fs: "free_set ?st = free_set st - {n}"
      using nH u by (simp add: took_page_def Let_def free_set_bit_set)
    have "0 < card (free_set st)" using n(1) by (auto simp: card_gt_0_iff)
    then have "free_pages st \<noteq> 0" using inv by (auto simp: pmm_inv_def)
    then have "unat (free_pages st - 1) = card (free_set st - {n})"
      using inv n(1) by (simp add: pmm_inv_def unat_minus_one card_Diff_singleton)
    then have "pmm_inv managed ?st"
      using inv c(1) fs by (auto simp: pmm_inv_def took_page_def Let_def page_off_bitmap_def)
    moreover have "pmm_ram ?st x = pmm_ram st x"
      if "\<not> in_range x (bitmap st) (unat (bitmap_bytes st))" for x
      using bit_op_frame(1) [of "st\<lparr>cursor := c\<rparr>" "of_nat n" x] I(1) nH u that
      by (simp add: took_page_def Let_def)
    ultimately show ?thesis using False n fs by auto
  qed
qed

lemma pmm_free_page_cases:
  assumes "bitmap_ok st"
  shows "pmm_free_page st addr =
    (if unat addr mod 4096 \<noteq> 0 then Inl (Panic_free_unaligned addr)
     else if unat (highest_page st) \<le> unat addr div 4096 then Inl (Panic_free_out_of_range addr)
     else if unat addr div 4096 \<in> free_set st then Inl (Panic_double_free addr)
     else let st1 = bit_clear st (addr div PAGE_SIZE) in Inr (st1\<lparr>free_pages := free_pages st1 + 1\<rparr>))"
proof -
  have d: "unat (addr div PAGE_SIZE) = unat addr div 4096" by (simp add: PAGE_SIZE_def unat_div_distrib)
  have "addr AND (PAGE_SIZE - 1) = 0 \<longleftrightarrow> unat addr mod 4096 = 0"
    by (simp add: PAGE_SIZE_def word_unat_eq_iff unat_and_4095)
  moreover have "unat addr div 4096 \<in> free_set st \<longleftrightarrow> \<not> bit_test st (addr div PAGE_SIZE)"
    if "unat addr div 4096 < unat (highest_page st)"
    using free_set_iff [of "addr div PAGE_SIZE" st] that d by simp
  ultimately show ?thesis
    using d by (auto simp: pmm_free_page_def Let_def word_le_nat_alt)
qed

lemma pmm_free_page_spec:
  assumes inv: "pmm_inv managed st" and n: "n \<in> managed" "n \<notin> free_set st"
  shows "\<exists>st'. pmm_free_page st (of_nat n * PAGE_SIZE) = Inr st' \<and> pmm_inv managed st' \<and>
    free_set st' = insert n (free_set st) \<and>
    (\<forall>x. \<not> in_range x (bitmap st) (unat (bitmap_bytes st)) \<longrightarrow> pmm_ram st' x = pmm_ram st x)"
proof -
  let ?a = "of_nat n * PAGE_SIZE" and ?p = "of_nat n * PAGE_SIZE div PAGE_SIZE"
  note A = page_addr [OF inv n(1)]
  have ok: "bitmap_ok st" and nH: "n < unat (highest_page st)" using inv n(1) by (auto simp: pmm_inv_def)
  have up: "unat ?p = n" using A(1) by (simp add: PAGE_SIZE_def unat_div_distrib)
  let ?st = "(bit_clear st ?p)\<lparr>free_pages := free_pages st + 1\<rparr>"
  have eq: "pmm_free_page st ?a = Inr ?st"
    using A(1) nH n(2) by (simp add: pmm_free_page_cases [OF ok] Let_def)
  have fs: "free_set ?st = insert n (free_set st)"
    using nH up free_set_bit_clear [of ?p st] by simp
  have "card (free_set ?st) \<le> card {..<unat (highest_page st)}"
    by (rule card_mono) (auto simp: free_set_def)
  then have "Suc (card (free_set st)) \<le> 2 ^ 52"
    using fs n(2) ok by (simp add: bitmap_ok_def)
  then have "unat (free_pages st + 1) = Suc (card (free_set st))"
    using inv by (simp add: pmm_inv_def unat_word_ariths)
  then have "pmm_inv managed ?st"
    using inv fs n by (auto simp: pmm_inv_def page_off_bitmap_def)
  moreover have "pmm_ram ?st x = pmm_ram st x"
    if "\<not> in_range x (bitmap st) (unat (bitmap_bytes st))" for x
    using bit_op_frame(2) [OF ok _ that, of ?p] nH up by simp
  ultimately show ?thesis using eq fs by blast
qed

subsection \<open>The interface a client of the allocator relies on\<close>

definition page :: "nat \<Rightarrow> u64" where
  "page n = of_nat n * PAGE_SIZE"

text \<open>The client owns the pages \<open>ps\<close>: they are managed, distinct and not available.\<close>

definition owns :: "('s \<Rightarrow> bool) \<Rightarrow> ('s \<Rightarrow> nat set) \<Rightarrow> nat set \<Rightarrow> 's \<Rightarrow> nat list \<Rightarrow> bool" where
  "owns ok avail managed s ps \<longleftrightarrow>
     ok s \<and> distinct ps \<and> set ps \<subseteq> managed \<and> set ps \<inter> avail s = {}"

locale page_allocator =
  fixes alloc :: "'s \<Rightarrow> ('s \<times> u64) option"
    and release :: "'s \<Rightarrow> u64 \<Rightarrow> 'e + 's"
    and poke :: "'s \<Rightarrow> u64 \<Rightarrow> u64 \<Rightarrow> 's"
    and peek :: "'s \<Rightarrow> u64 \<Rightarrow> u64"
    and inv :: "'s \<Rightarrow> bool"
    and avail :: "'s \<Rightarrow> nat set"
    and managed :: "nat set"
  assumes avail_managed: "inv s \<Longrightarrow> finite (avail s) \<and> avail s \<subseteq> managed"
    and alloc_empty: "inv s \<Longrightarrow> avail s = {} \<Longrightarrow>
      \<exists>s'. alloc s = Some (s', 0) \<and> inv s' \<and> avail s' = {}"
    and alloc_page: "inv s \<Longrightarrow> avail s \<noteq> {} \<Longrightarrow>
      \<exists>s' n. alloc s = Some (s', page n) \<and> n \<in> avail s \<and> inv s' \<and> avail s' = avail s - {n}"
    and release_page: "inv s \<Longrightarrow> n \<in> managed \<Longrightarrow> n \<notin> avail s \<Longrightarrow>
      \<exists>s'. release s (page n) = Inr s' \<and> inv s' \<and> avail s' = insert n (avail s)"
    and poke_page: "inv s \<Longrightarrow> n \<in> managed \<Longrightarrow>
      inv (poke s (page n) v) \<and> avail (poke s (page n) v) = avail s \<and>
      peek (poke s (page n) v) (page n) = v \<and>
      (\<forall>q\<in>managed. q \<noteq> n \<longrightarrow> peek (poke s (page n) v) (page q) = peek s (page q))"
    and page_distinct: "inv s \<Longrightarrow> n \<in> managed \<Longrightarrow> page n \<noteq> 0 \<and> (m \<in> managed \<longrightarrow> page n = page m \<longrightarrow> n = m)"
begin

lemma alloc_owns:
  assumes "owns inv avail managed s ps" "avail s \<noteq> {}"
  shows "\<exists>s' n. alloc s = Some (s', page n) \<and> page n \<noteq> 0 \<and> n \<in> avail s \<and>
    owns inv avail managed s' (ps @ [n]) \<and> avail s' = avail s - {n}"
proof -
  have inv: "inv s" using assms(1) by (simp add: owns_def)
  obtain s' n where n: "alloc s = Some (s', page n)" "n \<in> avail s" "inv s'" "avail s' = avail s - {n}"
    using alloc_page [OF inv assms(2)] by auto
  have "n \<in> managed" using avail_managed [OF inv] n(2) by auto
  with n assms(1) page_distinct [OF inv this] show ?thesis
    by (auto simp: owns_def)
qed

lemma release_owns:
  assumes "owns inv avail managed s (p # ps)"
  shows "\<exists>s'. release s (page p) = Inr s' \<and> owns inv avail managed s' ps \<and>
    avail s' = insert p (avail s)"
  using assms release_page [of s p] by (auto simp: owns_def)

lemma poke_owns:
  assumes "owns inv avail managed s ps" "p \<in> set ps"
  shows "owns inv avail managed (poke s (page p) v) ps" "avail (poke s (page p) v) = avail s"
    "peek (poke s (page p) v) (page p) = v"
    "q \<in> set ps \<Longrightarrow> q \<noteq> p \<Longrightarrow> peek (poke s (page p) v) (page q) = peek s (page q)"
  using assms poke_page [of s p v] by (auto simp: owns_def)

lemma owned_page_inj:
  assumes "owns inv avail managed s ps"
  shows "inj_on page (set ps)"
  using assms page_distinct [of s] by (auto simp: owns_def inj_on_def)

end

definition pmm_poke :: "pmm_state \<Rightarrow> u64 \<Rightarrow> u64 \<Rightarrow> pmm_state" where
  "pmm_poke st a v = st\<lparr>pmm_ram := store_u64 (pmm_ram st) a v\<rparr>"

definition pmm_peek :: "pmm_state \<Rightarrow> u64 \<Rightarrow> u64" where
  "pmm_peek st a = load_u64 (pmm_ram st) a"

lemma page_word_off_bitmap:
  assumes "pmm_inv managed st" "n \<in> managed" "in_range x (page n) 8"
  shows "\<not> in_range x (bitmap st) (unat (bitmap_bytes st))"
  using assms page_addr(1,2) [OF assms(1,2)]
  by (fastforce simp: pmm_inv_def page_off_bitmap_def in_range_def page_def)

lemma pmm_poke_spec:
  assumes inv: "pmm_inv managed st" and n: "n \<in> managed"
  shows "pmm_inv managed (pmm_poke st (page n) v) \<and> free_set (pmm_poke st (page n) v) = free_set st \<and>
    pmm_peek (pmm_poke st (page n) v) (page n) = v \<and>
    (\<forall>q\<in>managed. q \<noteq> n \<longrightarrow> pmm_peek (pmm_poke st (page n) v) (page q) = pmm_peek st (page q))"
proof -
  note A = page_addr [OF inv n, folded page_def]
  have reg: "region_ok (page n) 8" using A(1,2) by (simp add: region_ok_def)
  have same: "store_u64 (pmm_ram st) (page n) v x = pmm_ram st x"
    if "in_range x (bitmap st) (unat (bitmap_bytes st))" for x
    using store_u64_out [OF reg] page_word_off_bitmap [OF inv n] that by blast
  have ok: "bitmap_ok st" using inv by (simp add: pmm_inv_def)
  have fs: "free_set (pmm_poke st (page n) v) = free_set st"
    unfolding pmm_poke_def by (rule free_set_store [OF ok same])
  have "pmm_inv managed (pmm_poke st (page n) v)"
    using inv fs by (auto simp: pmm_inv_def pmm_poke_def bitmap_ok_def page_off_bitmap_def)
  moreover have "pmm_peek (pmm_poke st (page n) v) (page n) = v"
    using reg by (simp add: pmm_peek_def pmm_poke_def load_store_same)
  moreover have "pmm_peek (pmm_poke st (page n) v) (page q) = pmm_peek st (page q)"
    if q: "q \<in> managed" "q \<noteq> n" for q
  proof -
    note B = page_addr [OF inv q(1), folded page_def]
    have "ram_bytes (store_u64 (pmm_ram st) (page n) v) (page q) 8 = ram_bytes (pmm_ram st) (page q) 8"
    proof (rule ram_bytes_cong)
      fix x assume x: "in_range x (page q) 8"
      have "\<not> in_range x (page n) 8"
        using x A(1) B(1) q(2) by (auto simp: in_range_def)
      then show "store_u64 (pmm_ram st) (page n) v x = pmm_ram st x" by (rule store_u64_out [OF reg])
    qed (use B in \<open>simp add: region_ok_def\<close>)
    then show ?thesis by (simp add: pmm_peek_def pmm_poke_def load_u64_def)
  qed
  ultimately show ?thesis using fs by blast
qed

lemma page_inj_managed:
  assumes "pmm_inv managed st" "n \<in> managed"
  shows "page n \<noteq> 0 \<and> (m \<in> managed \<longrightarrow> page n = page m \<longrightarrow> n = m)"
proof (intro conjI impI)
  show "page n \<noteq> 0" using page_addr(3) [OF assms] by (simp add: page_def)
  assume m: "m \<in> managed" "page n = page m"
  then have "unat (page n) = unat (page m)" by simp
  then show "n = m"
    using page_addr(1) [OF assms] page_addr(1) [OF assms(1) m(1)] by (simp add: page_def)
qed

interpretation pmm: page_allocator pmm_alloc_page pmm_free_page pmm_poke pmm_peek
    "pmm_inv managed" free_set managed for managed
proof unfold_locales
  fix s assume inv: "pmm_inv managed s"
  then show "finite (free_set s) \<and> free_set s \<subseteq> managed" by (auto simp: pmm_inv_def)
  show "\<exists>s'. pmm_alloc_page s = Some (s', 0) \<and> pmm_inv managed s' \<and> free_set s' = {}"
    if "free_set s = {}"
    using pmm_alloc_page_spec [OF inv] that by auto
  show "\<exists>s' n. pmm_alloc_page s = Some (s', page n) \<and> n \<in> free_set s \<and> pmm_inv managed s' \<and>
      free_set s' = free_set s - {n}" if "free_set s \<noteq> {}"
    using pmm_alloc_page_spec [OF inv] that unfolding page_def by (simp, blast)
  fix n assume n: "n \<in> managed"
  show "\<exists>s'. pmm_free_page s (page n) = Inr s' \<and> pmm_inv managed s' \<and> free_set s' = insert n (free_set s)"
    if "n \<notin> free_set s"
    using pmm_free_page_spec [OF inv n that] unfolding page_def by blast
  show "pmm_inv managed (pmm_poke s (page n) v) \<and> free_set (pmm_poke s (page n) v) = free_set s \<and>
      pmm_peek (pmm_poke s (page n) v) (page n) = v \<and>
      (\<forall>q\<in>managed. q \<noteq> n \<longrightarrow> pmm_peek (pmm_poke s (page n) v) (page q) = pmm_peek s (page q))" for v
    by (rule pmm_poke_spec [OF inv n])
  show "page n \<noteq> 0 \<and> (m \<in> managed \<longrightarrow> page n = page m \<longrightarrow> n = m)" for m
    by (rule page_inj_managed [OF inv n])
qed

subsection \<open>The self-test\<close>

abbreviation pmm_owns :: "nat set \<Rightarrow> pmm_state \<Rightarrow> nat list \<Rightarrow> bool" where
  "pmm_owns managed \<equiv> owns (pmm_inv managed) free_set managed"

lemma st_alloc_enough:
  "pmm_owns managed st ps \<Longrightarrow> n \<le> card (free_set st) \<Longrightarrow>
   \<exists>st' qs. st_alloc st (map page ps) n = Some (st', Inr (map page (ps @ qs))) \<and>
     pmm_owns managed st' (ps @ qs) \<and> free_set st' \<union> set qs = free_set st \<and> length qs = n"
proof (induction n arbitrary: st ps)
  case (Suc n)
  then have "free_set st \<noteq> {}" by auto
  from pmm.alloc_owns [OF Suc.prems(1) this] obtain st1 p where
    p: "pmm_alloc_page st = Some (st1, page p)" "page p \<noteq> 0" "p \<in> free_set st"
      "pmm_owns managed st1 (ps @ [p])" "free_set st1 = free_set st - {p}" by blast
  have "n \<le> card (free_set st1)" using Suc.prems(2) p(3,5) by (simp add: card_Diff_singleton)
  from Suc.IH [OF p(4) this] obtain st' qs where
    "st_alloc st1 (map page (ps @ [p])) n = Some (st', Inr (map page ((ps @ [p]) @ qs)))"
    "pmm_owns managed st' ((ps @ [p]) @ qs)" "free_set st' \<union> set qs = free_set st1" "length qs = n"
    by blast
  then show ?case using p by (intro exI [of _ st'] exI [of _ "p # qs"]) auto
qed auto

lemma st_alloc_exhausted:
  "pmm_owns managed st ps \<Longrightarrow> card (free_set st) < n \<Longrightarrow>
   \<exists>st'. st_alloc st (map page ps) n = Some (st', Inl (length ps + card (free_set st)))"
proof (induction n arbitrary: st ps)
  case (Suc n)
  show ?case
  proof (cases "free_set st = {}")
    case True
    then show ?thesis
      using pmm.alloc_empty [of managed st] Suc.prems(1) by (auto simp: owns_def)
  next
    case False
    from pmm.alloc_owns [OF Suc.prems(1) this] obtain st1 p where
      p: "pmm_alloc_page st = Some (st1, page p)" "page p \<noteq> 0" "p \<in> free_set st"
        "pmm_owns managed st1 (ps @ [p])" "free_set st1 = free_set st - {p}" by blast
    have pos: "0 < card (free_set st)" using p(3) by (auto simp: card_gt_0_iff)
    have c: "Suc (card (free_set st1)) = card (free_set st)"
      using p(3,5) pos by (simp add: card_Diff_singleton)
    then have "card (free_set st1) < n" using Suc.prems(2) by simp
    from Suc.IH [OF p(4) this] p(1,2) c show ?thesis by auto
  qed
qed simp

lemma st_write_ok:
  assumes "pmm_owns managed st (held @ ps)"
  shows "\<exists>st'. st_write st (map page ps) = (st', None) \<and> pmm_owns managed st' (held @ ps) \<and>
    free_set st' = free_set st \<and> (\<forall>p\<in>set ps. pmm_peek st' (page p) = st_pattern (page p)) \<and>
    (\<forall>p\<in>set held. pmm_peek st' (page p) = pmm_peek st (page p))"
  using assms
proof (induction ps arbitrary: st "held")
  case (Cons p ps)
  let ?st = "pmm_poke st (page p) (st_pattern (page p))"
  have P: "pmm_owns managed ?st (held @ p # ps)" "free_set ?st = free_set st"
    "pmm_peek ?st (page p) = st_pattern (page p)"
    using pmm.poke_owns(1-3) [OF Cons.prems, of p "st_pattern (page p)"] by simp_all
  have K: "pmm_peek ?st (page q) = pmm_peek st (page q)" if "q \<in> set held" for q
    using pmm.poke_owns(4) [OF Cons.prems, of p q "st_pattern (page p)"] that Cons.prems
    by (auto simp: owns_def)
  have "page p \<notin> page ` set ps"
    using pmm.owned_page_inj [OF Cons.prems] Cons.prems by (auto simp: owns_def inj_on_def)
  moreover obtain st' where "st_write ?st (map page ps) = (st', None)"
    "pmm_owns managed st' ((held @ [p]) @ ps)" "free_set st' = free_set ?st"
    "\<forall>p\<in>set ps. pmm_peek st' (page p) = st_pattern (page p)"
    "\<forall>q\<in>set (held @ [p]). pmm_peek st' (page q) = pmm_peek ?st (page q)"
    using Cons.IH [of ?st "held @ [p]"] P(1) by auto
  ultimately show ?case using P K by (auto simp: pmm_poke_def [symmetric])
qed auto

lemma st_release_ok:
  "pmm_owns managed st ps \<Longrightarrow> \<exists>st'. st_release st (map page ps) = Inr st' \<and> pmm_owns managed st' [] \<and>
    free_set st' = free_set st \<union> set ps"
proof (induction ps arbitrary: st)
  case (Cons p ps)
  from pmm.release_owns [OF Cons.prems] obtain st1 where
    1: "pmm_free_page st (page p) = Inr st1" "pmm_owns managed st1 ps"
       "free_set st1 = insert p (free_set st)" by blast
  from Cons.IH [OF 1(2)] 1 show ?case by auto
qed simp

lemma pmm_selftest_ok_aux:
  assumes inv: "pmm_inv managed st" and n: "ST_PAGES \<le> card (free_set st)"
  shows "\<exists>st'. pmm_selftest st = Some (Inr (st', Selftest_ok)) \<and> pmm_inv managed st' \<and>
    free_set st' = free_set st"
proof -
  have own: "pmm_owns managed st []" using inv by (simp add: owns_def)
  from st_alloc_enough [OF own n] obtain st1 ps where
    1: "st_alloc st [] ST_PAGES = Some (st1, Inr (map page ps))" "pmm_owns managed st1 ([] @ ps)"
       "free_set st1 \<union> set ps = free_set st" by auto
  from st_write_ok [OF 1(2)] obtain st2 where
    2: "st_write st1 (map page ps) = (st2, None)" "pmm_owns managed st2 ps"
       "free_set st2 = free_set st1" "\<forall>p\<in>set ps. pmm_peek st2 (page p) = st_pattern (page p)" by auto
  have 3: "st_check st2 (map page ps) = None"
    using 2(4) by (auto simp: st_check_def find_None_iff pmm_peek_def)
  from st_release_ok [OF 2(2)] obtain st3 where
    4: "st_release st2 (map page ps) = Inr st3" "pmm_owns managed st3 []"
       "free_set st3 = free_set st2 \<union> set ps" by blast
  have inv3: "pmm_inv managed st3" using 4(2) by (simp add: owns_def)
  moreover have fs: "free_set st3 = free_set st" using 4(3) 2(3) 1(3) by simp
  ultimately have "free_pages st3 = free_pages st"
    using inv by (simp add: pmm_inv_def word_unat_eq_iff)
  with 1(1) 2(1) 3 4(1) inv3 fs show ?thesis by (simp add: pmm_selftest_def)
qed

lemma pmm_selftest_exhausted_aux:
  assumes inv: "pmm_inv managed st" and n: "card (free_set st) < ST_PAGES"
  shows "\<exists>st'. pmm_selftest st = Some (Inr (st', Selftest_exhausted (card (free_set st))))"
proof -
  have own: "pmm_owns managed st []" using inv by (simp add: owns_def)
  from st_alloc_exhausted [OF own n] show ?thesis by (auto simp: pmm_selftest_def)
qed

subsection \<open>The loops of initialisation\<close>

text \<open>What the bitmap loops leave alone: the configuration and every byte outside the bitmap.\<close>

definition bm_frame :: "pmm_state \<Rightarrow> pmm_state \<Rightarrow> bool" where
  "bm_frame st st' \<longleftrightarrow> bitmap st' = bitmap st \<and> bitmap_bytes st' = bitmap_bytes st \<and>
     highest_page st' = highest_page st \<and> usable_bytes st' = usable_bytes st \<and>
     reserved_bytes st' = reserved_bytes st \<and> mmio_bytes st' = mmio_bytes st \<and>
     usable_pages st' = usable_pages st \<and>
     (\<forall>x. \<not> in_range x (bitmap st) (unat (bitmap_bytes st)) \<longrightarrow> pmm_ram st' x = pmm_ram st x)"

lemma bm_frame_refl [simp]: "bm_frame st st"
  by (simp add: bm_frame_def)

lemma bm_frame_trans: "bm_frame st st1 \<Longrightarrow> bm_frame st1 st2 \<Longrightarrow> bm_frame st st2"
  by (auto simp: bm_frame_def)

lemma bm_frame_ok: "bm_frame st st' \<Longrightarrow> bitmap_ok st' \<longleftrightarrow> bitmap_ok st"
  by (auto simp: bm_frame_def bitmap_ok_def)

lemma bm_frame_bit_op:
  assumes "bitmap_ok st" "unat p < unat (highest_page st)"
  shows "bm_frame st ((bit_set st p)\<lparr>free_pages := f\<rparr>)" "bm_frame st ((bit_clear st p)\<lparr>free_pages := f\<rparr>)"
  using bit_op_frame [OF assms]
  by (auto simp: bm_frame_def bit_set_def bit_clear_def set_bitmap_byte_def)

lemma fill_bitmap_byte:
  assumes "i + n \<le> unat (bitmap_bytes st)" "region_ok (bitmap st) (unat (bitmap_bytes st))"
  shows "bm_frame st (pmm_fill_bitmap st (of_nat i) n) \<and>
    (\<forall>j. unat j < unat (bitmap_bytes st) \<longrightarrow> bitmap_byte (pmm_fill_bitmap st (of_nat i) n) j =
      (if i \<le> unat j \<and> unat j < i + n then 0xFF else bitmap_byte st j)) \<and>
    free_pages (pmm_fill_bitmap st (of_nat i) n) = free_pages st"
  using assms
proof (induction n arbitrary: st i)
  case (Suc n)
  let ?st = "set_bitmap_byte st (of_nat i) 0xFF"
  have i: "i < unat (bitmap_bytes st)" using Suc.prems(1) by simp
  then have ui: "unat (of_nat i :: u64) = i" by (rule unat_of_nat_page)
  have ua: "unat (bitmap st + of_nat i) = unat (bitmap st) + i"
    using Suc.prems(2) i by (intro unat_add_of_nat) (simp add: region_ok_def)
  have fr: "bm_frame st ?st"
    using ua i by (auto simp: bm_frame_def set_bitmap_byte_def in_range_def)
  have suc: "of_nat i + 1 = (of_nat (Suc i) :: u64)" by simp
  have IH: "bm_frame ?st (pmm_fill_bitmap ?st (of_nat (Suc i)) n) \<and>
    (\<forall>j. unat j < unat (bitmap_bytes ?st) \<longrightarrow> bitmap_byte (pmm_fill_bitmap ?st (of_nat (Suc i)) n) j =
      (if Suc i \<le> unat j \<and> unat j < Suc i + n then 0xFF else bitmap_byte ?st j)) \<and>
    free_pages (pmm_fill_bitmap ?st (of_nat (Suc i)) n) = free_pages ?st"
    by (rule Suc.IH) (use Suc.prems in \<open>simp_all add: set_bitmap_byte_def\<close>)
  have eq: "pmm_fill_bitmap st (of_nat i) (Suc n) = pmm_fill_bitmap ?st (of_nat (Suc i)) n"
    by (simp add: add.commute)
  have b: "bitmap_byte ?st j = (if unat j = i then 0xFF else bitmap_byte st j)" for j
    using ui by (auto simp: bitmap_byte_set word_unat_eq_iff)
  show ?case
    unfolding eq using IH fr b
    by (auto simp: set_bitmap_byte_def intro: bm_frame_trans)
qed auto

lemma fill_bitmap_free_set:
  assumes "bitmap_ok st"
  shows "free_set (pmm_fill_bitmap st 0 (unat (bitmap_bytes st))) = {}"
proof -
  let ?st = "pmm_fill_bitmap st 0 (unat (bitmap_bytes st))"
  have f: "bm_frame st ?st" "\<And>j. unat j < unat (bitmap_bytes st) \<Longrightarrow> bitmap_byte ?st j = 0xFF"
    using fill_bitmap_byte [of 0 "unat (bitmap_bytes st)" st] assms by (auto simp: bitmap_ok_def)
  have "bit_test ?st (of_nat n)" if "n < unat (highest_page ?st)" for n
  proof -
    have n: "n < unat (highest_page st)" using that f(1) by (simp add: bm_frame_def)
    then have "unat (drop_bit 3 (of_nat n :: u64)) < unat (bitmap_bytes st)"
      using assms unat_of_nat_page [OF n] by (simp add: bitmap_ok_def unat_drop_3)
    from f(2) [OF this] have "bitmap_byte ?st (drop_bit 3 (of_nat n)) = -1" by simp
    then show ?thesis by (simp add: bit_test_iff)
  qed
  then show ?thesis by (auto simp: free_set_def)
qed

definition counted :: "pmm_state \<Rightarrow> bool" where
  "counted st \<longleftrightarrow> bitmap_ok st \<and> unat (free_pages st) = card (free_set st)"

lemma card_free_set: "bitmap_ok st \<Longrightarrow> card (free_set st) \<le> 2 ^ 52"
proof -
  assume ok: "bitmap_ok st"
  have "card (free_set st) \<le> card {..<unat (highest_page st)}"
    by (rule card_mono) (auto simp: free_set_def)
  with ok show ?thesis by (simp add: bitmap_ok_def)
qed

lemma free_range_spec:
  assumes "counted st" "unat p + n \<le> unat (highest_page st)"
    "{unat p..<unat p + n} \<inter> free_set st = {}"
  shows "counted (pmm_free_range st p n) \<and> bm_frame st (pmm_free_range st p n) \<and>
    free_set (pmm_free_range st p n) = free_set st \<union> ({unat p..<unat p + n} - {0})"
  using assms
proof (induction n arbitrary: st p)
  case (Suc n)
  have ok: "bitmap_ok st" using Suc.prems(1) by (simp add: counted_def)
  then have H: "unat (highest_page st) \<le> 2 ^ 52" by (simp add: bitmap_ok_def)
  have p1: "unat (p + 1) = Suc (unat p)" using Suc.prems(2) H by (simp add: unat_word_ariths)
  have split: "{unat p..<unat p + Suc n} = insert (unat p) {Suc (unat p)..<Suc (unat p) + n}" by auto
  then have rest: "{Suc (unat p)..<Suc (unat p) + n} \<inter> free_set st = {}" using Suc.prems(3) by auto
  show ?case
  proof (cases "p = 0")
    case True
    then have "pmm_free_range st p (Suc n) = pmm_free_range st (p + 1) n" by simp
    moreover have "counted (pmm_free_range st (p + 1) n) \<and> bm_frame st (pmm_free_range st (p + 1) n) \<and>
        free_set (pmm_free_range st (p + 1) n) =
          free_set st \<union> ({unat (p + 1)..<unat (p + 1) + n} - {0})"
      using Suc.prems(1,2) p1 rest by (intro Suc.IH) simp_all
    ultimately show ?thesis using True p1 split by auto
  next
    case False
    let ?st = "(bit_clear st p)\<lparr>free_pages := free_pages st + 1\<rparr>"
    have pH: "unat p < unat (highest_page st)" using Suc.prems(2) by simp
    have fs: "free_set ?st = insert (unat p) (free_set st)" using free_set_bit_clear [OF pH] by simp
    have "unat (free_pages st + 1) = Suc (unat (free_pages st))"
      using card_free_set [OF ok] Suc.prems(1) by (simp add: counted_def unat_word_ariths)
    moreover have "unat p \<notin> free_set st" using Suc.prems(3) unfolding split by blast
    ultimately have c: "counted ?st" using Suc.prems(1) fs by (simp add: counted_def)
    have "counted (pmm_free_range ?st (p + 1) n) \<and> bm_frame ?st (pmm_free_range ?st (p + 1) n) \<and>
        free_set (pmm_free_range ?st (p + 1) n) =
          free_set ?st \<union> ({unat (p + 1)..<unat (p + 1) + n} - {0})"
      using Suc.prems(2) p1 fs c rest by (intro Suc.IH) simp_all
    moreover have "pmm_free_range st p (Suc n) = pmm_free_range ?st (p + 1) n"
      using False by (simp add: Let_def)
    moreover have "unat p \<noteq> 0" using False by (simp add: unat_eq_0)
    ultimately show ?thesis
      using p1 split fs bm_frame_bit_op(2) [OF ok pH] by (auto intro: bm_frame_trans)
  qed
qed simp

lemma reserve_range_spec:
  assumes "counted st" "unat p + n \<le> unat (highest_page st)"
  shows "counted (pmm_reserve_range st p n) \<and> bm_frame st (pmm_reserve_range st p n) \<and>
    free_set (pmm_reserve_range st p n) = free_set st - {unat p..<unat p + n}"
  using assms
proof (induction n arbitrary: st p)
  case (Suc n)
  have ok: "bitmap_ok st" using Suc.prems(1) by (simp add: counted_def)
  then have H: "unat (highest_page st) \<le> 2 ^ 52" by (simp add: bitmap_ok_def)
  have p1: "unat (p + 1) = Suc (unat p)" using Suc.prems(2) H by (simp add: unat_word_ariths)
  have split: "{unat p..<unat p + Suc n} = insert (unat p) {Suc (unat p)..<Suc (unat p) + n}" by auto
  have pH: "unat p < unat (highest_page st)" using Suc.prems(2) by simp
  show ?case
  proof (cases "bit_test st p")
    case True
    then have "unat p \<notin> free_set st" using free_set_iff [OF pH] by simp
    moreover have "pmm_reserve_range st p (Suc n) = pmm_reserve_range st (p + 1) n" using True by simp
    moreover have "counted (pmm_reserve_range st (p + 1) n) \<and> bm_frame st (pmm_reserve_range st (p + 1) n) \<and>
        free_set (pmm_reserve_range st (p + 1) n) = free_set st - {unat (p + 1)..<unat (p + 1) + n}"
      using Suc.prems p1 by (intro Suc.IH) auto
    ultimately show ?thesis using p1 split by auto
  next
    case False
    let ?st = "(bit_set st p)\<lparr>free_pages := free_pages st - 1\<rparr>"
    have mem: "unat p \<in> free_set st" using free_set_iff [OF pH] False by simp
    have fs: "free_set ?st = free_set st - {unat p}" using free_set_bit_set [OF pH] by simp
    have "0 < card (free_set st)" using mem by (auto simp: card_gt_0_iff)
    then have "free_pages st \<noteq> 0" using Suc.prems(1) by (auto simp: counted_def)
    then have "unat (free_pages st - 1) = card (free_set st - {unat p})"
      using Suc.prems(1) mem by (simp add: counted_def unat_minus_one card_Diff_singleton)
    then have c: "counted ?st" using Suc.prems(1) fs by (simp add: counted_def)
    have "counted (pmm_reserve_range ?st (p + 1) n) \<and> bm_frame ?st (pmm_reserve_range ?st (p + 1) n) \<and>
        free_set (pmm_reserve_range ?st (p + 1) n) = free_set ?st - {unat (p + 1)..<unat (p + 1) + n}"
      using Suc.prems p1 c by (intro Suc.IH) auto
    moreover have "pmm_reserve_range st p (Suc n) = pmm_reserve_range ?st (p + 1) n"
      using False by (simp add: Let_def)
    ultimately show ?thesis
      using p1 split fs bm_frame_bit_op(1) [OF ok pH] by (auto intro: bm_frame_trans)
  qed
qed simp

lemma extent_spec:
  assumes "pmm_extent m b i n mx us rs mm = (mx', us', rs', mm')"
    and "\<forall>j<n. entry_wf (map_entry m b (i + j))"
  shows "unat mx \<le> unat mx' \<and>
    (\<forall>j<n. mm_type (map_entry m b (i + j)) = SYPAS_MEM_USABLE \<longrightarrow> mm_hi (map_entry m b (i + j)) \<le> unat mx') \<and>
    (mx' = mx \<or> (\<exists>j<n. mm_type (map_entry m b (i + j)) = SYPAS_MEM_USABLE \<and>
        unat mx' = mm_hi (map_entry m b (i + j))))"
  using assms
proof (induction n arbitrary: i mx us rs mm)
  case (Suc n)
  let ?e = "map_entry m b i"
  have wf: "\<forall>j<n. entry_wf (map_entry m b (Suc i + j))" and e: "entry_wf ?e"
    using Suc.prems(2) by (fastforce, force)
  have sum: "unat (mm_base ?e + mm_length ?e) = mm_hi ?e"
    using e by (simp add: entry_wf_def mm_hi_def unat_word_ariths)
  have all: "(\<forall>j<Suc n. P j) \<longleftrightarrow> P 0 \<and> (\<forall>j<n. P (Suc j))" for P
    by (simp add: All_less_Suc2)
  have ex: "(\<exists>j<Suc n. P j) \<longleftrightarrow> P 0 \<or> (\<exists>j<n. P (Suc j))" for P
    by (auto simp: less_Suc_eq_0_disj)
  show ?case
  proof (cases "mm_type ?e = SYPAS_MEM_USABLE")
    case True
    let ?mx = "if mm_base ?e + mm_length ?e > mx then mm_base ?e + mm_length ?e else mx"
    have "pmm_extent m b (Suc i) n ?mx (us + mm_length ?e) rs mm = (mx', us', rs', mm')"
      using Suc.prems(1) True by (simp add: Let_def)
    from Suc.IH [OF this wf] True sum show ?thesis
      unfolding all ex by (auto simp: word_less_nat_alt split: if_splits)
  next
    case False
    then have "\<exists>rs1 mm1. pmm_extent m b (Suc i) n mx us rs1 mm1 = (mx', us', rs', mm')"
      using Suc.prems(1) by (auto simp: Let_def split: if_splits)
    with Suc.IH [OF _ wf] False show ?thesis unfolding all ex by auto
  qed
qed simp

lemma place_bitmap_spec:
  assumes "\<forall>j<n. entry_wf (map_entry m b (i + j))" "pmm_place_bitmap m b bytes i n = bm" "bm \<noteq> 0"
  shows "\<exists>j<n. mm_type (map_entry m b (i + j)) = SYPAS_MEM_USABLE \<and>
    mm_lo (map_entry m b (i + j)) \<le> unat bm \<and> 0x100000 \<le> unat bm \<and>
    unat bm + unat bytes \<le> mm_hi (map_entry m b (i + j))"
  using assms
proof (induction n arbitrary: i)
  case (Suc n)
  let ?e = "map_entry m b i"
  have wf: "\<forall>j<n. entry_wf (map_entry m b (Suc i + j))" and e: "entry_wf ?e"
    using Suc.prems(1) by (fastforce, force)
  have rec: ?case if "pmm_place_bitmap m b bytes (Suc i) n = bm"
  proof -
    from Suc.IH [OF wf that Suc.prems(3)] obtain j where "j < n"
      "mm_type (map_entry m b (Suc i + j)) = SYPAS_MEM_USABLE \<and>
       mm_lo (map_entry m b (Suc i + j)) \<le> unat bm \<and> 0x100000 \<le> unat bm \<and>
       unat bm + unat bytes \<le> mm_hi (map_entry m b (Suc i + j))" by blast
    then show ?thesis by (intro exI [of _ "Suc j"]) simp
  qed
  have here: ?case if "mm_type ?e = SYPAS_MEM_USABLE" "mm_lo ?e \<le> unat bm" "0x100000 \<le> unat bm"
    "unat bm + unat bytes \<le> mm_hi ?e"
    using that by (intro exI [of _ 0]) simp
  show ?case
  proof (cases "mm_type ?e = SYPAS_MEM_USABLE")
    case False
    then show ?thesis using Suc.prems(2) rec by (simp add: Let_def)
  next
    case True
    show ?thesis
    proof (cases "mm_base ?e < 0x100000")
      case below: True
      let ?skip = "0x100000 - mm_base ?e"
      have skip: "unat ?skip = 0x100000 - unat (mm_base ?e)" "unat (mm_base ?e) < 0x100000"
        using below by (simp_all add: unat_sub word_less_nat_alt word_le_nat_alt)
      show ?thesis
      proof (cases "mm_length ?e \<le> ?skip \<or> \<not> bytes \<le> mm_length ?e - ?skip")
        case True
        then show ?thesis using Suc.prems(2) rec below \<open>mm_type ?e = _\<close> by (auto simp: Let_def)
      next
        case False
        then have bm: "bm = mm_base ?e + ?skip"
          using Suc.prems(2) below True by (simp add: Let_def)
        then have ubm: "unat bm = 0x100000" by simp
        have "unat (mm_length ?e - ?skip) = unat (mm_length ?e) - unat ?skip"
          using False by (intro unat_sub) (auto simp: not_le)
        then have "unat bm + unat bytes \<le> mm_hi ?e"
          using False skip ubm by (auto simp: mm_hi_def word_le_nat_alt)
        with True ubm skip show ?thesis by (intro here) (simp_all add: mm_lo_def)
      qed
    next
      case False
      then have lo: "0x100000 \<le> unat (mm_base ?e)" by (simp add: word_less_nat_alt)
      show ?thesis
      proof (cases "bytes \<le> mm_length ?e")
        case fits: True
        then have "bm = mm_base ?e" using Suc.prems(2) True False by (simp add: Let_def)
        with True fits lo show ?thesis
          by (intro here) (simp_all add: mm_lo_def mm_hi_def word_le_nat_alt)
      next
        case no: False
        then show ?thesis using Suc.prems(2) True False rec by (simp add: Let_def)
      qed
    qed
  qed
qed simp

definition entry_pages :: "sypas_memmap_entry \<Rightarrow> nat set" where
  "entry_pages e = {mm_lo e div 4096..<mm_hi e div 4096}"

lemma entry_wf_align:
  assumes "entry_wf e"
  shows "unat (ALIGN_UP (mm_base e) PAGE_SIZE div PAGE_SIZE) = mm_lo e div 4096"
    and "unat (ALIGN_DOWN (mm_base e + mm_length e) PAGE_SIZE div PAGE_SIZE) = mm_hi e div 4096"
    and "mm_lo e div 4096 < mm_hi e div 4096"
proof -
  have P: "unat PAGE_SIZE = 4096" by (simp add: PAGE_SIZE_def)
  have "4096 dvd mm_lo e" "4096 dvd mm_hi e" using assms by (auto simp: entry_wf_def)
  then obtain q r where q: "mm_lo e = 4096 * q" "mm_hi e = 4096 * r" by (elim dvdE)
  have lt: "mm_lo e < mm_hi e" "mm_hi e < 2 ^ 64" using assms by (simp_all add: entry_wf_def)
  then have "q < r" using q by simp
  then show "mm_lo e div 4096 < mm_hi e div 4096" using q by simp
  have le: "mm_lo e + 4096 \<le> mm_hi e" using \<open>q < r\<close> q by simp
  have b: "unat (mm_base e) = 4096 * q" using q by (simp add: mm_lo_def)
  have "unat (mm_base e) + 4095 < 2 ^ 64" using le lt by (simp add: mm_lo_def)
  then have "unat (ALIGN_UP (mm_base e) PAGE_SIZE) = (unat (mm_base e) + 4095) div 4096 * 4096"
    by (rule unat_ALIGN_UP_page)
  moreover have "(4096 * q + 4095) div 4096 = q" by presburger
  ultimately show "unat (ALIGN_UP (mm_base e) PAGE_SIZE div PAGE_SIZE) = mm_lo e div 4096"
    using q b by (simp add: unat_div_distrib P)
  have "unat (mm_base e + mm_length e) = mm_hi e"
    using lt by (simp add: mm_hi_def unat_word_ariths)
  then show "unat (ALIGN_DOWN (mm_base e + mm_length e) PAGE_SIZE div PAGE_SIZE) = mm_hi e div 4096"
    using unat_ALIGN_DOWN_page [of "mm_base e + mm_length e"] q by (simp add: unat_div_distrib P)
qed

definition usable_pages_of :: "sypas_memmap_entry list \<Rightarrow> nat set" where
  "usable_pages_of es = (\<Union>e\<in>{e\<in>set es. mm_type e = SYPAS_MEM_USABLE}. entry_pages e)"

lemma usable_pages_of_Cons: "usable_pages_of (e # es) =
    (if mm_type e = SYPAS_MEM_USABLE then entry_pages e else {}) \<union> usable_pages_of es"
  by (auto simp: usable_pages_of_def)

lemma usable_pages_of_Nil [simp]: "usable_pages_of [] = {}"
  by (simp add: usable_pages_of_def)

text \<open>
  \<open>map_stable st b E n\<close>: the entries \<open>E\<close> are what a reader of the boot map sees in every memory
  that differs from the present one only inside the bitmap.
\<close>

definition map_stable :: "pmm_state \<Rightarrow> u64 \<Rightarrow> (nat \<Rightarrow> sypas_memmap_entry) \<Rightarrow> nat \<Rightarrow> bool" where
  "map_stable st b E n \<longleftrightarrow> (\<forall>j<n. \<forall>m'. (\<forall>x. \<not> in_range x (bitmap st) (unat (bitmap_bytes st)) \<longrightarrow>
     m' x = pmm_ram st x) \<longrightarrow> map_entry m' b j = E j)"

lemma map_stable_frame: "map_stable st b E n \<Longrightarrow> bm_frame st st' \<Longrightarrow> map_stable st' b E n"
  unfolding map_stable_def bm_frame_def by metis

lemma map_stable_entry: "map_stable st b E n \<Longrightarrow> j < n \<Longrightarrow> map_entry (pmm_ram st) b j = E j"
  by (simp add: map_stable_def)

lemma free_usable_spec:
  assumes "counted st" "map_stable st b E (i + n)"
    and "\<forall>j<i + n. entry_wf (E j)"
    and "\<forall>j<i + n. mm_type (E j) = SYPAS_MEM_USABLE \<longrightarrow> mm_hi (E j) div 4096 \<le> unat (highest_page st)"
    and "sorted_wrt (\<lambda>e f. entry_pages e \<inter> entry_pages f = {}) (map E [i..<i + n])"
    and "\<forall>j<n. entry_pages (E (i + j)) \<inter> free_set st = {}"
  shows "counted (pmm_free_usable st b i n) \<and> bm_frame st (pmm_free_usable st b i n) \<and>
    free_set (pmm_free_usable st b i n) = free_set st \<union> (usable_pages_of (map E [i..<i + n]) - {0})"
  using assms
proof (induction n arbitrary: st i)
  case (Suc n)
  have e: "map_entry (pmm_ram st) b i = E i" using Suc.prems(2) by (rule map_stable_entry) simp
  have wf: "entry_wf (E i)" using Suc.prems(3) by simp
  note al = entry_wf_align [OF wf]
  have upt: "map E [i..<i + Suc n] = E i # map E [Suc i..<Suc i + n]" by (simp add: upt_rec)
  have srt: "sorted_wrt (\<lambda>e f. entry_pages e \<inter> entry_pages f = {}) (map E [Suc i..<Suc i + n])"
    and apart: "\<forall>f\<in>set (map E [Suc i..<Suc i + n]). entry_pages (E i) \<inter> entry_pages f = {}"
    using Suc.prems(5) unfolding upt by simp_all
  show ?case
  proof (cases "mm_type (E i) = SYPAS_MEM_USABLE")
    case False
    have "pmm_free_usable st b i (Suc n) = pmm_free_usable st b (Suc i) n"
      using False by (simp add: e)
    moreover have "\<forall>j<n. entry_pages (E (Suc i + j)) \<inter> free_set st = {}"
      using Suc.prems(6) by (metis Suc_less_eq add_Suc_shift)
    then have "counted (pmm_free_usable st b (Suc i) n) \<and> bm_frame st (pmm_free_usable st b (Suc i) n) \<and>
        free_set (pmm_free_usable st b (Suc i) n) =
          free_set st \<union> (usable_pages_of (map E [Suc i..<Suc i + n]) - {0})"
      using Suc.prems srt by (intro Suc.IH) simp_all
    ultimately show ?thesis using False unfolding upt usable_pages_of_Cons by simp
  next
    case True
    let ?f = "ALIGN_UP (mm_base (E i)) PAGE_SIZE div PAGE_SIZE"
    let ?l = "ALIGN_DOWN (mm_base (E i) + mm_length (E i)) PAGE_SIZE div PAGE_SIZE"
    let ?st = "pmm_free_range st ?f (unat ?l - unat ?f)"
    have fl: "unat ?f + (unat ?l - unat ?f) = unat ?l" using al by simp
    have pg: "{unat ?f..<unat ?f + (unat ?l - unat ?f)} = entry_pages (E i)"
      unfolding fl using al by (simp add: entry_pages_def)
    have "unat ?f + (unat ?l - unat ?f) \<le> unat (highest_page st)"
      unfolding fl using al Suc.prems(4) True by simp
    moreover have "entry_pages (E i) \<inter> free_set st = {}"
      using Suc.prems(6) by (metis add.right_neutral zero_less_Suc)
    ultimately have S: "counted ?st" "bm_frame st ?st" "free_set ?st = free_set st \<union> (entry_pages (E i) - {0})"
      using free_range_spec [OF Suc.prems(1), of ?f "unat ?l - unat ?f"] unfolding pg by simp_all
    have hp: "highest_page ?st = highest_page st" using S(2) by (simp add: bm_frame_def)
    have "\<forall>j<n. entry_pages (E (Suc i + j)) \<inter> free_set ?st = {}"
    proof (intro allI impI)
      fix j assume j: "j < n"
      then have "entry_pages (E (Suc i + j)) \<inter> free_set st = {}"
        using Suc.prems(6) by (metis Suc_less_eq add_Suc_shift)
      moreover have "entry_pages (E i) \<inter> entry_pages (E (Suc i + j)) = {}"
        using apart j by (simp del: upt_Suc)
      ultimately show "entry_pages (E (Suc i + j)) \<inter> free_set ?st = {}" using S(3) by blast
    qed
    then have "counted (pmm_free_usable ?st b (Suc i) n) \<and> bm_frame ?st (pmm_free_usable ?st b (Suc i) n) \<and>
        free_set (pmm_free_usable ?st b (Suc i) n) =
          free_set ?st \<union> (usable_pages_of (map E [Suc i..<Suc i + n]) - {0})"
      using Suc.prems(2-4) srt S hp map_stable_frame [OF _ S(2), of b E]
      by (intro Suc.IH) simp_all
    moreover have "pmm_free_usable st b i (Suc n) = pmm_free_usable ?st b (Suc i) n"
      using True by (simp add: e Let_def)
    ultimately show ?thesis
      using True S bm_frame_trans [OF S(2)] unfolding upt usable_pages_of_Cons by auto
  qed
qed simp

subsection \<open>Initialisation as a whole\<close>

text \<open>
  The boot map as the loader leaves it: well formed, at an address that does not wrap and
  outside every region it calls usable.
\<close>

definition boot_map_ok :: "ram \<Rightarrow> u64 \<Rightarrow> nat \<Rightarrow> bool" where
  "boot_map_ok m b n \<longleftrightarrow> map_wf (map_entries m b n) \<and> region_ok b (n * sizeof_entry) \<and>
     (\<forall>e\<in>set (map_entries m b n). mm_type e = SYPAS_MEM_USABLE \<longrightarrow>
        unat b + n * sizeof_entry \<le> mm_lo e \<or> mm_hi e \<le> unat b)"

definition bitmap_placed :: "pmm_state \<Rightarrow> sypas_memmap_entry list \<Rightarrow> bool" where
  "bitmap_placed st es \<longleftrightarrow> (\<exists>e\<in>set es. mm_type e = SYPAS_MEM_USABLE \<and>
     mm_lo e \<le> unat (bitmap st) \<and> 0x100000 \<le> unat (bitmap st) \<and>
     unat (bitmap st) + unat (bitmap_bytes st) \<le> mm_hi e)"

lemma map_wf_entry_pages: "map_wf es \<Longrightarrow> sorted_wrt (\<lambda>e f. entry_pages e \<inter> entry_pages f = {}) es"
proof -
  assume "map_wf es"
  then have "sorted_wrt (\<lambda>e f. mm_hi e \<le> mm_lo f) es" by (simp add: map_wf_def)
  then show ?thesis
    by (rule sorted_wrt_mono_rel [rotated])
      (auto simp: entry_pages_def dest: div_le_mono [where k = 4096])
qed

lemma page_off_bitmap_range:
  assumes "0 < unat (bitmap_bytes st)"
  shows "page_off_bitmap st n \<longleftrightarrow>
    n \<notin> {unat (bitmap st) div 4096..<(unat (bitmap st) + unat (bitmap_bytes st) + 4095) div 4096}"
  using assms unfolding page_off_bitmap_def
  by (auto simp: less_eq_div_iff_mult_less_eq not_le div_less_iff_less_mult)

lemma bitmap_end_page:
  assumes "unat (bitmap st) + unat (bitmap_bytes st) \<le> hi" and "hi mod 4096 = 0" and "hi < 2 ^ 64"
  shows "unat (bitmap_page_end st) = (unat (bitmap st) + unat (bitmap_bytes st) + 4095) div 4096"
    and "unat (bitmap_page_end st) \<le> hi div 4096"
proof -
  obtain q where q: "hi = 4096 * q" using assms(2) by (auto simp: mod_eq_0_iff_dvd dvd_def)
  have ue: "unat (bitmap st + bitmap_bytes st) = unat (bitmap st) + unat (bitmap_bytes st)"
    using assms(1,3) by (simp add: unat_word_ariths)
  have "4096 * Suc q \<le> 4096 * 2 ^ 52" using q assms(3) by (intro mult_le_mono2) simp
  then have "unat (ALIGN_UP (bitmap st + bitmap_bytes st) PAGE_SIZE) =
      (unat (bitmap st) + unat (bitmap_bytes st) + 4095) div 4096 * 4096"
    using ue assms(1) q by (subst unat_ALIGN_UP_page) simp_all
  then show ul: "unat (bitmap_page_end st) = (unat (bitmap st) + unat (bitmap_bytes st) + 4095) div 4096"
    by (simp add: bitmap_page_end_def unat_div_distrib PAGE_SIZE_def)
  have "(unat (bitmap st) + unat (bitmap_bytes st) + 4095) div 4096 \<le> (4096 * q + 4095) div 4096"
    using assms(1) q by (intro div_le_mono) simp
  also have "(4096 * q + 4095) div 4096 = q" by presburger
  finally show "unat (bitmap_page_end st) \<le> hi div 4096" using ul q by simp
qed

text \<open>A bitmap inside a usable entry is clear of the map, so writing it leaves the entries as they are.\<close>

lemma map_stable_placed:
  assumes "boot_map_ok (pmm_ram st) b n" and "bitmap_placed st (map_entries (pmm_ram st) b n)"
  shows "map_stable st b (map_entry (pmm_ram st) b) n"
  unfolding map_stable_def
proof (intro allI impI)
  fix i m' assume i: "i < n"
    and m': "\<forall>x. \<not> in_range x (bitmap st) (unat (bitmap_bytes st)) \<longrightarrow> m' x = pmm_ram st x"
  obtain e where e: "e \<in> set (map_entries (pmm_ram st) b n)" "mm_type e = SYPAS_MEM_USABLE"
    "mm_lo e \<le> unat (bitmap st)" "unat (bitmap st) + unat (bitmap_bytes st) \<le> mm_hi e"
    using assms(2) by (auto simp: bitmap_placed_def)
  have sep: "unat b + n * sizeof_entry \<le> mm_lo e \<or> mm_hi e \<le> unat b"
    using assms(1) e(1,2) by (auto simp: boot_map_ok_def)
  show "map_entry m' b i = map_entry (pmm_ram st) b i"
  proof (rule map_entry_cong [OF _ _ i])
    show "region_ok b (n * sizeof_entry)" using assms(1) by (simp add: boot_map_ok_def)
    fix x assume "in_range x b (n * sizeof_entry)"
    then have "\<not> in_range x (bitmap st) (unat (bitmap_bytes st))" using sep e(3,4) by (auto simp: in_range_def)
    then show "m' x = pmm_ram st x" using m' by simp
  qed
qed

text \<open>
  \<^verbatim>\<open>pmm_init\<close> after its first two passes: the bitmap is placed (\<open>placed\<close>) and nothing is marked yet.
\<close>

definition placed :: "pmm_state \<Rightarrow> sypas_bootinfo \<Rightarrow> pmm_state \<Rightarrow> bool" where
  "placed st bi st0 \<longleftrightarrow> (let es = map_entries (pmm_ram st) (bi_memmap bi) (unat (bi_memmap_count bi)) in
     bitmap_ok st0 \<and> free_pages st0 = 0 \<and> pmm_ram st0 = pmm_ram st \<and> bitmap_placed st0 es \<and>
     unat (bitmap_bytes st0) = (unat (highest_page st0) + 7) div 8 \<and>
     highest_page st0 =
       fst (pmm_extent (pmm_ram st) (bi_memmap bi) 0 (unat (bi_memmap_count bi)) 0 0 0 0) div PAGE_SIZE \<and>
     bitmap st0 = pmm_place_bitmap (pmm_ram st) (bi_memmap bi) (bitmap_bytes st0) 0 (unat (bi_memmap_count bi)) \<and>
     (\<forall>e\<in>set es. mm_type e = SYPAS_MEM_USABLE \<longrightarrow> mm_hi e div 4096 \<le> unat (highest_page st0)))"

lemma pmm_init_placed:
  assumes "map_wf (map_entries (pmm_ram st) (bi_memmap bi) (unat (bi_memmap_count bi)))"
    and init: "pmm_init st bi = Inr st'"
  obtains st0 st2 st4 st5 where "placed st bi st0"
    "st2 = pmm_free_usable (pmm_fill_bitmap st0 0 (unat (bitmap_bytes st0))) (bi_memmap bi) 0 (unat (bi_memmap_count bi))"
    "st4 = pmm_reserve_range (st2\<lparr>usable_pages := free_pages st2\<rparr>) (bitmap st2 div PAGE_SIZE)
       (unat (bitmap_page_end st2) - unat (bitmap st2 div PAGE_SIZE))"
    "st5 = pmm_reserve_range st4 0 (min 256 (unat (highest_page st4)))"
    "st' = st5\<lparr>allocator_pages := free_pages st5, cursor := bitmap_page_end st2\<rparr>"
proof -
  let ?b = "bi_memmap bi" and ?n = "unat (bi_memmap_count bi)"
  let ?E = "map_entry (pmm_ram st) ?b"
  have ewf: "\<forall>j<?n. entry_wf (?E j)" using assms(1) by (auto simp: map_wf_def map_entries_def)
  obtain mx us rs mm where ext: "pmm_extent (pmm_ram st) ?b 0 ?n 0 0 0 0 = (mx, us, rs, mm)"
    by (cases "pmm_extent (pmm_ram st) ?b 0 ?n 0 0 0 0") auto
  define highest where "highest = mx div PAGE_SIZE"
  define bytes where "bytes = ALIGN_UP highest 8 div 8"
  define bm where "bm = pmm_place_bitmap (pmm_ram st) ?b bytes 0 ?n"
  define st0 where "st0 = st\<lparr>bitmap := bm, bitmap_bytes := bytes, highest_page := highest,
      free_pages := 0, usable_pages := 0, allocator_pages := 0,
      usable_bytes := us, reserved_bytes := rs, mmio_bytes := mm\<rparr>"
  have bm0: "bm \<noteq> 0" using init ext by (auto simp: pmm_init_def Let_def highest_def bytes_def bm_def split: if_splits)
  have hi: "unat highest = unat mx div 4096" by (simp add: highest_def PAGE_SIZE_def unat_div_distrib)
  then have hb: "unat highest < 2 ^ 52" using unat_u64_less [of mx] by simp
  then have ub: "unat bytes = (unat highest + 7) div 8" by (simp add: bytes_def unat_ALIGN_UP_8)
  have top: "\<forall>j<?n. mm_type (?E j) = SYPAS_MEM_USABLE \<longrightarrow> mm_hi (?E j) div 4096 \<le> unat highest"
    using extent_spec [OF ext, simplified] ewf hi by (auto intro: div_le_mono)
  obtain j where j: "j < ?n" "mm_type (?E j) = SYPAS_MEM_USABLE" "mm_lo (?E j) \<le> unat bm"
      "0x100000 \<le> unat bm" "unat bm + unat bytes \<le> mm_hi (?E j)"
    using place_bitmap_spec [of ?n "pmm_ram st" ?b 0 bytes bm] ewf bm0 bm_def by auto
  have "mm_hi (?E j) < 2 ^ 64" using ewf j(1) by (auto simp: entry_wf_def)
  then have "bitmap_ok st0" using hb ub j(5) by (simp add: bitmap_ok_def region_ok_def st0_def)
  then have "placed st bi st0"
    using ub ext top j by (auto simp: placed_def Let_def bitmap_placed_def map_entries_def st0_def highest_def bm_def)
  then show ?thesis
    using init ext by (intro that [OF _ refl refl refl])
      (auto simp: pmm_init_def Let_def st0_def bm_def bytes_def highest_def bitmap_page_end_def split: if_splits)
qed

text \<open>The third pass marks the usable pages, page 0 apart.\<close>

lemma free_usable_placed:
  assumes ok: "boot_map_ok (pmm_ram st) (bi_memmap bi) (unat (bi_memmap_count bi))" and p: "placed st bi st0"
  defines "es \<equiv> map_entries (pmm_ram st) (bi_memmap bi) (unat (bi_memmap_count bi))"
    and "st2 \<equiv> pmm_free_usable (pmm_fill_bitmap st0 0 (unat (bitmap_bytes st0))) (bi_memmap bi) 0
      (unat (bi_memmap_count bi))"
  shows "counted st2 \<and> bm_frame st0 st2 \<and> free_set st2 = usable_pages_of es - {0}"
proof -
  let ?b = "bi_memmap bi" and ?n = "unat (bi_memmap_count bi)"
  let ?E = "map_entry (pmm_ram st) ?b" and ?st1 = "pmm_fill_bitmap st0 0 (unat (bitmap_bytes st0))"
  note P = p [unfolded placed_def Let_def, folded es_def]
  have es: "es = map ?E [0..<?n]" by (simp add: es_def map_entries_def)
  have wf: "map_wf es" using ok by (simp add: boot_map_ok_def es_def)
  then have ewf: "\<forall>j<?n. entry_wf (?E j)" by (auto simp: map_wf_def es)
  have ok0: "bitmap_ok st0" using P by simp
  have "\<forall>e\<in>set es. mm_type e = SYPAS_MEM_USABLE \<longrightarrow> mm_hi e div 4096 \<le> unat (highest_page st0)" using P by blast
  then have top: "\<forall>j<?n. mm_type (?E j) = SYPAS_MEM_USABLE \<longrightarrow> mm_hi (?E j) div 4096 \<le> unat (highest_page st0)"
    by (simp add: es)
  have fr1: "bm_frame st0 ?st1" and fs1: "free_set ?st1 = {}" and fp1: "free_pages ?st1 = 0"
    using fill_bitmap_byte [of 0 "unat (bitmap_bytes st0)" st0] fill_bitmap_free_set [OF ok0] ok0 P
    by (auto simp: bitmap_ok_def)
  have c1: "counted ?st1" using ok0 bm_frame_ok [OF fr1] fs1 fp1 by (simp add: counted_def)
  have "map_stable st0 ?b (map_entry (pmm_ram st0) ?b) ?n"
    using ok P by (intro map_stable_placed) (simp_all add: es_def)
  then have stable: "map_stable ?st1 ?b ?E ?n" using fr1 P by (auto intro: map_stable_frame)
  have H1: "highest_page ?st1 = highest_page st0" using fr1 by (simp add: bm_frame_def)
  have "counted st2 \<and> bm_frame ?st1 st2 \<and> free_set st2 = free_set ?st1 \<union> (usable_pages_of (map ?E [0..<0 + ?n]) - {0})"
    unfolding st2_def
    by (rule free_usable_spec [OF c1])
      (use stable ewf top H1 map_wf_entry_pages [OF wf] fs1 es in simp_all)
  then show ?thesis using fs1 es fr1 bm_frame_trans by auto
qed

lemma pmm_init_spec:
  assumes ok: "boot_map_ok (pmm_ram st) (bi_memmap bi) (unat (bi_memmap_count bi))"
    and init: "pmm_init st bi = Inr st'"
  defines "es \<equiv> map_entries (pmm_ram st) (bi_memmap bi) (unat (bi_memmap_count bi))"
  shows "counted st'" and "bitmap_placed st' es"
    and "free_set st' = {n\<in>usable_pages_of es. 256 \<le> n \<and> page_off_bitmap st' n}"
    and "unat (usable_pages st') = card (usable_pages_of es - {0})"
    and "allocator_pages st' = free_pages st'"
    and "\<And>x. \<not> in_range x (bitmap st') (unat (bitmap_bytes st')) \<Longrightarrow> pmm_ram st' x = pmm_ram st x"
    and "cursor st' = bitmap_page_end st'" and "unat (cursor st') \<le> unat (highest_page st')"
    and "highest_page st' =
      fst (pmm_extent (pmm_ram st) (bi_memmap bi) 0 (unat (bi_memmap_count bi)) 0 0 0 0) div PAGE_SIZE"
    and "\<And>n. n \<in> usable_pages_of es \<Longrightarrow> n < unat (highest_page st')"
    and "bitmap st' = pmm_place_bitmap (pmm_ram st) (bi_memmap bi) (bitmap_bytes st') 0
      (unat (bi_memmap_count bi))"
    and "unat (bitmap_page_end st') = (unat (bitmap st') + unat (bitmap_bytes st') + 4095) div 4096"
proof -
  let ?b = "bi_memmap bi" and ?n = "unat (bi_memmap_count bi)"
  have es: "es = map (map_entry (pmm_ram st) ?b) [0..<?n]" by (simp add: es_def map_entries_def)
  have wf: "map_wf es" using ok by (simp add: boot_map_ok_def es_def)
  obtain st0 st2 st4 st5 where p: "placed st bi st0" and
    st2: "st2 = pmm_free_usable (pmm_fill_bitmap st0 0 (unat (bitmap_bytes st0))) ?b 0 ?n" and
    st4: "st4 = pmm_reserve_range (st2\<lparr>usable_pages := free_pages st2\<rparr>) (bitmap st2 div PAGE_SIZE)
       (unat (bitmap_page_end st2) - unat (bitmap st2 div PAGE_SIZE))" and
    st5: "st5 = pmm_reserve_range st4 0 (min 256 (unat (highest_page st4)))" and
    st': "st' = st5\<lparr>allocator_pages := free_pages st5, cursor := bitmap_page_end st2\<rparr>"
    using pmm_init_placed [OF wf [unfolded es_def] init] .
  note P = p [unfolded placed_def Let_def, folded es_def]
  have 2: "counted st2 \<and> bm_frame st0 st2 \<and> free_set st2 = usable_pages_of es - {0}"
    using free_usable_placed [OF ok p] st2 unfolding es_def by simp
  let ?st3 = "st2\<lparr>usable_pages := free_pages st2\<rparr>" and ?f = "bitmap st2 div PAGE_SIZE" and ?l = "bitmap_page_end st2"
  have same2: "bitmap st2 = bitmap st0" "bitmap_bytes st2 = bitmap_bytes st0" "highest_page st2 = highest_page st0"
    using 2 by (simp_all add: bm_frame_def)
  obtain e where e: "e \<in> set es" "mm_type e = SYPAS_MEM_USABLE" "unat (bitmap st2) + unat (bitmap_bytes st2) \<le> mm_hi e"
    using P same2 by (auto simp: bitmap_placed_def)
  have ehi: "mm_hi e mod 4096 = 0" "mm_hi e < 2 ^ 64" using wf e(1) by (auto simp: map_wf_def entry_wf_def)
  note L = bitmap_end_page [OF e(3) ehi]
  have lH: "unat ?l \<le> unat (highest_page st2)" using L(2) P e(1,2) same2 by fastforce
  have uf: "unat ?f = unat (bitmap st2) div 4096" by (simp add: unat_div_distrib PAGE_SIZE_def)
  have fl: "unat ?f \<le> unat ?l" unfolding uf L(1) by (intro div_le_mono) simp
  have c3: "counted ?st3" using 2 by (simp add: counted_def)
  have 4: "counted st4 \<and> bm_frame ?st3 st4 \<and>
      free_set st4 = free_set ?st3 - {unat ?f..<unat ?f + (unat ?l - unat ?f)}"
    unfolding st4 by (rule reserve_range_spec [OF c3]) (use fl lH in simp)
  have "unat (0 :: u64) + min 256 (unat (highest_page st4)) \<le> unat (highest_page st4)" by simp
  from reserve_range_spec [OF _ this] 4 have 5: "counted st5 \<and> bm_frame st4 st5 \<and>
      free_set st5 = free_set st4 - {unat (0::u64)..<unat (0::u64) + min 256 (unat (highest_page st4))}"
    by (simp add: st5)
  have fr: "bm_frame ?st3 st5" using 4 5 bm_frame_trans by blast
  have same: "bitmap st' = bitmap st0" "bitmap_bytes st' = bitmap_bytes st0" "highest_page st' = highest_page st0"
    using fr same2 by (simp_all add: st' bm_frame_def)
  have bpe: "bitmap_page_end st2 = bitmap_page_end st'" by (simp add: bitmap_page_end_def same2 same)
  show "counted st'" using 5 by (simp add: counted_def st')
  have "bitmap_placed st0 es" using P by blast
  then show "bitmap_placed st' es" by (simp add: bitmap_placed_def same)
  show "cursor st' = bitmap_page_end st'" using bpe by (simp add: st')
  show "unat (cursor st') \<le> unat (highest_page st')" using lH same same2 by (simp add: st')
  show "highest_page st' = fst (pmm_extent (pmm_ram st) ?b 0 ?n 0 0 0 0) div PAGE_SIZE"
    "bitmap st' = pmm_place_bitmap (pmm_ram st) ?b (bitmap_bytes st') 0 ?n"
    using P by (simp_all add: same)
  show "unat (bitmap_page_end st') = (unat (bitmap st') + unat (bitmap_bytes st') + 4095) div 4096"
    using L(1) bpe same same2 by simp
  show "allocator_pages st' = free_pages st'" by (simp add: st')
  have "usable_pages st' = free_pages st2" using fr by (simp add: st' bm_frame_def)
  then show "unat (usable_pages st') = card (usable_pages_of es - {0})" using 2 by (simp add: counted_def)
  show "pmm_ram st' x = pmm_ram st x" if "\<not> in_range x (bitmap st') (unat (bitmap_bytes st'))" for x
    using 2 fr that same same2 P by (simp add: bm_frame_def st')
  have usH: "n < unat (highest_page st')" if "n \<in> usable_pages_of es" for n
    using that P same by (fastforce simp: usable_pages_of_def entry_pages_def)
  then show "n < unat (highest_page st')" if "n \<in> usable_pages_of es" for n using that .
  have off: "page_off_bitmap st' n \<longleftrightarrow> n \<notin> {unat ?f..<unat ?l}" if "n \<in> usable_pages_of es" for n
    using page_off_bitmap_range [of st' n] usH [OF that] P same same2 uf L(1) by simp
  have "free_set st' = usable_pages_of es - {0} - {unat ?f..<unat ?l} - {0..<min 256 (unat (highest_page st'))}"
    using 2 4 5 fl same same2 by (simp add: st' bm_frame_def)
  then show "free_set st' = {n\<in>usable_pages_of es. 256 \<le> n \<and> page_off_bitmap st' n}"
    using off usH by fastforce
qed

lemma ram_bytes_store_slice:
  assumes "region_ok a (length bs)" "off + k \<le> length bs"
  shows "ram_bytes (ram_store m a bs) (a + of_nat off) k = take k (drop off bs)"
proof (rule nth_equalityI)
  fix i assume "i < length (ram_bytes (ram_store m a bs) (a + of_nat off) k)"
  then have i: "i < k" by simp
  have u: "unat (a + of_nat (off + i)) = unat a + (off + i)"
    using assms i by (intro unat_add_of_nat) (simp add: region_ok_def)
  then have "in_range (a + of_nat (off + i)) a (length bs)" using assms(2) i by (simp add: in_range_def)
  from ram_store_in [OF this, of m] u have "ram_store m a bs (a + of_nat (off + i)) = bs ! (off + i)" by simp
  then show "ram_bytes (ram_store m a bs) (a + of_nat off) k ! i = take k (drop off bs) ! i"
    using i assms(2) by (simp add: ram_bytes_def add.assoc)
qed (use assms in simp)

lemma length_encode_entry [simp]: "length (encode_entry e) = sizeof_entry"
  by (simp add: encode_entry_def sizeof_entry_def)

lemma map_entries_store_aux:
  assumes "region_ok b (length es * sizeof_entry)"
  shows "map_entries (ram_store m b (concat (map encode_entry es))) b (length es) = es"
proof (rule nth_equalityI)
  let ?bs = "concat (map encode_entry es)"
  have ch: "chunked sizeof_entry (map encode_entry es)" by (simp add: chunked_def)
  have len: "length ?bs = length es * sizeof_entry" using length_concat_chunked [OF ch] by simp
  fix i assume "i < length (map_entries (ram_store m b ?bs) b (length es))"
  then have i: "i < length es" by (simp add: map_entries_def)
  have "Suc i * sizeof_entry \<le> length es * sizeof_entry" by (rule mult_le_mono1) (use i in simp)
  then have "i * sizeof_entry + sizeof_entry \<le> length ?bs" using len by simp
  then have "ram_bytes (ram_store m b ?bs) (b + of_nat (i * sizeof_entry)) sizeof_entry =
      take sizeof_entry (drop (i * sizeof_entry) ?bs)"
    using assms len by (intro ram_bytes_store_slice) simp_all
  also have "\<dots> = encode_entry (es ! i)" using chunk_at [OF ch, of i] i by simp
  finally show "map_entries (ram_store m b ?bs) b (length es) ! i = es ! i"
    using i by (simp add: map_entries_def map_entry_def decode_encode_entry)
qed (simp add: map_entries_def)

lemma pmm_inv_init:
  assumes "boot_map_ok (pmm_ram st) (bi_memmap bi) (unat (bi_memmap_count bi))"
    and "pmm_init st bi = Inr st'" and "cursor st' < highest_page st'"
  shows "pmm_inv (free_set st') st'"
proof -
  note S = pmm_init_spec [OF assms(1,2)]
  show ?thesis
    using S(1,3) assms(3) by (auto simp: pmm_inv_def counted_def word_less_nat_alt free_set_def)
qed

text \<open>Two machines for the witnesses: 3 MiB of RAM above 1 MiB, and a single page at 0x107000.\<close>

definition example_bootinfo :: "u64 \<Rightarrow> u64 \<Rightarrow> sypas_bootinfo" where
  "example_bootinfo map_base n = \<lparr>bi_magic = SYPAS_BOOT_MAGIC, bi_version_major = 1, bi_version_minor = 0,
     bi_size = 360, bi_memmap = map_base, bi_memmap_count = n, bi_fb_base = 0, bi_fb_width = 0,
     bi_fb_height = 0, bi_fb_pitch = 0, bi_fb_format = 0, bi_acpi_rsdp = 0, bi_efi_system_table = 0,
     bi_kernel_phys_base = 0, bi_kernel_size = 0, bi_stack_base = 0, bi_stack_size = 0,
     bi_cmdline = replicate 256 0\<rparr>"

definition example_machine :: "sypas_memmap_entry list \<Rightarrow> pmm_state" where
  "example_machine es = \<lparr>pmm_ram = ram_store (\<lambda>_. 0) 0x9000 (concat (map encode_entry es)),
     bitmap = 0, bitmap_bytes = 0, highest_page = 0, free_pages = 0, usable_pages = 0,
     allocator_pages = 0, cursor = 0, usable_bytes = 0, reserved_bytes = 0, mmio_bytes = 0\<rparr>"

definition usable_entry :: "u64 \<Rightarrow> u64 \<Rightarrow> sypas_memmap_entry" where
  "usable_entry lo n = \<lparr>mm_base = lo, mm_length = n, mm_type = SYPAS_MEM_USABLE, mm_reserved = 0\<rparr>"

lemma example_map_entries:
  "map_entries (pmm_ram (example_machine [e])) 0x9000 1 = [e]"
  using map_entries_store_aux [of "0x9000" "[e]" "\<lambda>_. 0"]
  by (simp add: example_machine_def region_ok_def sizeof_entry_def)

lemma example_map_entry:
  "map_entry (pmm_ram (example_machine [e])) 0x9000 0 = e"
  using example_map_entries [of e] by (simp add: map_entries_def)

abbreviation roomy_machine :: pmm_state where
  "roomy_machine \<equiv> example_machine [usable_entry 0x100000 0x300000]"

abbreviation one_page_machine :: pmm_state where
  "one_page_machine \<equiv> example_machine [usable_entry 0x107000 0x1000]"

abbreviation one_entry_info :: sypas_bootinfo where
  "one_entry_info \<equiv> example_bootinfo 0x9000 1"

lemmas example_map_entries' = example_map_entries [unfolded One_nat_def]

lemma example_boot_map_ok:
  "boot_map_ok (pmm_ram roomy_machine) (bi_memmap one_entry_info) (unat (bi_memmap_count one_entry_info))"
  "boot_map_ok (pmm_ram one_page_machine) (bi_memmap one_entry_info) (unat (bi_memmap_count one_entry_info))"
  by (simp_all add: boot_map_ok_def example_bootinfo_def example_map_entries' map_wf_def entry_wf_def
      mm_lo_def mm_hi_def usable_entry_def region_ok_def sizeof_entry_def)

lemma example_bitmap_bytes: "ALIGN_UP 1024 8 div 8 = 128" "ALIGN_UP 264 8 div 8 = 33"
  by (simp_all add: ALIGN_UP_def)

lemma pmm_init_returns:
  assumes "pmm_extent (pmm_ram st) (bi_memmap bi) 0 (unat (bi_memmap_count bi)) 0 0 0 0 = (max_addr, u, r, m)"
    and "max_addr \<noteq> 0" and "pmm_place_bitmap (pmm_ram st) (bi_memmap bi)
      (ALIGN_UP (max_addr div PAGE_SIZE) 8 div 8) 0 (unat (bi_memmap_count bi)) \<noteq> 0"
  shows "\<exists>st'. pmm_init st bi = Inr st'"
  using assms(2,3) unfolding pmm_init_def assms(1) Let_def by simp

lemma example_init_Inr:
  "\<exists>st. pmm_init roomy_machine one_entry_info = Inr st"
  "\<exists>st. pmm_init one_page_machine one_entry_info = Inr st"
   by (rule pmm_init_returns [where max_addr = "0x400000"],
      (simp add: example_bootinfo_def example_map_entry usable_entry_def PAGE_SIZE_def example_bitmap_bytes Let_def)+)
    (rule pmm_init_returns [where max_addr = "0x108000"],
      (simp add: example_bootinfo_def example_map_entry usable_entry_def PAGE_SIZE_def example_bitmap_bytes Let_def)+)

subsection \<open>Claims\<close>

lemma example_extent:
  "fst (pmm_extent (pmm_ram roomy_machine) 0x9000 0 1 0 0 0 0) = 0x400000"
  "fst (pmm_extent (pmm_ram one_page_machine) 0x9000 0 1 0 0 0 0) = 0x108000"
  by (simp_all add: example_map_entry usable_entry_def Let_def)

lemma example_info_map: "bi_memmap one_entry_info = 0x9000" "bi_memmap_count one_entry_info = 1"
  by (simp_all add: example_bootinfo_def)

text \<open>Any machine whose boot map is that one region behaves as the roomy one.\<close>

lemma one_region_init:
  assumes "map_entries (pmm_ram s0) 0x9000 1 = [usable_entry 0x100000 0x300000]"
    and "bi_memmap bi = 0x9000" and "bi_memmap_count bi = 1"
  shows "boot_map_ok (pmm_ram s0) (bi_memmap bi) (unat (bi_memmap_count bi))"
    and "\<exists>st. pmm_init s0 bi = Inr st"
    and "pmm_init s0 bi = Inr st \<Longrightarrow> highest_page st = 1024 \<and> free_set st = {257..<1024} \<and>
      cursor st < highest_page st"
proof -
  have e: "map_entry (pmm_ram s0) 0x9000 0 = usable_entry 0x100000 0x300000"
    using assms(1) by (simp add: map_entries_def)
  have es: "map_entries (pmm_ram s0) (bi_memmap bi) (unat (bi_memmap_count bi)) = [usable_entry 0x100000 0x300000]"
    using assms by simp
  show ok: "boot_map_ok (pmm_ram s0) (bi_memmap bi) (unat (bi_memmap_count bi))"
    unfolding boot_map_ok_def es
    by (simp add: assms(2,3) map_wf_def entry_wf_def mm_lo_def mm_hi_def usable_entry_def region_ok_def sizeof_entry_def)
  show "\<exists>st. pmm_init s0 bi = Inr st"
    by (rule pmm_init_returns [where max_addr = "0x400000"])
      (simp_all add: assms(2,3) e usable_entry_def PAGE_SIZE_def example_bitmap_bytes Let_def)
  assume init: "pmm_init s0 bi = Inr st"
  note S = pmm_init_spec [OF ok init]
  have "fst (pmm_extent (pmm_ram s0) (bi_memmap bi) 0 (unat (bi_memmap_count bi)) 0 0 0 0) = 0x400000"
    by (simp add: assms(2,3) e usable_entry_def Let_def)
  then have h: "highest_page st = 1024" using S(9) by (simp add: PAGE_SIZE_def)
  then have len: "unat (bitmap_bytes st) = 128" using S(1) by (simp add: counted_def bitmap_ok_def)
  then have "bitmap_bytes st = 128" by (simp add: word_unat_eq_iff)
  then have bm: "bitmap st = 0x100000"
    using S(11) by (simp add: assms(2,3) e usable_entry_def)
  have "usable_pages_of [usable_entry 0x100000 0x300000] = {256..<1024}"
    by (simp add: usable_pages_of_Cons entry_pages_def usable_entry_def mm_lo_def mm_hi_def)
  then have "free_set st = {257..<1024}"
    using S(3) len bm unfolding es by (auto simp: page_off_bitmap_def)
  moreover have "cursor st < highest_page st"
    using S(7,12) len bm h by (simp add: word_less_nat_alt)
  ultimately show "highest_page st = 1024 \<and> free_set st = {257..<1024} \<and> cursor st < highest_page st"
    using h by blast
qed

lemma roomy_init:
  assumes "pmm_init roomy_machine one_entry_info = Inr st"
  shows "highest_page st = 1024" "free_set st = {257..<1024}" "cursor st < highest_page st"
  using one_region_init(3) [OF example_map_entries example_info_map assms] by blast+

lemma one_page_init:
  assumes "pmm_init one_page_machine one_entry_info = Inr st"
  shows "highest_page st = 264" "free_set st = {}" "cursor st = highest_page st"
    "bitmap st = 0x107000" "bitmap_bytes st = 33"
proof -
  note S = pmm_init_spec [OF example_boot_map_ok(2) assms, unfolded example_info_map]
  have es: "map_entries (pmm_ram one_page_machine) 0x9000 (unat (1 :: u64)) = [usable_entry 0x107000 0x1000]"
    using example_map_entries [of "usable_entry 0x107000 0x1000"] by simp
  show h: "highest_page st = 264"
    using S(9) example_extent(2) by (simp add: PAGE_SIZE_def)
  then have len: "unat (bitmap_bytes st) = 33" using S(1) by (simp add: counted_def bitmap_ok_def)
  then show by33: "bitmap_bytes st = 33" by (simp add: word_unat_eq_iff)
  then show bm: "bitmap st = 0x107000"
    using S(11) by (simp add: example_map_entry usable_entry_def)
  have "usable_pages_of [usable_entry 0x107000 0x1000] = {263}"
    by (auto simp: usable_pages_of_Cons entry_pages_def usable_entry_def mm_lo_def mm_hi_def)
  then show "free_set st = {}"
    using S(3) len bm unfolding es by (auto simp: page_off_bitmap_def)
  show "cursor st = highest_page st"
    using S(7,12) len bm h by (simp add: word_unat_eq_iff)
qed

text \<open>
  C12: \<^verbatim>\<open>pmm_init\<close> frees exactly the usable pages above 1 MiB that hold no part of the bitmap; the
  bitmap lies inside a usable region at or above 1 MiB; the counters are the cardinalities they
  are named after; and no byte of memory outside the bitmap changes.
\<close>

theorem pmm_init_accounts:
  assumes "boot_map_ok (pmm_ram st) (bi_memmap bi) (unat (bi_memmap_count bi))"
    and "pmm_init st bi = Inr st'"
  shows "free_set st' = {n \<in> usable_pages_of (map_entries (pmm_ram st) (bi_memmap bi)
        (unat (bi_memmap_count bi))). 256 \<le> n \<and> page_off_bitmap st' n} \<and>
    bitmap_placed st' (map_entries (pmm_ram st) (bi_memmap bi) (unat (bi_memmap_count bi))) \<and>
    unat (free_pages st') = card (free_set st') \<and> allocator_pages st' = free_pages st' \<and>
    unat (usable_pages st') = card (usable_pages_of (map_entries (pmm_ram st) (bi_memmap bi)
        (unat (bi_memmap_count bi))) - {0}) \<and>
    (\<forall>x. in_range x (bitmap st') (unat (bitmap_bytes st')) \<or> pmm_ram st' x = pmm_ram st x)"
  using pmm_init_spec [OF assms] by (auto simp: counted_def)

theorem pmm_init_accounts_witness:
  "\<exists>st. pmm_init roomy_machine one_entry_info = Inr st \<and> unat (free_pages st) = 767 \<and>
     unat (usable_pages st) = 768"
proof -
  obtain st where i: "pmm_init roomy_machine one_entry_info = Inr st" using example_init_Inr by blast
  have es: "map_entries (pmm_ram roomy_machine) (bi_memmap one_entry_info)
      (unat (bi_memmap_count one_entry_info)) = [usable_entry 0x100000 0x300000]"
    using example_map_entries [of "usable_entry 0x100000 0x300000"] by (simp add: example_info_map)
  have "usable_pages_of [usable_entry 0x100000 0x300000] - {0} = {256..<1024}"
    by (auto simp: usable_pages_of_Cons entry_pages_def usable_entry_def mm_lo_def mm_hi_def)
  with pmm_init_accounts [OF example_boot_map_ok(1) i, unfolded es] roomy_init [OF i] i
  show ?thesis by auto
qed

text \<open>
  C13: \<^verbatim>\<open>pmm_alloc_page\<close> terminates; it returns 0 exactly when no page is free (the next-fit scan
  with its eight-page skips misses none), and otherwise the address of a free page, which is then
  taken and nothing else changes; memory outside the bitmap is untouched.
\<close>

theorem pmm_alloc_page_correct:
  assumes "pmm_inv managed st"
  shows "\<exists>st' a. pmm_alloc_page st = Some (st', a) \<and> pmm_inv managed st' \<and>
    (if free_set st = {} then a = 0 \<and> free_set st' = {}
     else \<exists>n\<in>free_set st. a = page n \<and> a \<noteq> 0 \<and> free_set st' = free_set st - {n}) \<and>
    (\<forall>x. in_range x (bitmap st) (unat (bitmap_bytes st)) \<or> pmm_ram st' x = pmm_ram st x)"
proof (cases "free_set st = {}")
  case True
  then show ?thesis using pmm_alloc_page_spec [OF assms] by auto
next
  case False
  then obtain st' n where n: "pmm_alloc_page st = Some (st', page n)" "n \<in> free_set st"
    "pmm_inv managed st'" "free_set st' = free_set st - {n}"
    "\<forall>x. \<not> in_range x (bitmap st) (unat (bitmap_bytes st)) \<longrightarrow> pmm_ram st' x = pmm_ram st x"
    using pmm_alloc_page_spec [OF assms] unfolding page_def by (simp, blast)
  moreover have "n \<in> managed" using assms n(2) by (auto simp: pmm_inv_def)
  then have "page n \<noteq> 0" using page_inj_managed [OF assms] by blast
  ultimately show ?thesis using False by auto
qed

theorem pmm_alloc_page_correct_witness:
  "\<exists>st st' a. pmm_init roomy_machine one_entry_info = Inr st \<and>
     pmm_alloc_page st = Some (st', a) \<and> a \<noteq> 0 \<and> pmm_inv {257..<1024} st'"
proof -
  obtain st where i: "pmm_init roomy_machine one_entry_info = Inr st" using example_init_Inr by blast
  note R = roomy_init [OF i]
  from pmm_inv_init [OF example_boot_map_ok(1) i R(3)] R(2) have "pmm_inv {257..<1024} st" by simp
  from pmm_alloc_page_correct [OF this] R(2) i show ?thesis by auto
qed

text \<open>
  C15: allocating a page and freeing it again restores the set of free pages and the counter, and
  keeps the allocator's invariant.
\<close>

theorem pmm_alloc_free_roundtrip:
  assumes "pmm_inv managed st" and "free_set st \<noteq> {}"
  shows "\<exists>st1 a st2. pmm_alloc_page st = Some (st1, a) \<and> pmm_free_page st1 a = Inr st2 \<and>
    pmm_inv managed st2 \<and> free_set st2 = free_set st \<and> free_pages st2 = free_pages st"
proof -
  have own: "pmm_owns managed st []" using assms(1) by (simp add: owns_def)
  from pmm.alloc_owns [OF own assms(2)] obtain st1 n where
    a: "pmm_alloc_page st = Some (st1, page n)" "n \<in> free_set st" "pmm_owns managed st1 [n]"
      "free_set st1 = free_set st - {n}" by auto
  from pmm.release_owns [OF a(3)] obtain st2 where
    r: "pmm_free_page st1 (page n) = Inr st2" "pmm_owns managed st2 []"
      "free_set st2 = insert n (free_set st1)" by blast
  have fs: "free_set st2 = free_set st" using a(2,4) r(3) by auto
  moreover have inv: "pmm_inv managed st2" using r(2) by (simp add: owns_def)
  ultimately have "free_pages st2 = free_pages st"
    using assms(1) by (simp add: pmm_inv_def word_unat_eq_iff)
  with a(1) r(1) fs inv show ?thesis by blast
qed

theorem pmm_alloc_free_roundtrip_witness:
  "\<exists>st st1 a st2. pmm_init roomy_machine one_entry_info = Inr st \<and>
     pmm_alloc_page st = Some (st1, a) \<and> pmm_free_page st1 a = Inr st2 \<and> free_set st2 = {257..<1024}"
proof -
  obtain st where i: "pmm_init roomy_machine one_entry_info = Inr st" using example_init_Inr by blast
  note R = roomy_init [OF i]
  from pmm_inv_init [OF example_boot_map_ok(1) i R(3)] R(2) have "pmm_inv {257..<1024} st" by simp
  from pmm_alloc_free_roundtrip [OF this] R(2) i show ?thesis by auto
qed

text \<open>
  C16: \<^verbatim>\<open>pmm_free_page\<close> panics exactly on an unaligned address, an address beyond the tracked memory
  or a page that is already free, each with its own message, and otherwise frees that page only.
  It does not tell reserved pages from allocated ones.
\<close>

theorem pmm_free_page_decides:
  assumes "bitmap_ok st"
  shows "(unat addr mod 4096 \<noteq> 0 \<and> pmm_free_page st addr = Inl (Panic_free_unaligned addr)) \<or>
    (unat addr mod 4096 = 0 \<and> unat (highest_page st) \<le> unat addr div 4096 \<and>
       pmm_free_page st addr = Inl (Panic_free_out_of_range addr)) \<or>
    (unat addr mod 4096 = 0 \<and> unat addr div 4096 \<in> free_set st \<and>
       pmm_free_page st addr = Inl (Panic_double_free addr)) \<or>
    (\<exists>st'. pmm_free_page st addr = Inr st' \<and> unat addr mod 4096 = 0 \<and>
       unat addr div 4096 \<notin> free_set st \<and>
       free_set st' = insert (unat addr div 4096) (free_set st) \<and> free_pages st' = free_pages st + 1)"
proof -
  have d: "unat (addr div PAGE_SIZE) = unat addr div 4096" by (simp add: PAGE_SIZE_def unat_div_distrib)
  show ?thesis
    using free_set_bit_clear [of "addr div PAGE_SIZE" st] d
    by (auto simp: pmm_free_page_cases [OF assms] Let_def)
qed

theorem pmm_free_page_decides_witness:
  "\<exists>st. pmm_init roomy_machine one_entry_info = Inr st \<and>
     pmm_free_page st 0x101000 = Inl (Panic_double_free 0x101000)"
proof -
  obtain st where i: "pmm_init roomy_machine one_entry_info = Inr st" using example_init_Inr by blast
  note R = roomy_init [OF i]
  have "bitmap_ok st" using pmm_inv_init [OF example_boot_map_ok(1) i R(3)] by (simp add: pmm_inv_def)
  from pmm_free_page_decides [OF this, of "0x101000"] R(1,2) i show ?thesis by auto
qed

text \<open>
  C14: from a valid allocator the boot self-test terminates without a panic and decides whether
  512 pages are free: with as many it passes and leaves the same pages free (its patterns never
  touch the bitmap), with fewer it reports exhaustion after exactly the pages there were.
\<close>

theorem pmm_selftest_decides:
  assumes "pmm_inv managed st"
  shows "\<exists>st'. pmm_selftest st =
    Some (Inr (st', if 512 \<le> card (free_set st) then Selftest_ok
                    else Selftest_exhausted (card (free_set st)))) \<and>
    (card (free_set st) < 512 \<or> pmm_inv managed st' \<and> free_set st' = free_set st)"
  using pmm_selftest_ok_aux [OF assms] pmm_selftest_exhausted_aux [OF assms]
  by (cases "512 \<le> card (free_set st)") (auto simp: ST_PAGES_def)

theorem pmm_selftest_decides_witness:
  "\<exists>st st'. pmm_init roomy_machine one_entry_info = Inr st \<and>
     pmm_selftest st = Some (Inr (st', Selftest_ok)) \<and> free_set st' = {257..<1024}"
proof -
  obtain st where i: "pmm_init roomy_machine one_entry_info = Inr st" using example_init_Inr by blast
  note R = roomy_init [OF i]
  from pmm_inv_init [OF example_boot_map_ok(1) i R(3)] R(2) have "pmm_inv {257..<1024} st" by simp
  from pmm_selftest_decides [OF this] R(2) i show ?thesis by auto
qed

text \<open>
  C17: \<^verbatim>\<open>pmm_init\<close> leaves the next-fit cursor one past the last tracked page when the bitmap ends
  at the top of usable memory.  If the number of pages is a multiple of 8, the first allocation
  then reads the byte after the bitmap and, when its low bit happens to be clear, hands out the
  page after the end of usable memory and decrements the counter, whatever is free.
\<close>

theorem pmm_alloc_past_end:
  assumes "boot_map_ok (pmm_ram st) (bi_memmap bi) (unat (bi_memmap_count bi))"
    and "pmm_init st bi = Inr st'" and "cursor st' = highest_page st'"
    and "unat (highest_page st') mod 8 = 0" and "highest_page st' \<noteq> 0"
    and "\<not> bit (pmm_ram st (bitmap st' + bitmap_bytes st')) 0"
  shows "\<exists>st2. pmm_alloc_page st' = Some (st2, highest_page st' * PAGE_SIZE) \<and>
    free_pages st2 = free_pages st' - 1 \<and>
    unat (highest_page st') \<notin> usable_pages_of (map_entries (pmm_ram st) (bi_memmap bi)
      (unat (bi_memmap_count bi)))"
proof -
  note S = pmm_init_spec [OF assms(1,2)]
  let ?H = "highest_page st'" and ?es = "map_entries (pmm_ram st) (bi_memmap bi) (unat (bi_memmap_count bi))"
  have ok: "bitmap_ok st'" using S(1) by (simp add: counted_def)
  obtain e where e: "e \<in> set ?es" "unat (bitmap st') + unat (bitmap_bytes st') \<le> mm_hi e"
    using S(2) by (auto simp: bitmap_placed_def)
  then have lt: "unat (bitmap st') + unat (bitmap_bytes st') < 2 ^ 64"
    using assms(1) by (fastforce simp: boot_map_ok_def map_wf_def entry_wf_def)
  have d: "drop_bit 3 ?H = bitmap_bytes st'"
    using ok assms(4) by (simp add: word_unat_eq_iff unat_drop_3 bitmap_ok_def) presburger
  have "unat (bitmap st' + bitmap_bytes st') = unat (bitmap st') + unat (bitmap_bytes st')"
    using lt by (simp add: unat_word_ariths)
  then have "\<not> in_range (bitmap st' + bitmap_bytes st') (bitmap st') (unat (bitmap_bytes st'))"
    by (simp add: in_range_def)
  then have byte: "\<not> bit (bitmap_byte st' (drop_bit 3 ?H)) 0"
    using S(6) assms(6) by (simp add: bitmap_byte_def d)
  then have nb: "\<not> bit_test st' ?H"
    using assms(4) by (simp add: bit_test_iff)
  have nf: "bitmap_byte st' (drop_bit 3 ?H) \<noteq> 0xFF"
  proof
    assume "bitmap_byte st' (drop_bit 3 ?H) = 0xFF"
    then have "bitmap_byte st' (drop_bit 3 ?H) = -1" by simp
    with byte show False by (simp only: bit_minus_1_iff) simp
  qed
  have "pmm_alloc_page st' = Some (took_page st' (unat ?H) ((?H + 1) mod ?H), ?H * PAGE_SIZE)"
    unfolding pmm_alloc_page_def using assms(3,5) nb nf
    by (subst pmm_scan.simps) (simp add: Let_def took_page_def bitmap_byte_def word_neq_0_conv)
  moreover have "unat ?H \<notin> usable_pages_of ?es" using S(10) by blast
  ultimately show ?thesis by (auto simp: took_page_def Let_def)
qed

theorem pmm_alloc_past_end_witness:
  "\<exists>st st2. pmm_init one_page_machine one_entry_info = Inr st \<and> free_set st = {} \<and>
     pmm_alloc_page st = Some (st2, 0x108000)"
proof -
  obtain st where i: "pmm_init one_page_machine one_entry_info = Inr st" using example_init_Inr by blast
  note R = one_page_init [OF i]
  have "pmm_ram one_page_machine (bitmap st + bitmap_bytes st) = 0"
    unfolding R by (simp add: example_machine_def ram_store_def sizeof_entry_def)
  then have "\<not> bit (pmm_ram one_page_machine (bitmap st + bitmap_bytes st)) 0" by simp
  from pmm_alloc_past_end [OF example_boot_map_ok(2) i R(3) _ _ this] R(1,2) i
  show ?thesis by (auto simp: PAGE_SIZE_def)
qed

end
