(* ===== verification/Kmain.thy ===== *)
theory Kmain
  imports Panic Cpu Gdt Pmm Program
begin

text \<open>
  The kernel's entry, \<^verbatim>\<open>kmain\<close> of \<^verbatim>\<open>kernel/main.c\<close>: it runs the components' initialisers in order,
  prints a line for each and panics if a mandatory step fails.  The kernel's state (\<open>kernel\<close>) holds
  the state of every component.  The serial port and the interrupt hardware answer on disjoint
  ports, so each driver keeps the trace of its own ports.  What the machine does is a parameter:
  the two devices, the CPUID instruction, the addresses the linker chose, the cycle counts of the
  self-test, and the interrupts that arrive at each point where the flag is set (\<open>arrivals\<close>).
  The test-fault build (\<^verbatim>\<open>SYPAS_TEST_FAULT\<close>) is left out.
\<close>

unbundle bit_operations_syntax

section \<open>State\<close>

record kernel =
  k_console :: "kernel_sink console"
  k_machine :: machine
  k_gdt :: gdt_state
  k_irq :: irq_state
  k_pmm :: pmm_state

record hardware =
  hw_uart :: device
  hw_pic :: device
  hw_cpuid :: cpuid
  hw_stubs :: "nat \<Rightarrow> u64"
  hw_idt_address :: u64
  hw_gdt_address :: u64
  hw_alloc_cycles :: u64
  hw_free_cycles :: u64

record arrivals =
  ar_enabled :: "irq_event list"          \<comment> \<open>from \<open>sti\<close> to the first read of the counter\<close>
  ar_sleep :: "irq_event list list"       \<comment> \<open>while \<open>sleep_ticks\<close> waits\<close>
  ar_woken :: "irq_event list"            \<comment> \<open>from its return to the second read\<close>
  ar_banner :: "irq_event list"           \<comment> \<open>until \<open>timer_ms\<close>\<close>
  ar_settled :: "irq_event list"          \<comment> \<open>until the idle loop first reads the counter\<close>

text \<open>
  Why the kernel does not go on: a panic with its message, printing that runs past the end of a
  string, a processor that sleeps for ever, an interrupt the dispatcher panics on.
\<close>

datatype kernel_stop = Panic_halt "u8 list" "arg list" | Overrun | Asleep | Fault

type_synonym 'a kern = "(kernel, kernel_stop, 'a) program"

definition look :: "(kernel \<Rightarrow> 'a) \<Rightarrow> 'a kern" where
  "look f = (\<lambda>k. (Inr (f k), k))"

definition change :: "(kernel \<Rightarrow> kernel) \<Rightarrow> unit kern" where
  "change f = (\<lambda>k. (Inr (), f k))"

definition say :: "hardware \<Rightarrow> u8 list \<Rightarrow> arg list \<Rightarrow> unit kern" where
  "say hw fmt ap = (\<lambda>k. case kprintf (sink_putc (hw_uart hw)) (k_console k) fmt ap (k_machine k) of
     None \<Rightarrow> (Inl Overrun, k) | Some w \<Rightarrow> (Inr (), k\<lparr>k_machine := w\<rparr>))"

definition give_up :: "hardware \<Rightarrow> u8 list \<Rightarrow> arg list \<Rightarrow> 'a kern" where
  "give_up hw fmt ap = (\<lambda>k. case panic (hw_uart hw) (k_console k) fmt ap (k_machine k) of
     None \<Rightarrow> (Inl Overrun, k) | Some w \<Rightarrow> (Inl (Panic_halt fmt ap), k\<lparr>k_machine := w\<rparr>))"

definition deliver :: "hardware \<Rightarrow> irq_event list \<Rightarrow> unit kern" where
  "deliver hw es = (\<lambda>k. case deliver_all (hw_pic hw) es (k_irq k) of
     None \<Rightarrow> (Inl Fault, k) | Some t \<Rightarrow> (Inr (), k\<lparr>k_irq := t\<rparr>))"

text \<open>The boot information structure, read where the pointer leads, and a C string literal.\<close>

definition info_at :: "u64 \<Rightarrow> kernel \<Rightarrow> sypas_bootinfo" where
  "info_at bi k = decode_bootinfo (ram_bytes (pmm_ram (k_pmm k)) bi SYPAS_BOOTINFO_V1_0_SIZE)"

definition literal :: "string \<Rightarrow> arg" where
  "literal s = Arg_str (Some (bytes_of s @ [0]))"

definition flag :: "bool \<Rightarrow> arg" where
  "flag b = Arg_int (if b then 1 else 0)"

section \<open>The steps of kmain\<close>

definition memtype_name :: "u32 \<Rightarrow> string" where
  "memtype_name t =
    (if t = SYPAS_MEM_USABLE then ''usable''
     else if t = SYPAS_MEM_RESERVED then ''reserved''
     else if t = SYPAS_MEM_ACPI_RECLAIM then ''acpi-reclaim''
     else if t = SYPAS_MEM_ACPI_NVS then ''acpi-nvs''
     else if t = SYPAS_MEM_MMIO then ''mmio''
     else if t = SYPAS_MEM_LOADER then ''loader''
     else if t = SYPAS_MEM_KERNEL then ''kernel''
     else if t = SYPAS_MEM_FIRMWARE then ''firmware''
     else ''?'')"

definition start_console :: "hardware \<Rightarrow> u8 list \<Rightarrow> unit kern" where
  "start_console hw version =
     andthen (look (\<lambda>k. serial_init (hw_uart hw) (uart_driver (k_machine k)))) (\<lambda>(serial_ok, u).
     in_turn
      [change (\<lambda>k. k\<lparr>k_machine := (k_machine k)\<lparr>uart_driver := u\<rparr>,
         k_console := console_register Serial_putc (k_console k)\<rparr>),
       say hw ([10] @ line_fmt ''SYPAS KERNEL %s'') [Arg_str (Some version)],
       say hw (bytes_of ''============'' @ [10, 10] @ bytes_of ''Booting SYPAS...'' @ [10, 10, 0]) [],
       unless (\<not> serial_ok) (say hw (line_fmt ''[uart] COM1 115200 8N1, loopback self-test passed'') [])])"

definition check_boot_info :: "hardware \<Rightarrow> u64 \<Rightarrow> unit kern" where
  "check_boot_info hw bi =
     andthen (unless (bi \<noteq> 0) (give_up hw (word_fmt ''boot: NULL bootinfo'') [])) (\<lambda>_.
     andthen (look (info_at bi)) (\<lambda>b.
     in_turn
      [unless (bi_magic b = SYPAS_BOOT_MAGIC)
         (give_up hw (word_fmt ''boot: bad magic %lx'') [Arg_long (bi_magic b)]),
       unless (bi_version_major b = SYPAS_BOOT_VERSION_MAJOR)
         (give_up hw (word_fmt ''boot: unsupported protocol major %u (kernel speaks %u)'')
           [Arg_int (ucast (bi_version_major b)), Arg_int (ucast SYPAS_BOOT_VERSION_MAJOR)]),
       unless (\<not> bi_size b < of_nat SYPAS_BOOTINFO_V1_0_SIZE)
         (give_up hw (word_fmt ''boot: short bootinfo (%u bytes, need %u)'')
           [Arg_int (bi_size b), Arg_int (of_nat SYPAS_BOOTINFO_V1_0_SIZE)]),
       say hw (line_fmt ''[boot] SYPAS boot protocol v%u.%u, bootinfo at %p'')
         [Arg_int (ucast (bi_version_major b)), Arg_int (ucast (bi_version_minor b)), Arg_ptr bi],
       say hw (line_fmt ''[boot] kernel image: base=%lx size=%lu KiB, stack=%lx'')
         [Arg_long (bi_kernel_phys_base b), Arg_long (bi_kernel_size b div 1024), Arg_long (bi_stack_base b)],
       unless (hd (bi_cmdline b) = 0)
         (say hw (line_fmt ''[boot] cmdline: %s'') [Arg_str (Some (bi_cmdline b))])]))"

text \<open>\<open>cpu0\<close> is what the automatic variable \<^verbatim>\<open>cpu\<close> happens to hold.\<close>

definition identify_cpu :: "hardware \<Rightarrow> cpu_info \<Rightarrow> cpu_info kern" where
  "identify_cpu hw cpu0 =
     (let cpu = cpu_identify (hw_cpuid hw) cpu0 in
      andthen (in_turn
       [say hw (line_fmt ''[cpu ] %s (%s) family %u model %u stepping %u'')
          [if hd (brand cpu) \<noteq> 0 then Arg_str (Some (brand cpu)) else literal ''unknown brand'',
           Arg_str (Some (vendor cpu)), Arg_int (family cpu), Arg_int (model cpu), Arg_int (stepping cpu)],
        say hw (line_fmt ''[cpu ] features: tsc=%d apic=%d sse2=%d nx=%d 1g-pages=%d'')
          [flag (has_tsc cpu), flag (has_apic cpu), flag (has_sse2 cpu), flag (has_nx cpu),
           flag (has_1gb_pages cpu)]])
       (\<lambda>_. give cpu))"

definition start_tables :: "hardware \<Rightarrow> unit kern" where
  "start_tables hw = in_turn
    [change (\<lambda>k. k\<lparr>k_gdt := gdt_init (hw_gdt_address hw) (k_gdt k)\<rparr>),
     say hw (line_fmt ''[gdt ] kernel GDT loaded (ring0 code/data), segments reloaded'') [],
     change (\<lambda>k. k\<lparr>k_irq := idt_init (hw_stubs hw) (hw_idt_address hw) (k_irq k)\<rparr>),
     say hw (line_fmt ''[idt ] 256-entry IDT: 32 exceptions, 16 IRQs, private test gate, defaults armed'') [],
     change (\<lambda>k. k\<lparr>k_irq := pic_init (k_irq k)\<rparr>),
     say hw (line_fmt ''[pic ] 8259 remapped to vectors 32-47, all IRQs masked'') []]"

text \<open>The loop over the boot memory map; it returns the bytes of usable memory.\<close>

fun list_memory :: "hardware \<Rightarrow> u64 \<Rightarrow> nat \<Rightarrow> nat \<Rightarrow> u64 \<Rightarrow> u64 kern" where
  "list_memory hw map_base i 0 usable = give usable"
| "list_memory hw map_base i (Suc n) usable =
     andthen (look (\<lambda>k. map_entry (pmm_ram (k_pmm k)) map_base i)) (\<lambda>e.
     andthen (say hw (line_fmt ''[mem ]   %016lx +%12lx %s'')
       [Arg_long (mm_base e), Arg_long (mm_length e), literal (memtype_name (mm_type e))]) (\<lambda>_.
     list_memory hw map_base (Suc i) n
       (if mm_type e = SYPAS_MEM_USABLE then usable + mm_length e else usable)))"

fun pmm_message :: "pmm_panic \<Rightarrow> u8 list \<times> arg list" where
  "pmm_message Panic_no_usable_memory = (word_fmt ''pmm: no usable memory in boot memory map'', [])"
| "pmm_message (Panic_no_bitmap_region kib) =
     (word_fmt ''pmm: no region large enough for %lu KiB bitmap'', [Arg_long kib])"
| "pmm_message (Panic_free_unaligned a) = (word_fmt ''pmm: free of unaligned address %lx'', [Arg_long a])"
| "pmm_message (Panic_free_out_of_range a) = (word_fmt ''pmm: free of out-of-range address %lx'', [Arg_long a])"
| "pmm_message (Panic_double_free a) = (word_fmt ''pmm: double free of page %lx'', [Arg_long a])"

fun selftest_line :: "hardware \<Rightarrow> selftest_report \<Rightarrow> u8 list \<times> arg list" where
  "selftest_line hw Selftest_ok =
     (line_fmt ''[pmm ] selftest: %u alloc+free OK, ~%lu cycles/alloc, ~%lu cycles/free (TSC, VM-measured)'',
      [Arg_int (of_nat ST_PAGES), Arg_long (hw_alloc_cycles hw div of_nat ST_PAGES),
       Arg_long (hw_free_cycles hw div of_nat ST_PAGES)])"
| "selftest_line hw (Selftest_exhausted i) =
     (line_fmt ''[pmm ] selftest: exhausted at %d pages'', [Arg_int (of_nat i)])"
| "selftest_line hw (Selftest_duplicate a) = (line_fmt ''[pmm ] selftest: duplicate page %lx'', [Arg_long a])"
| "selftest_line hw (Selftest_mismatch a) =
     (line_fmt ''[pmm ] selftest: pattern mismatch at %lx'', [Arg_long a])"
| "selftest_line hw (Selftest_leak before after) =
     (line_fmt ''[pmm ] selftest: leak: %lu -> %lu pages'', [Arg_long before, Arg_long after])"

definition run_selftest :: "hardware \<Rightarrow> unit kern" where
  "run_selftest hw =
     andthen (look (\<lambda>k. pmm_selftest (k_pmm k))) (\<lambda>res.
     case res of
       None \<Rightarrow> stop_with Asleep
     | Some (Inl p) \<Rightarrow> give_up hw (fst (pmm_message p)) (snd (pmm_message p))
     | Some (Inr (st, report)) \<Rightarrow> in_turn
         [change (\<lambda>k. k\<lparr>k_pmm := st\<rparr>),
          say hw (fst (selftest_line hw report)) (snd (selftest_line hw report)),
          unless (report = Selftest_ok) (give_up hw (word_fmt ''pmm: self-test failed'') [])])"

definition start_memory :: "hardware \<Rightarrow> u64 \<Rightarrow> u64 kern" where
  "start_memory hw bi =
     andthen (look (info_at bi)) (\<lambda>b.
     andthen (say hw (line_fmt ''[mem ] boot memory map: %lu entries'') [Arg_long (bi_memmap_count b)]) (\<lambda>_.
     andthen (list_memory hw (bi_memmap b) 0 (unat (bi_memmap_count b)) 0) (\<lambda>usable.
     andthen (say hw (line_fmt ''[mem ] usable RAM: %lu MiB'') [Arg_long (usable div (1024 * 1024))]) (\<lambda>_.
     andthen (look (\<lambda>k. pmm_init (k_pmm k) b)) (\<lambda>res.
     case res of
       Inl p \<Rightarrow> give_up hw (fst (pmm_message p)) (snd (pmm_message p))
     | Inr st \<Rightarrow>
       andthen (change (\<lambda>k. k\<lparr>k_pmm := st\<rparr>)) (\<lambda>_.
       andthen (look (\<lambda>k. pmm_get_stats (k_pmm k))) (\<lambda>ps.
       andthen (say hw (line_fmt ''[pmm ] bitmap allocator: %lu usable candidates, %lu allocator pages, %lu free, bitmap %lu KiB'')
         [Arg_long (ps_usable_pages ps), Arg_long (ps_allocator_pages ps), Arg_long (ps_free_pages ps),
          Arg_long (ps_bitmap_bytes ps div 1024)]) (\<lambda>_.
       andthen (run_selftest hw) (\<lambda>_. give usable)))))))))"

definition start_screen :: "hardware \<Rightarrow> u64 \<Rightarrow> bool kern" where
  "start_screen hw bi =
     andthen (look (info_at bi)) (\<lambda>b.
     andthen (look (\<lambda>k. fbcon_init b (screen_driver (k_machine k)))) (\<lambda>(fb_ok, fb).
     andthen (change (\<lambda>k. k\<lparr>k_machine := (k_machine k)\<lparr>screen_driver := fb\<rparr>\<rparr>)) (\<lambda>_.
     andthen
       (if fb_ok then in_turn
          [change (\<lambda>k. k\<lparr>k_console := console_register Fbcon_putc (k_console k)\<rparr>),
           say hw (line_fmt ''[fb  ] %ux%u, pitch %u, %s, console on framebuffer + serial'')
             [Arg_int (bi_fb_width b), Arg_int (bi_fb_height b), Arg_int (bi_fb_pitch b),
              literal (if bi_fb_format b = SYPAS_FB_XRGB8888 then ''xrgb8888'' else ''xbgr8888'')]]
        else say hw (line_fmt ''[fb  ] no usable linear framebuffer, serial console only'') []) (\<lambda>_.
     andthen (say hw (line_fmt ''[acpi] RSDP %s at %lx'')
       [literal (if bi_acpi_rsdp b \<noteq> 0 then ''found'' else ''NOT found''), Arg_long (bi_acpi_rsdp b)]) (\<lambda>_.
     give fb_ok)))))"

definition sleep_for :: "hardware \<Rightarrow> u64 \<Rightarrow> irq_event list list \<Rightarrow> unit kern" where
  "sleep_for hw n ws = (\<lambda>k. case sleep_ticks (hw_pic hw) n ws (k_irq k) of
     None \<Rightarrow> (Inl Asleep, k) | Some (t, rest) \<Rightarrow> (Inr (), k\<lparr>k_irq := t\<rparr>))"

definition test_interrupts :: "hardware \<Rightarrow> arrivals \<Rightarrow> unit kern" where
  "test_interrupts hw ar =
     andthen (look (\<lambda>k. isr_test_hits (k_irq k))) (\<lambda>hits_before.
     andthen (deliver hw [Self_test]) (\<lambda>_.
     andthen (deliver hw [Self_test]) (\<lambda>_.
     andthen (look (\<lambda>k. isr_test_hits (k_irq k))) (\<lambda>hits.
     andthen (in_turn
       [unless (hits = hits_before + 2)
          (give_up hw (word_fmt ''idt: software interrupt dispatch failed (%lu hits)'') [Arg_long hits]),
        say hw (line_fmt ''[int ] software interrupt dispatch verified (private vector 0xF0 x2)'') [],
        change (\<lambda>k. k\<lparr>k_irq := pit_init (hw_pic hw) (k_irq k)\<rparr>),
        deliver hw (ar_enabled ar)]) (\<lambda>_.
     andthen (look (\<lambda>k. timer_ticks (k_irq k))) (\<lambda>t0.
     andthen (in_turn [sleep_for hw 25 (ar_sleep ar), deliver hw (ar_woken ar)]) (\<lambda>_.
     andthen (look (\<lambda>k. timer_ticks (k_irq k) - t0)) (\<lambda>delta.
     in_turn
       [unless (\<not> delta < 25)
          (give_up hw (word_fmt ''pit: timer not ticking (delta=%lu)'') [Arg_long delta]),
        say hw (line_fmt ''[pit ] 100 Hz timer alive: %lu IRQs in 250 ms window'') [Arg_long delta]]))))))))"

definition announce :: "hardware \<Rightarrow> arrivals \<Rightarrow> cpu_info \<Rightarrow> u64 \<Rightarrow> bool \<Rightarrow> unit kern" where
  "announce hw ar cpu usable fb_ok =
     andthen (in_turn
       [say hw ([10] @ bytes_of ''SYPAS'' @ [10] @ bytes_of ''====='' @ [10, 10, 0]) [],
        say hw (line_fmt ''Bootloader: OK   (SYPAS UEFI loader, boot protocol v1)'') [],
        say hw (line_fmt ''CPU:        OK   (%s)'') [Arg_str (Some (vendor cpu))],
        say hw (line_fmt ''Memory:     OK   (%lu MiB usable, pmm self-test passed)'')
          [Arg_long (usable div (1024 * 1024))],
        say hw (line_fmt ''Interrupts: OK   (exceptions armed, PIT verified)'') [],
        say hw (line_fmt ''Framebuffer:%s'')
          [literal (if fb_ok then '' OK  (GOP linear framebuffer)'' else '' ABSENT (serial only)'')],
        deliver hw (ar_banner ar)]) (\<lambda>_.
     andthen (look (\<lambda>k. timer_ms (k_irq k))) (\<lambda>ms.
     in_turn
       [say hw ([10] @ line_fmt ''SYPAS kernel initialized in %lu ms (kernel-side, PIT-timed).'') [Arg_long ms],
        say hw ([10] @ line_fmt ''SYSTEM STATUS: RUNNING'') [],
        deliver hw (ar_settled ar)]))"

text \<open>Everything before the idle loop; the value is \<^verbatim>\<open>last_beat\<close>.\<close>

definition kmain :: "hardware \<Rightarrow> arrivals \<Rightarrow> u8 list \<Rightarrow> cpu_info \<Rightarrow> u64 \<Rightarrow> u64 kern" where
  "kmain hw ar version cpu0 bi =
     andthen (start_console hw version) (\<lambda>_.
     andthen (check_boot_info hw bi) (\<lambda>_.
     andthen (identify_cpu hw cpu0) (\<lambda>cpu.
     andthen (start_tables hw) (\<lambda>_.
     andthen (start_memory hw bi) (\<lambda>usable.
     andthen (start_screen hw bi) (\<lambda>fb_ok.
     andthen (test_interrupts hw ar) (\<lambda>_.
     andthen (announce hw ar cpu usable fb_ok) (\<lambda>_.
     look (\<lambda>k. timer_ticks (k_irq k))))))))))"

text \<open>One turn of the idle loop: the interrupts up to the one that ends the halt, and the heartbeat.\<close>

definition idle_turn :: "hardware \<Rightarrow> irq_event list \<Rightarrow> u64 \<Rightarrow> u64 kern" where
  "idle_turn hw es last_beat =
     andthen (deliver hw es) (\<lambda>_.
     andthen (look (\<lambda>k. timer_ticks (k_irq k))) (\<lambda>now.
     if now - last_beat \<ge> 10 * PIT_HZ then
       andthen (look (\<lambda>k. pmm_get_stats (k_pmm k))) (\<lambda>ps.
       andthen (say hw (line_fmt ''[idle] uptime %lu s, free pages %lu'')
         [Arg_long (now div PIT_HZ), Arg_long (ps_free_pages ps)]) (\<lambda>_.
       give now))
     else give last_beat))"

fun idle :: "hardware \<Rightarrow> irq_event list list \<Rightarrow> u64 \<Rightarrow> u64 kern" where
  "idle hw [] last_beat = give last_beat"
| "idle hw (w # ws) last_beat = andthen (idle_turn hw w last_beat) (idle hw ws)"

end
