(* ===== verification/Formats.thy ===== *)
theory Formats
  imports Kprintf
begin

text \<open>
  Formats and arguments that belong together.  \<open>fits\<close> is a check by computation: the format ends
  inside its bytes, every conversion finds an argument of its type and length, and every string
  argument has its terminating zero.  Then the formatter returns (\<open>fits_prints\<close>).
\<close>

fun takes :: "nat \<Rightarrow> u8 \<Rightarrow> arg list \<Rightarrow> arg list option" where
  "takes l c (Arg_str (Some s) # ap) = (if c = 115 \<and> 0 \<in> set s then Some ap else None)"
| "takes l c (Arg_int v # ap) = (if l = 0 \<and> (c = 100 \<or> c = 117 \<or> c = 120) then Some ap else None)"
| "takes l c (Arg_long v # ap) = (if l \<noteq> 0 \<and> (c = 100 \<or> c = 117 \<or> c = 120) then Some ap else None)"
| "takes l c (Arg_ptr v # ap) = (if c = 112 then Some ap else None)"
| "takes l c ap = None"

function fits :: "u8 list \<Rightarrow> arg list \<Rightarrow> bool" where
  "fits [] ap = False"
| "fits (c # fmt) ap =
    (if c = 0 then True
     else if c \<noteq> 37 then fits fmt ap
     else (case parse_spec fmt of
             None \<Rightarrow> False
           | Some (zero, width, longs, l, rest) \<Rightarrow>
               (case takes longs l ap of None \<Rightarrow> False | Some ap \<Rightarrow> fits rest ap)))"
  by pat_completeness auto
termination
  by (relation "measure (\<lambda>(fmt, ap). length fmt)") (auto dest!: parse_spec_shorter)

lemma emit_str_ends: "0 \<in> set s \<Longrightarrow> \<exists>t'. emit_str collect s t = Some t'"
  by (induction s arbitrary: t) auto

lemma emit_uint_ends: "base = 10 \<or> base = 16 \<Longrightarrow> \<exists>t'. emit_uint collect v base upper width zero t = Some t'"
  by (simp add: emit_uint_text)

lemma takes_converts:
  assumes "takes l c ap = Some ap'"
  shows "\<exists>t. convert collect z wd l c ap [] = Some (ap', t)"
proof -
  have s: "0 \<in> set s \<Longrightarrow> \<exists>t. convert collect z wd l 115 (Arg_str (Some s) # ap'') [] = Some (ap'', t)" for s ap''
    using emit_str_ends [of s "[]"] by (auto simp: convert_def)
  have u: "\<exists>t. (case emit_uint collect v b up w zz t0 of Some t \<Rightarrow> Some (ap'', t) | None \<Rightarrow> None) = Some (ap'', t)"
    if "b = 10 \<or> b = 16" for v b up w zz t0 and ap'' :: "arg list"
    using emit_uint_ends [OF that, of v up w zz t0] by auto
  have p: "\<exists>t. convert collect z wd l 112 (Arg_ptr v # ap'') [] = Some (ap'', t)" for v ap''
    using emit_str_ends [of "bytes_of ''0x'' @ [0]" "[]"] u by (auto simp: convert_def)
  have i: "\<exists>t. convert collect z wd 0 c (Arg_int v # ap'') [] = Some (ap'', t)" if "c = 100 \<or> c = 117 \<or> c = 120" for v ap''
    using that u by (auto simp: convert_def Let_def)
  have n: "\<exists>t. convert collect z wd (Suc k) c (Arg_long v # ap'') [] = Some (ap'', t)"
    if "c = 100 \<or> c = 117 \<or> c = 120" for v ap'' k
    using that u by (auto simp: convert_def Let_def)
  from assms s p i n show ?thesis
    by (cases "(l, c, ap)" rule: takes.cases) (auto split: if_splits dest!: gr0_implies_Suc)
qed

lemma fits_prints: "fits fmt ap \<Longrightarrow> \<exists>t. sprintf fmt ap = Some t"
proof (induction fmt ap rule: fits.induct)
  case (2 c fmt ap)
  show ?case
  proof (cases "c = 37")
    case False
    with 2(1,3) show ?thesis by (cases "c = 0") (auto simp: sprintf_chr)
  next
    case c: True
    with 2(3) obtain z wd l c' rest ap' where p: "parse_spec fmt = Some (z, wd, l, c', rest)"
      and t: "takes l c' ap = Some ap'" and f: "fits rest ap'"
      by (auto split: option.splits)
    obtain u where "convert collect z wd l c' ap [] = Some (ap', u)" using takes_converts [OF t] by blast
    moreover have "\<exists>t'. sprintf rest ap' = Some t'" using 2(2) p t f c by fastforce
    ultimately show ?thesis by (auto simp: c sprintf_spec [OF p])
  qed
qed simp

end
