(* ===== verification/Bringup.thy ===== *)
theory Bringup
  imports Kmain Formats
begin

text \<open>
  That kmain boots.  Every step of src/kernel/main.c gets a lemma in the calculus of Program: from
  a state with what the step needs, it returns and leaves what the next one needs.  The lemmas
  compose to \<open>kmain_runs\<close> and, with the idle loop, to \<open>kmain_boots\<close>; \<open>kmain_refuses\<close> is
  the refusal of a boot information structure of another protocol.
\<close>

section \<open>Running the steps\<close>

lemma takes_flag [simp]: "takes l c (flag b # ap) = (if l = 0 \<and> (c = 100 \<or> c = 117 \<or> c = 120) then Some ap else None)"
  by (simp add: flag_def)

lemma takes_literal [simp]: "takes l c (literal t # ap) = (if c = 115 then Some ap else None)"
  by (simp add: literal_def)

lemma takes_if [simp]: "takes l c ((if b then Arg_str (Some s) else literal t) # ap) =
    (if c = 115 \<and> (b \<longrightarrow> 0 \<in> set s) then Some ap else None)"
  by (simp add: literal_def)

lemmas format_eval = line_fmt_def word_fmt_def bytes_of_def parse_spec_def

lemma runs_look [runs_rule]: "runs (look f) k Q = Q (f k) k"
  by (simp add: runs_def look_def)

lemma runs_change [runs_rule]: "runs (change f) k Q = Q () (f k)"
  by (simp add: runs_def change_def)

text \<open>What the steps leave of the state besides the console.\<close>

definition others :: "kernel \<Rightarrow> gdt_state \<times> irq_state \<times> pmm_state" where
  "others k = (k_gdt k, k_irq k, k_pmm k)"

lemma others_machine [simp]: "others (k\<lparr>k_machine := w\<rparr>) = others k"
  and others_console [simp]: "others (k\<lparr>k_console := c\<rparr>) = others k"
  by (simp_all add: others_def)

lemma others_eq: "others k' = others k \<Longrightarrow> k_gdt k' = k_gdt k \<and> k_irq k' = k_irq k \<and> k_pmm k' = k_pmm k"
  by (simp add: others_def)

lemma runs_say:
  assumes "fits fmt ap" and "\<And>w. Q () (k\<lparr>k_machine := w\<rparr>)"
  shows "runs (say hw fmt ap) k Q"
  using fits_prints [OF assms(1)] assms(2) by (auto simp: runs_def say_def kprintf_send)

lemma runs_if_say: "(c \<Longrightarrow> Q () k) \<Longrightarrow> (\<not> c \<Longrightarrow> runs p k Q) \<Longrightarrow> if c then Q () k else runs p k Q"
  by simp

lemma start_console_runs:
  assumes "0 \<in> set version"
  shows "runs (start_console hw version) k (\<lambda>_ k'. others k' = others k)"
  unfolding start_console_def using assms
  by (simp add: runs_rule split: prod.split)
    (intro allI impI conjI runs_say; simp add: format_eval)

definition boot_info_ok :: "u64 \<Rightarrow> sypas_bootinfo \<Rightarrow> bool" where
  "boot_info_ok bi b \<longleftrightarrow> bi \<noteq> 0 \<and> bi_magic b = SYPAS_BOOT_MAGIC \<and>
     bi_version_major b = SYPAS_BOOT_VERSION_MAJOR \<and> \<not> bi_size b < of_nat SYPAS_BOOTINFO_V1_0_SIZE \<and>
     0 \<in> set (bi_cmdline b)"

lemma check_boot_info_runs:
  assumes "boot_info_ok bi (info_at bi k)"
  shows "runs (check_boot_info hw bi) k (\<lambda>_ k'. others k' = others k)"
  unfolding check_boot_info_def using assms
  by (simp add: runs_rule boot_info_ok_def)
    (intro impI conjI runs_say; simp add: format_eval)

lemma list_memory_runs:
  "runs (list_memory hw b i n usable) k (\<lambda>_ k'. others k' = others k)"
proof (induction n arbitrary: i usable k)
  case (Suc n)
  show ?case
    by (simp add: runs_rule)
      (intro conjI impI; rule runs_say; (rule runs_post [OF Suc.IH])?; simp add: format_eval)
qed (simp add: runs_rule)

lemma start_tables_runs:
  "runs (start_tables hw) k (\<lambda>_ k'. others k' = (gdt_init (hw_gdt_address hw) (k_gdt k),
     pic_init (idt_init (hw_stubs hw) (hw_idt_address hw) (k_irq k)), k_pmm k))"
  unfolding start_tables_def
  by (simp add: runs_rule) (intro runs_say; simp add: format_eval runs_rule others_def)

text \<open>The processor's strings end inside their arrays.\<close>

lemma length_store_word: "4 * k + 4 \<le> length bs \<Longrightarrow> length (store_word k v bs) = length bs"
  by (simp add: store_word_def)

lemma zero_at: "i < length xs \<Longrightarrow> 0 \<in> set (xs[i := 0])"
  by (simp add: set_update_memI)

lemma cpu_identify_strings:
  assumes "length (vendor info) = 13" and "length (brand info) = 49"
  shows "0 \<in> set (vendor (cpu_identify cpuid info))" "0 \<in> set (brand (cpu_identify cpuid info))"
proof -
  let ?i = "cpu_features cpuid (reg_a (cpuid 0x80000000 0)) (cpu_signature cpuid (cpu_vendor cpuid info))"
  have v: "vendor ?i = vendor (cpu_vendor cpuid info)" "brand ?i = brand info"
    by (simp_all add: cpu_features_def cpu_signature_def cpu_vendor_def Let_def)
  have "0 \<in> set (vendor (cpu_vendor cpuid info))"
    unfolding cpu_vendor_def Let_def using assms(1) by (simp add: zero_at length_store_word)
  then show "0 \<in> set (vendor (cpu_identify cpuid info))"
    by (simp add: cpu_identify_def Let_def cpu_brand_def v)
  have "length (brand_leaves cpuid [0x80000002, 0x80000003, 0x80000004] 0 ((brand info)[0 := 0])) = 49"
    using assms(2) by (simp add: Let_def length_store_word)
  then show "0 \<in> set (brand (cpu_identify cpuid info))"
    using assms(2) by (simp add: cpu_identify_def Let_def cpu_brand_def v zero_at del: brand_leaves.simps)
qed

lemma identify_cpu_runs:
  assumes "length (vendor cpu0) = 13" and "length (brand cpu0) = 49"
  shows "runs (identify_cpu hw cpu0) k (\<lambda>cpu k'. others k' = others k \<and> 0 \<in> set (vendor cpu))"
proof -
  note z = cpu_identify_strings [OF assms, of "hw_cpuid hw"]
  show ?thesis unfolding identify_cpu_def Let_def
    by (simp add: runs_rule del: takes.simps)
      (intro conjI impI runs_say; simp add: format_eval z)
qed

text \<open>Memory: the allocator starts with 512 pages or more, so the self-test passes.\<close>

definition memory_ok :: "kernel \<Rightarrow> sypas_bootinfo \<Rightarrow> pmm_state \<Rightarrow> bool" where
  "memory_ok k b st \<longleftrightarrow> pmm_init (k_pmm k) b = Inr st \<and> pmm_inv (free_set st) st \<and> 512 \<le> card (free_set st)"

lemma run_selftest_runs:
  assumes "pmm_inv managed (k_pmm k)" and "512 \<le> card (free_set (k_pmm k))"
  shows "runs (run_selftest hw) k (\<lambda>_ k'. k_gdt k' = k_gdt k \<and> k_irq k' = k_irq k \<and>
    pmm_inv managed (k_pmm k') \<and> free_set (k_pmm k') = free_set (k_pmm k))"
proof -
  obtain st' where st: "pmm_selftest (k_pmm k) = Some (Inr (st', Selftest_ok))" "pmm_inv managed st'"
    "free_set st' = free_set (k_pmm k)"
    using pmm_selftest_ok_aux [OF assms(1)] assms(2) by (auto simp: ST_PAGES_def)
  show ?thesis unfolding run_selftest_def
    by (simp add: runs_rule st(1)) (rule runs_say; simp add: format_eval st(2,3))
qed

lemma start_memory_runs:
  assumes "memory_ok k (info_at bi k) st"
  shows "runs (start_memory hw bi) k (\<lambda>_ k'. k_gdt k' = k_gdt k \<and> k_irq k' = k_irq k \<and>
    pmm_inv (free_set st) (k_pmm k') \<and> free_set (k_pmm k') = free_set st)"
proof -
  have st: "pmm_init (k_pmm k) (info_at bi k) = Inr st" "pmm_inv (free_set st) st" "512 \<le> card (free_set st)"
    using assms by (simp_all add: memory_ok_def)
  show ?thesis unfolding start_memory_def
    apply (simp add: runs_rule)
    apply (rule runs_say, simp add: format_eval)
    apply (rule runs_post [OF list_memory_runs])
    apply (drule others_eq)
    apply (rule runs_say, simp add: format_eval)
    apply (simp add: st(1) runs_rule)
    apply (rule runs_say, simp add: format_eval)
    apply (rule runs_post [OF run_selftest_runs [where managed = "free_set st"]])
    using st(2,3) by simp_all
qed

lemma start_screen_runs:
  "runs (start_screen hw bi) k (\<lambda>_ k'. others k' = others k)"
  unfolding start_screen_def
  by (simp add: runs_rule split: prod.split) (intro allI impI conjI runs_say; simp add: format_eval)

text \<open>Interrupts: from the initialised controllers on, every event is handled and ticks are counted.\<close>

definition timer_lines :: "irq_event list \<Rightarrow> nat" where
  "timer_lines es = length (filter (\<lambda>e. e = Line 0) es)"

lemma timer_irqs_line_0:
  assumes "list_all event_ok es"
  shows "timer_irqs ((replicate 16 None)[0 := Some Pit_irq]) es = timer_lines es"
proof -
  have "(case e of Line n \<Rightarrow> (replicate 16 None)[0 := Some Pit_irq] ! n = Some Pit_irq | _ \<Rightarrow> False) \<longleftrightarrow> e = Line 0"
    if "event_ok e" for e
    using that by (cases e) (auto simp: nth_list_update nth_Cons' split: if_splits)
  with assms show ?thesis
    by (induction es) (auto simp: timer_irqs_def timer_lines_def)
qed

definition timer_ready :: "chip \<Rightarrow> chip \<Rightarrow> irq_state \<Rightarrow> bool" where
  "timer_ready m0 s0 s \<longleftrightarrow> irq_inv m0 s0 s \<and> irq_handlers s = (replicate 16 None)[0 := Some Pit_irq]"

lemma deliver_runs:
  assumes "pic_wired (hw_pic hw) m0 s0" and "timer_ready m0 s0 (k_irq k)" and "list_all event_ok es"
    and "unat (ticks (k_irq k)) + timer_lines es < 2 ^ 64"
    and "\<And>t. timer_ready m0 s0 t \<Longrightarrow> unat (ticks t) = unat (ticks (k_irq k)) + timer_lines es \<Longrightarrow> Q () (k\<lparr>k_irq := t\<rparr>)"
  shows "runs (deliver hw es) k Q"
proof -
  have inv: "irq_inv m0 s0 (k_irq k)" "irq_handlers (k_irq k) = (replicate 16 None)[0 := Some Pit_irq]"
    using assms(2) by (simp_all add: timer_ready_def)
  obtain t where t: "deliver_all (hw_pic hw) es (k_irq k) = Some t" "irq_inv m0 s0 t"
    "irq_handlers t = irq_handlers (k_irq k)" "ticks t = ticks (k_irq k) + of_nat (timer_lines es)"
    using deliver_all_ticks [OF assms(1) inv(1) assms(3)] timer_irqs_line_0 [OF assms(3)] inv(2) by auto
  have "unat (ticks t) = unat (ticks (k_irq k)) + timer_lines es"
    using assms(4) unfolding t(4) by (intro unat_add_of_nat)
  then show ?thesis using assms(5) [of t] t inv by (simp add: runs_def deliver_def timer_ready_def)
qed

lemma sleep_for_runs:
  assumes "pic_wired (hw_pic hw) m0 s0" and "timer_ready m0 s0 (k_irq k)" and "list_all (list_all event_ok) ws"
    and "unat (ticks (k_irq k)) + timer_lines (concat ws) < 2 ^ 64" and "unat n \<le> timer_lines (concat ws)"
    and "\<And>t. timer_ready m0 s0 t \<Longrightarrow> unat (ticks (k_irq k)) + unat n \<le> unat (ticks t) \<Longrightarrow>
      unat (ticks t) \<le> unat (ticks (k_irq k)) + timer_lines (concat ws) \<Longrightarrow> Q () (k\<lparr>k_irq := t\<rparr>)"
  shows "runs (sleep_for hw n ws) k Q"
proof -
  have inv: "irq_inv m0 s0 (k_irq k)" "irq_handlers (k_irq k) = (replicate 16 None)[0 := Some Pit_irq]"
    using assms(2) by (simp_all add: timer_ready_def)
  have ok: "list_all event_ok (concat ws)" using assms(3) by (auto simp: list_all_iff)
  have c: "timer_irqs (irq_handlers (k_irq k)) (concat ws) = timer_lines (concat ws)"
    using timer_irqs_line_0 [OF ok] inv(2) by simp
  have f: "unat (ticks (k_irq k) + n) = unat (ticks (k_irq k)) + unat n"
    using assms(4,5) by (simp add: unat_word_ariths)
  obtain t used rest where t: "sleep_loop (hw_pic hw) (ticks (k_irq k) + n) ws (k_irq k) = Some (t, rest)"
    "ws = used @ rest" "irq_inv m0 s0 t" "irq_handlers t = irq_handlers (k_irq k)"
    "unat (ticks t) = unat (ticks (k_irq k)) + timer_irqs (irq_handlers (k_irq k)) (concat used)"
    "ticks (k_irq k) + n \<le> ticks t"
    using sleep_loop_spec [OF assms(1) inv(1) assms(3), of "ticks (k_irq k) + n"] assms(4,5) c f by auto
  have "timer_irqs (irq_handlers (k_irq k)) (concat used) \<le> timer_lines (concat ws)"
    using c t(2) by simp
  with t f assms(6) [of t] inv show ?thesis
    by (simp add: runs_def sleep_for_def sleep_ticks_def timer_ready_def word_le_nat_alt)
qed

lemma self_test_runs:
  "runs (deliver hw [Self_test]) k Q = Q () (k\<lparr>k_irq := (k_irq k)\<lparr>isr_test_hits := isr_test_hits (k_irq k) + 1\<rparr>\<rparr>)"
  by (simp add: runs_def deliver_def isr_dispatch_def SYPAS_TEST_VECTOR_def)

definition arrivals_ok :: "arrivals \<Rightarrow> bool" where
  "arrivals_ok ar \<longleftrightarrow> list_all event_ok (ar_enabled ar) \<and> list_all (list_all event_ok) (ar_sleep ar) \<and>
     list_all event_ok (ar_woken ar) \<and> list_all event_ok (ar_banner ar) \<and> list_all event_ok (ar_settled ar) \<and>
     25 \<le> timer_lines (concat (ar_sleep ar)) \<and>
     timer_lines (ar_enabled ar) + timer_lines (concat (ar_sleep ar)) + timer_lines (ar_woken ar) +
       timer_lines (ar_banner ar) + timer_lines (ar_settled ar) < 2 ^ 64"

lemma pit_init_ready:
  assumes "pic_wired dev m0 s0" and "irq_inv m0 s0 s" and "irq_handlers s = replicate 16 None"
  shows "timer_ready m0 s0 (pit_init dev s)" and "ticks (pit_init dev s) = ticks s"
  using assms pit_init_inv_aux [OF assms(1,2)] pit_init_handlers [of s dev]
  by (simp_all add: timer_ready_def) (simp_all add: pit_init_eq after_pit_programming_def irq_install_def outb_def)

lemma enough_ticks: "unat a + 25 \<le> unat b \<Longrightarrow> \<not> b - a < (25 :: u64)"
  by (simp add: word_less_nat_alt unat_sub word_le_nat_alt)

lemma test_interrupts_runs:
  assumes wired: "pic_wired (hw_pic hw) m0 s0" and inv: "irq_inv m0 s0 (k_irq k)"
    and h: "irq_handlers (k_irq k) = replicate 16 None" and t0: "ticks (k_irq k) = 0" and ar: "arrivals_ok ar"
  shows "runs (test_interrupts hw ar) k (\<lambda>_ k'. k_gdt k' = k_gdt k \<and> k_pmm k' = k_pmm k \<and>
    timer_ready m0 s0 (k_irq k') \<and> 25 \<le> unat (ticks (k_irq k')) \<and> unat (ticks (k_irq k')) \<le>
      timer_lines (ar_enabled ar) + timer_lines (concat (ar_sleep ar)) + timer_lines (ar_woken ar))"
proof -
  let ?s = "(k_irq k)\<lparr>isr_test_hits := 2 + isr_test_hits (k_irq k)\<rparr>"
  have "irq_inv m0 s0 ?s" "irq_handlers ?s = replicate 16 None" using inv h by (simp_all add: irq_inv_def)
  note P = pit_init_ready [OF wired this]
  have p0: "ticks (pit_init (hw_pic hw) ?s) = 0" using P(2) t0 by simp
  note A = ar [unfolded arrivals_ok_def]
  show ?thesis unfolding test_interrupts_def
    apply (simp only: runs_andthen runs_look self_test_runs)
    apply (simp add: runs_in_turn runs_unless)
    apply (rule runs_say, simp add: format_eval)
    apply (simp only: runs_change)
    apply (rule deliver_runs [OF wired])
       apply (simp add: P(1))
      using A apply simp
     using A apply (simp add: p0)
    apply (simp add: runs_andthen runs_look runs_in_turn p0 timer_ticks_def)
    apply (rule sleep_for_runs [OF wired])
        apply simp
       using A apply simp
      using A apply simp
     using A apply simp
    apply (rule deliver_runs [OF wired])
       apply simp
      using A apply simp
     using A apply simp
    apply (simp add: runs_unless runs_in_turn)
    apply (intro conjI impI)
     apply (rule runs_say, simp add: format_eval)
     using A apply simp
    by (simp add: enough_ticks)
qed

lemma announce_runs:
  assumes wired: "pic_wired (hw_pic hw) m0 s0" and inv: "timer_ready m0 s0 (k_irq k)"
    and cpu: "0 \<in> set (vendor cpu)" and ev: "list_all event_ok (ar_banner ar)" "list_all event_ok (ar_settled ar)"
    and few: "unat (ticks (k_irq k)) + timer_lines (ar_banner ar) + timer_lines (ar_settled ar) < 2 ^ 64"
  shows "runs (announce hw ar cpu usable fb_ok) k (\<lambda>_ k'. k_gdt k' = k_gdt k \<and> k_pmm k' = k_pmm k \<and>
    timer_ready m0 s0 (k_irq k') \<and> unat (ticks (k_irq k)) \<le> unat (ticks (k_irq k')))"
  unfolding announce_def
  apply (simp only: runs_andthen runs_look runs_in_turn)
  apply (rule runs_say, simp add: format_eval)+
         apply (simp add: format_eval cpu)
        apply (rule runs_say, simp add: format_eval)+
  apply (rule deliver_runs [OF wired])
     apply (simp add: inv)
    apply (simp add: ev)
   using few apply simp
  apply (rule runs_say, simp add: format_eval)+
  apply (rule deliver_runs [OF wired])
     apply simp
    apply (simp add: ev)
   using few apply simp
  apply simp
  done

lemma idt_fold_frame:
  "irq_handlers (foldl (\<lambda>s i. idt_set i (stubs i) s) s is) = irq_handlers s \<and>
   ticks (foldl (\<lambda>s i. idt_set i (stubs i) s) s is) = ticks s"
  by (induction "is" arbitrary: s) (simp_all add: idt_set_def)

lemma tables_frame:
  fixes s :: irq_state
  shows "irq_handlers (idt_init stubs a s) = irq_handlers s" and "ticks (idt_init stubs a s) = ticks s"
    and "ticks (pic_init s) = ticks s"
  by (simp_all add: idt_init_def Let_def idt_fold_frame)

lemma kmain_runs:
  assumes wired: "pic_wired (hw_pic hw) m0 s0" and h: "irq_handlers (k_irq k) = replicate 16 None"
    and t0: "ticks (k_irq k) = 0" and ar: "arrivals_ok ar"
    and b: "boot_info_ok bi (info_at bi k)" and m: "memory_ok k (info_at bi k) st"
    and v: "0 \<in> set version" and cpu: "length (vendor cpu0) = 13" "length (brand cpu0) = 49"
  shows "runs (kmain hw ar version cpu0 bi) k (\<lambda>beat k'. k_gdt k' = gdt_init (hw_gdt_address hw) (k_gdt k) \<and>
    timer_ready m0 s0 (k_irq k') \<and> beat = ticks (k_irq k') \<and> 25 \<le> unat beat \<and>
    pmm_inv (free_set st) (k_pmm k') \<and> free_set (k_pmm k') = free_set st)"
proof -
  note A = ar [unfolded arrivals_ok_def]
  show ?thesis unfolding kmain_def runs_andthen
    apply (rule runs_post [OF start_console_runs [OF v]])
    apply (drule others_eq)
    apply (rule runs_post [OF check_boot_info_runs])
     using b apply (simp add: info_at_def)
    apply (drule others_eq)
    apply (rule runs_post [OF identify_cpu_runs [OF cpu]])
    apply (elim conjE, drule others_eq)
    apply (rule runs_post [OF start_tables_runs])
    apply (rule runs_post [OF start_memory_runs [where st = st]])
     using m apply (simp add: info_at_def memory_ok_def others_def)
    apply (rule runs_post [OF start_screen_runs])
    apply (drule others_eq)
    apply (rule runs_post [OF test_interrupts_runs [OF wired _ _ _ ar]])
       apply (simp add: others_def pic_init_inv_aux)
      apply (simp add: others_def tables_frame h t0)
     apply (simp add: others_def tables_frame h t0)
    apply (elim conjE)
    apply (rule runs_post [OF announce_runs [OF wired]])
         apply assumption
        apply assumption
       using A apply simp
      using A apply simp
     using A apply simp
    apply (simp add: runs_look timer_ticks_def others_def)
    done
qed

section \<open>Refusing to boot\<close>

text \<open>Where a run ends, with a value or stopped.\<close>

definition ends :: "('s, 'e, 'a) program \<Rightarrow> 's \<Rightarrow> ('e + 'a \<Rightarrow> 's \<Rightarrow> bool) \<Rightarrow> bool" where
  "ends m s Q = (case m s of (r, s') \<Rightarrow> Q r s')"

lemma ends_andthen: "ends (andthen m k) s Q = ends m s (\<lambda>r s'. case r of Inl e \<Rightarrow> Q (Inl e) s' | Inr x \<Rightarrow> ends (k x) s' Q)"
  by (auto simp: ends_def andthen_def split: prod.splits sum.splits)

lemma ends_steps:
  "ends (give x) s Q = Q (Inr x) s"
  "ends (look f) k R = R (Inr (f k)) k"
  "ends (in_turn (p # ps)) s Q' = ends (andthen p (\<lambda>_. in_turn ps)) s Q'"
  "ends (unless c p) s Q' = (if c then Q' (Inr ()) s else ends p s Q')"
  by (simp_all add: ends_def give_def look_def in_turn_def unless_def)

lemma runs_ends: "runs m s Q \<Longrightarrow> (\<And>x s'. Q x s' \<Longrightarrow> R (Inr x) s') \<Longrightarrow> ends m s R"
  by (auto simp: runs_def ends_def split: prod.splits sum.splits)

lemma fits_sprintfs: "list_all (\<lambda>(f, a). fits f a) ms \<Longrightarrow> \<exists>t. sprintfs ms = Some t"
  by (induction ms rule: sprintfs.induct) (auto dest: fits_prints)

lemma give_up_ends:
  assumes "fits fmt ap" and "\<And>w. Q (Inl (Panic_halt fmt ap)) (k\<lparr>k_machine := w\<rparr>)"
  shows "ends (give_up hw fmt ap) k Q"
proof -
  have "list_all (\<lambda>(f, a). fits f a) [(panic_banner, []), (word_fmt ''reason : '', []), (fmt, ap),
      ([10] @ line_fmt ''SYSTEM STATUS: HALTED'', []), (panic_footer, [])]"
    by (simp add: assms(1)) (simp add: format_eval panic_banner_def panic_footer_def)
  from fits_sprintfs [OF this] obtain w where
    "panic (hw_uart hw) (k_console k) fmt ap (k_machine k) = Some w"
    unfolding panic_def kprintfs_send by auto
  with assms(2) show ?thesis by (simp add: ends_def give_up_def)
qed

text \<open>The panic of the first check that fails.\<close>

definition boot_complaint :: "u64 \<Rightarrow> sypas_bootinfo \<Rightarrow> (u8 list \<times> arg list) option" where
  "boot_complaint bi b =
    (if bi = 0 then Some (word_fmt ''boot: NULL bootinfo'', [])
     else if bi_magic b \<noteq> SYPAS_BOOT_MAGIC
     then Some (word_fmt ''boot: bad magic %lx'', [Arg_long (bi_magic b)])
     else if bi_version_major b \<noteq> SYPAS_BOOT_VERSION_MAJOR
     then Some (word_fmt ''boot: unsupported protocol major %u (kernel speaks %u)'',
       [Arg_int (ucast (bi_version_major b)), Arg_int (ucast SYPAS_BOOT_VERSION_MAJOR)])
     else if unat (bi_size b) < SYPAS_BOOTINFO_V1_0_SIZE
     then Some (word_fmt ''boot: short bootinfo (%u bytes, need %u)'',
       [Arg_int (bi_size b), Arg_int (of_nat SYPAS_BOOTINFO_V1_0_SIZE)])
     else None)"

lemma check_boot_info_refuses:
  assumes "boot_complaint bi (info_at bi k) = Some (fmt, ap)"
  shows "ends (check_boot_info hw bi) k (\<lambda>r k'. r = Inl (Panic_halt fmt ap) \<and> others k' = others k)"
  using assms unfolding boot_complaint_def check_boot_info_def
  by (auto simp: ends_andthen ends_steps word_less_nat_alt SYPAS_BOOTINFO_V1_0_SIZE_def split: if_splits
      intro!: give_up_ends; simp add: format_eval)

lemma deliver_any_runs:
  assumes "pic_wired (hw_pic hw) m0 s0" and "timer_ready m0 s0 (k_irq k)" and "list_all event_ok es"
    and "\<And>t. timer_ready m0 s0 t \<Longrightarrow> Q () (k\<lparr>k_irq := t\<rparr>)"
  shows "runs (deliver hw es) k Q"
proof -
  have "irq_inv m0 s0 (k_irq k)" using assms(2) by (simp add: timer_ready_def)
  from deliver_all_ticks [OF assms(1) this assms(3)] obtain t where
    "deliver_all (hw_pic hw) es (k_irq k) = Some t" "irq_inv m0 s0 t" "irq_handlers t = irq_handlers (k_irq k)"
    by blast
  then show ?thesis using assms(2) assms(4) [of t] by (simp add: runs_def deliver_def timer_ready_def)
qed

lemma idle_runs:
  assumes wired: "pic_wired (hw_pic hw) m0 s0" and "timer_ready m0 s0 (k_irq k)" and "list_all (list_all event_ok) ws"
  shows "runs (idle hw ws beat) k (\<lambda>_ k'. timer_ready m0 s0 (k_irq k') \<and> k_gdt k' = k_gdt k \<and> k_pmm k' = k_pmm k)"
  using assms(2,3)
proof (induction ws arbitrary: beat k)
  case (Cons w ws)
  show ?case
    apply (simp add: runs_rule idle_turn_def)
    apply (rule deliver_any_runs [OF wired Cons.prems(1)])
     using Cons.prems apply simp
    apply (simp add: runs_rule)
    apply (intro conjI impI)
     apply (rule runs_say, simp add: format_eval)
     apply (rule runs_post [OF Cons.IH])
       using Cons.prems apply simp_all
    apply (rule runs_post [OF Cons.IH])
      apply simp_all
    done
qed (simp add: runs_rule)

lemma ends_mono: "ends m s Q \<Longrightarrow> (\<And>r s'. Q r s' \<Longrightarrow> R r s') \<Longrightarrow> ends m s R"
  by (auto simp: ends_def split: prod.splits)

lemma kmain_boots_aux:
  assumes "pic_wired (hw_pic hw) m0 s0"
    and "irq_handlers (k_irq k) = replicate 16 None" and "ticks (k_irq k) = 0" and "arrivals_ok ar"
    and "boot_info_ok bi (info_at bi k)" and "memory_ok k (info_at bi k) st"
    and "0 \<in> set version" and "length (vendor cpu0) = 13" and "length (brand cpu0) = 49"
    and "list_all (list_all event_ok) ws"
  shows "\<exists>beat k1 beat' k2. kmain hw ar version cpu0 bi k = (Inr beat, k1) \<and> idle hw ws beat k1 = (Inr beat', k2) \<and>
    25 \<le> unat beat \<and> timer_ready m0 s0 (k_irq k2) \<and>
    k_gdt k2 = gdt_init (hw_gdt_address hw) (k_gdt k) \<and>
    pmm_inv (free_set st) (k_pmm k2) \<and> free_set (k_pmm k2) = free_set st"
proof -
  obtain beat k1 where k1: "kmain hw ar version cpu0 bi k = (Inr beat, k1)"
    "k_gdt k1 = gdt_init (hw_gdt_address hw) (k_gdt k)" "timer_ready m0 s0 (k_irq k1)" "25 \<le> unat beat"
    "pmm_inv (free_set st) (k_pmm k1)" "free_set (k_pmm k1) = free_set st"
    using runs_exD [OF kmain_runs [OF assms(1-9)]] by auto
  from runs_exD [OF idle_runs [OF assms(1) k1(3) assms(10)], of beat] obtain beat' k2 where
    "idle hw ws beat k1 = (Inr beat', k2)" "timer_ready m0 s0 (k_irq k2)" "k_gdt k2 = k_gdt k1" "k_pmm k2 = k_pmm k1"
    by auto
  with k1 show ?thesis by auto
qed

text \<open> C3: On a machine whose memory, boot information and interrupt controllers are in order, kmain
  gets through every step of the boot (no panic, no overrun format, no interrupt without a handler),
  has waited through at least 25 timer ticks when it enters the idle loop, and every turn of the
  idle loop returns: the descriptor table is the kernel's own, the timer keeps being delivered, and
  the page allocator holds exactly the pages that initialisation gave it.\<close>

theorem kmain_boots:
  assumes "pic_wired (hw_pic hw) m0 s0"
    and "irq_handlers (k_irq k) = replicate 16 None" and "ticks (k_irq k) = 0" and "arrivals_ok ar"
    and "boot_info_ok bi (info_at bi k)" and "memory_ok k (info_at bi k) st"
    and "0 \<in> set version" and "length (vendor cpu0) = 13" and "length (brand cpu0) = 49"
    and "list_all (list_all event_ok) ws"
  shows "\<exists>beat k1 beat' k2. kmain hw ar version cpu0 bi k = (Inr beat, k1) \<and> idle hw ws beat k1 = (Inr beat', k2) \<and>
    25 \<le> unat beat \<and> timer_ready m0 s0 (k_irq k2) \<and>
    k_gdt k2 = gdt_init (hw_gdt_address hw) (k_gdt k) \<and>
    pmm_inv (free_set st) (k_pmm k2) \<and> free_set (k_pmm k2) = free_set st"
  using kmain_boots_aux [OF assms] .

lemma kmain_refuses_aux:
  assumes "0 \<in> set version" and "boot_complaint bi (info_at bi k) = Some (fmt, ap)"
  shows "\<exists>k'. kmain hw ar version cpu0 bi k = (Inl (Panic_halt fmt ap), k') \<and> others k' = others k"
proof -
  have "ends (kmain hw ar version cpu0 bi) k (\<lambda>r k'. r = Inl (Panic_halt fmt ap) \<and> others k' = others k)"
    unfolding kmain_def
    apply (subst ends_andthen)
    apply (rule runs_ends [OF start_console_runs [OF assms(1)]])
    apply (simp add: ends_andthen)
    apply (rule ends_mono [OF check_boot_info_refuses])
     using assms(2) apply (simp add: info_at_def others_def)
    apply simp
    done
  then show ?thesis by (auto simp: ends_def split: prod.splits)
qed

text \<open> C5: A boot information structure the kernel cannot use (a null pointer, a wrong magic, another
  major version, a short structure) ends kmain in the panic that names the complaint, with the
  descriptor tables, the interrupt state and the allocator as they were.\<close>

theorem kmain_refuses:
  assumes "0 \<in> set version" and "boot_complaint bi (info_at bi k) = Some (fmt, ap)"
  shows "\<exists>k'. kmain hw ar version cpu0 bi k = (Inl (Panic_halt fmt ap), k') \<and> others k' = others k"
  by (rule kmain_refuses_aux [OF assms])

section \<open>Not enough memory\<close>

text \<open>
  The two ways in which the memory the kernel is given can end the boot: the allocator's
  initialisation refuses the map, or its self-test finds fewer than 512 free pages.
\<close>

lemma say_ends:
  assumes "fits fmt ap" and "\<And>w. Q (Inr ()) (k\<lparr>k_machine := w\<rparr>)"
  shows "ends (say hw fmt ap) k Q"
  by (rule runs_ends [OF runs_say [OF assms(1)]]) (use assms(2) in auto)

lemma change_ends: "ends (change f) k Q = Q (Inr ()) (f k)"
  by (simp add: ends_def change_def)

lemma pmm_message_fits: "fits (fst (pmm_message p)) (snd (pmm_message p))"
  by (cases p) (simp_all add: format_eval)

lemma run_selftest_fails:
  assumes "pmm_inv managed (k_pmm k)" and "card (free_set (k_pmm k)) < 512"
  shows "ends (run_selftest hw) k (\<lambda>r _. r = Inl (Panic_halt (word_fmt ''pmm: self-test failed'') []))"
proof -
  obtain st' where "pmm_selftest (k_pmm k) =
      Some (Inr (st', Selftest_exhausted (card (free_set (k_pmm k)))))"
    using pmm_selftest_exhausted_aux [OF assms(1)] assms(2) by (auto simp: ST_PAGES_def)
  then show ?thesis unfolding run_selftest_def
    by (simp add: ends_andthen ends_steps change_ends)
      (intro say_ends; simp add: format_eval ends_andthen ends_steps; intro give_up_ends; simp add: format_eval)
qed

definition memory_complaint :: "pmm_panic + pmm_state \<Rightarrow> (u8 list \<times> arg list) option" where
  "memory_complaint r =
    (case r of
       Inl p \<Rightarrow> Some (pmm_message p)
     | Inr st \<Rightarrow> if card (free_set st) < 512 then Some (word_fmt ''pmm: self-test failed'', []) else None)"

lemma memory_complaint_fits:
  assumes "memory_complaint r = Some (fmt, ap)"
  shows "fits fmt ap"
proof (cases r)
  case (Inl p)
  with assms pmm_message_fits [of p] show ?thesis by (simp add: memory_complaint_def)
next
  case (Inr st)
  with assms show ?thesis by (auto simp: memory_complaint_def format_eval split: if_splits)
qed

lemma start_memory_stops:
  assumes "memory_complaint (pmm_init (k_pmm k) (info_at bi k)) = Some (fmt, ap)"
    and "\<And>st. pmm_init (k_pmm k) (info_at bi k) = Inr st \<Longrightarrow> pmm_inv (free_set st) st"
  shows "ends (start_memory hw bi) k (\<lambda>r _. r = Inl (Panic_halt fmt ap))"
  unfolding start_memory_def
  apply (simp add: ends_andthen ends_steps)
  apply (rule say_ends, simp add: format_eval)
  apply (simp add: ends_andthen ends_steps)
  apply (rule runs_ends [OF list_memory_runs])
  apply (drule others_eq)
  apply (simp add: ends_andthen ends_steps)
  apply (rule say_ends, simp add: format_eval)
  apply (simp add: ends_andthen ends_steps)
  apply (cases "pmm_init (k_pmm k) (info_at bi k)")
   using assms(1) memory_complaint_fits [OF assms(1)]
   apply (auto simp: memory_complaint_def intro!: give_up_ends)[1]
  apply (simp add: ends_andthen ends_steps change_ends)
  apply (rule say_ends, simp add: format_eval)
  apply (simp add: ends_andthen)
  apply (rule ends_mono [OF run_selftest_fails])
  using assms by (auto simp: memory_complaint_def split: if_splits)

lemma kmain_stops_in_memory:
  assumes "boot_info_ok bi (info_at bi k)" and "0 \<in> set version"
    and "length (vendor cpu0) = 13" and "length (brand cpu0) = 49"
    and "memory_complaint (pmm_init (k_pmm k) (info_at bi k)) = Some (fmt, ap)"
    and "\<And>st. pmm_init (k_pmm k) (info_at bi k) = Inr st \<Longrightarrow> pmm_inv (free_set st) st"
  shows "\<exists>k'. kmain hw ar version cpu0 bi k = (Inl (Panic_halt fmt ap), k')"
proof -
  have "ends (kmain hw ar version cpu0 bi) k (\<lambda>r _. r = Inl (Panic_halt fmt ap))"
    unfolding kmain_def
    apply (subst ends_andthen)
    apply (rule runs_ends [OF start_console_runs [OF assms(2)]])
    apply (drule others_eq)
    apply (simp add: ends_andthen)
    apply (rule runs_ends [OF check_boot_info_runs])
     using assms(1) apply (simp add: info_at_def)
    apply (drule others_eq)
    apply (simp add: ends_andthen)
    apply (rule runs_ends [OF identify_cpu_runs [OF assms(3,4)]])
    apply (elim conjE, drule others_eq)
    apply (simp add: ends_andthen)
    apply (rule runs_ends [OF start_tables_runs])
    apply (simp add: ends_andthen others_def)
    apply (rule ends_mono, rule start_memory_stops)
      using assms(5) apply (simp add: info_at_def)
     using assms(6) apply (simp add: info_at_def)
    apply simp
    done
  then show ?thesis by (auto simp: ends_def split: prod.splits)
qed

text \<open>A machine for the witnesses: the boot information at 0xA000 and 3 MiB of memory above 1 MiB.\<close>

definition demo_kernel :: "sypas_bootinfo \<Rightarrow> kernel" where
  "demo_kernel b = \<lparr>k_console = \<lparr>sinks = []\<rparr>,
     k_machine = \<lparr>uart_driver = \<lparr>bus = [], present = False\<rparr>, screen_driver = fbcon_cold (\<lambda>_. 0)\<rparr>,
     k_gdt = \<lparr>gdt = [], gp = \<lparr>gdt_limit = 0, gdt_base = 0\<rparr>, gdtr = None, sel_cs = 0, sel_data = 0, sel_fs_gs = 0\<rparr>,
     k_irq = cold,
     k_pmm = roomy_machine\<lparr>pmm_ram := ram_store (pmm_ram roomy_machine) 0xA000 (encode_bootinfo b)\<rparr>\<rparr>"

definition demo_hardware :: hardware where
  "demo_hardware = \<lparr>hw_uart = (\<lambda>_ _. 0), hw_pic = pic_device, hw_cpuid = zen_cpuid, hw_stubs = (\<lambda>_. 0),
     hw_idt_address = 0, hw_gdt_address = 0, hw_alloc_cycles = 0, hw_free_cycles = 0\<rparr>"

definition demo_arrivals :: arrivals where
  "demo_arrivals = \<lparr>ar_enabled = [], ar_sleep = replicate 25 [Line 0], ar_woken = [Glitch 7], ar_banner = [Line 0],
     ar_settled = []\<rparr>"

lemma demo_info:
  assumes "length (bi_cmdline b) = 256"
  shows "info_at 0xA000 (demo_kernel b) = b"
proof -
  have len: "length (encode_bootinfo b) = SYPAS_BOOTINFO_V1_0_SIZE"
    using length_encode_bootinfo [OF assms] by (simp add: SYPAS_BOOTINFO_V1_0_SIZE_def)
  have "region_ok 0xA000 (length (encode_bootinfo b))" by (simp add: len region_ok_def SYPAS_BOOTINFO_V1_0_SIZE_def)
  from ram_bytes_store_same [OF this] show ?thesis
    by (simp add: info_at_def demo_kernel_def len decode_encode_bootinfo_aux [OF assms])
qed

lemma demo_map_kept:
  assumes "length (bi_cmdline b) = 256"
  shows "map_entries (pmm_ram (k_pmm (demo_kernel b))) 0x9000 1 = [usable_entry 0x100000 0x300000]"
proof -
  have len: "length (encode_bootinfo b) = 360" using length_encode_bootinfo [OF assms] by simp
  have r: "region_ok 0xA000 (length (encode_bootinfo b))" by (simp add: len region_ok_def)
  have "map_entry (pmm_ram (k_pmm (demo_kernel b))) 0x9000 0 = map_entry (pmm_ram roomy_machine) 0x9000 0"
  proof (rule map_entry_cong [where n = 1])
    fix x :: u64 assume "in_range x 0x9000 (1 * sizeof_entry)"
    then have "\<not> in_range x 0xA000 (length (encode_bootinfo b))" by (auto simp: in_range_def sizeof_entry_def)
    from ram_store_out [OF r this] show "pmm_ram (k_pmm (demo_kernel b)) x = pmm_ram roomy_machine x"
      by (simp add: demo_kernel_def)
  qed (simp_all add: region_ok_def sizeof_entry_def)
  then show ?thesis by (simp add: map_entries_def example_map_entry)
qed

lemma demo_memory_ok: "\<exists>st. memory_ok (demo_kernel one_entry_info) one_entry_info st \<and> free_set st = {257..<1024}"
proof -
  have "length (bi_cmdline one_entry_info) = 256" by (simp add: example_bootinfo_def)
  note R = one_region_init [OF demo_map_kept [OF this] example_info_map]
  obtain st where st: "pmm_init (k_pmm (demo_kernel one_entry_info)) one_entry_info = Inr st" using R(2) by blast
  have facts: "free_set st = {257..<1024}" "cursor st < highest_page st" using R(3) [OF st] by auto
  from pmm_inv_init [OF R(1) st facts(2)] facts st show ?thesis
    by (intro exI [of _ st]) (simp add: memory_ok_def)
qed

lemma demo_arrivals_ok: "arrivals_ok demo_arrivals"
  by (simp add: arrivals_ok_def demo_arrivals_def timer_lines_def list_all_iff)

theorem kmain_boots_witness:
  "\<exists>beat k1 beat' k2. kmain demo_hardware demo_arrivals (bytes_of ''0.2'' @ [0]) blank_info 0xA000
      (demo_kernel one_entry_info) = (Inr beat, k1) \<and>
    idle demo_hardware [[Line 0], [Line 1, Line 0]] beat k1 = (Inr beat', k2) \<and> free_set (k_pmm k2) = {257..<1024}"
proof -
  obtain st where st: "memory_ok (demo_kernel one_entry_info) one_entry_info st" "free_set st = {257..<1024}"
    using demo_memory_ok by blast
  have i: "info_at 0xA000 (demo_kernel one_entry_info) = one_entry_info"
    by (rule demo_info) (simp add: example_bootinfo_def)
  have "boot_info_ok 0xA000 one_entry_info"
    by (simp add: boot_info_ok_def example_bootinfo_def SYPAS_BOOT_VERSION_MAJOR_def SYPAS_BOOTINFO_V1_0_SIZE_def)
  moreover have "pic_wired (hw_pic demo_hardware) reset_chip reset_chip"
    by (simp add: demo_hardware_def pic_device_wired)
  moreover have "irq_handlers (k_irq (demo_kernel one_entry_info)) = replicate 16 None"
    "ticks (k_irq (demo_kernel one_entry_info)) = 0" by (simp_all add: demo_kernel_def cold_def)
  moreover have "0 \<in> set (bytes_of ''0.2'' @ [0])" by simp
  moreover have "length (vendor blank_info) = 13" "length (brand blank_info) = 49" by (simp_all add: blank_info_def)
  moreover have "list_all (list_all event_ok) [[Line 0], [Line 1, Line 0]]" by simp
  ultimately show ?thesis
    using kmain_boots [of demo_hardware reset_chip reset_chip "demo_kernel one_entry_info" demo_arrivals "0xA000" st
      "bytes_of ''0.2'' @ [0]" blank_info "[[Line 0], [Line 1, Line 0]]"] demo_arrivals_ok i st by auto
qed

theorem kmain_refuses_witness:
  "\<exists>k'. kmain demo_hardware demo_arrivals [0] blank_info 0xA000 (demo_kernel (one_entry_info\<lparr>bi_version_major := 2\<rparr>)) =
    (Inl (Panic_halt (word_fmt ''boot: unsupported protocol major %u (kernel speaks %u)'') [Arg_int 2, Arg_int 1]), k')"
proof -
  let ?b = "one_entry_info\<lparr>bi_version_major := 2\<rparr>"
  have "info_at 0xA000 (demo_kernel ?b) = ?b" by (rule demo_info) (simp add: example_bootinfo_def)
  then have "boot_complaint 0xA000 (info_at 0xA000 (demo_kernel ?b)) =
      Some (word_fmt ''boot: unsupported protocol major %u (kernel speaks %u)'', [Arg_int 2, Arg_int 1])"
    by (simp add: boot_complaint_def example_bootinfo_def SYPAS_BOOT_VERSION_MAJOR_def)
  from kmain_refuses [OF _ this, of "[0]" demo_hardware demo_arrivals blank_info] show ?thesis by auto
qed

end
