(* ===== verification/System.thy ===== *)
theory System
  imports Boot Bringup
begin

text \<open>
  The loader and the kernel together.  The firmware is also asked to tell the truth about the memory
  it has given (\<open>honest_map\<close>); then nothing the kernel was handed is ever memory the page allocator
  may give away, and a kernel started on the state the loader leaves boots.
\<close>

section \<open>What the loader asks for\<close>

fun wants_loader_data :: "efi_call \<Rightarrow> bool" where
  "wants_loader_data (AllocatePool ty n) = (ty = EfiLoaderData)"
| "wants_loader_data (AllocatePages t ty n a) = (ty = EfiLoaderData)"
| "wants_loader_data _ = True"

definition all_loader_data :: "call_record \<Rightarrow> bool" where
  "all_loader_data tr \<longleftrightarrow> list_all (\<lambda>(c, _). wants_loader_data c) tr"

abbreviation asking :: "'a boot \<Rightarrow> bool" where
  "asking \<equiv> runs_within wants_loader_data (\<lambda>_. True)"

lemma asking_print [boot_rule]: "asking (print fw s)"
  unfolding print_def by (intro boot_rule) simp_all

lemma asking_die [boot_rule]: "asking (die fw msg st)" "asking (die_ascii fw msg detail st)"
  unfolding die_ascii_def die_def print_hex_def by (intro boot_rule TrueI; simp)+

lemma asking_or_die [boot_rule]: "wants_loader_data c \<Longrightarrow> asking (or_die fw c msg)"
  unfolding or_die_def by (intro boot_rule)

lemma asking_load_segments [boot_rule]: "asking (load_segments fw file sgs)"
proof (induction sgs)
  case (Cons seg sgs)
  then show ?case unfolding load_segments.simps by (intro boot_rule) simp_all
qed (simp add: boot_rule)

lemma asking_size_buffers [boot_rule]: "asking (size_buffers fw left mmsize dsz)"
proof (induction left arbitrary: mmsize dsz)
  case (Suc left)
  then show ?case unfolding size_buffers.simps by (intro boot_rule) simp_all
qed (simp add: boot_rule)

lemma asking_halt [boot_rule]: "asking halt_after_exit_boot_services"
  unfolding halt_after_exit_boot_services_def by (intro boot_rule TrueI)

lemma asking_map_rejected [boot_rule]: "asking (map_rejected fw status d)"
  unfolding map_rejected_def report_overlap_def print_hex_def by (intro boot_rule)

lemma asking_exit_loop [boot_rule]: "asking (exit_loop fw a left)"
proof (induction left)
  case 0
  then show ?case by (subst exit_loop.simps) (intro boot_rule TrueI; simp add: boot_rule)
next
  case (Suc left)
  then show ?case by (subst exit_loop.simps) (intro boot_rule TrueI; simp add: boot_rule)
qed

lemma asking_pieces [boot_rule]:
  "asking (read_kernel_file fw img)" "asking (load_kernel_elf fw file fsize)"
  "asking (fill_bootinfo fw systab bi plan stack)" "asking (jump_to_kernel entry_addr stack bi)"
  unfolding read_kernel_file_def load_kernel_elf_def fill_bootinfo_def fill_framebuffer_def jump_to_kernel_def
  by (intro boot_rule TrueI; simp)+

lemma efi_main_asks:
  assumes "efi_main fw version img systab \<lparr>ld_calls = [], ld_mem = m\<rparr> = (res, s)"
  shows "all_loader_data (ld_calls s)"
proof -
  have "asking (efi_main fw version img systab)"
    unfolding efi_main_def by (intro boot_rule) simp_all
  then obtain new where "ld_calls (snd (efi_main fw version img systab \<lparr>ld_calls = [], ld_mem = m\<rparr>)) = new"
    "list_all (\<lambda>(c, _). wants_loader_data c) new"
    unfolding runs_within_def by (metis append_Nil loader.select_convs(1))
  with assms show ?thesis by (simp add: all_loader_data_def)
qed

section \<open>The memory map tells what the loader holds\<close>

text \<open>
  A memory map reports allocated memory under the type it was asked for: every address of memory
  allocated as \<^verbatim>\<open>EfiLoaderData\<close> is in a descriptor of that type.
\<close>

definition honest_map :: "firmware \<Rightarrow> bool" where
  "honest_map fw \<longleftrightarrow> (\<forall>tr m n a r m1 rg x.
     all_loader_data tr \<longrightarrow> fw tr m (GetMemoryMap n a) = (r, m1) \<longrightarrow> \<not> EFI_ERROR (rp_status r) \<longrightarrow>
     rg \<in> set (owned tr) \<longrightarrow> within x rg \<longrightarrow>
     (\<exists>d\<in>set (input_descriptors (ram_bytes m1 a (unat (rp_size r))) (unat (rp_dsz r))).
        ed_Type d = EfiLoaderData \<and> covers d (unat x)))"

lemma owned_exit:
  "owned (tr @ [(GetMemoryMap n a, r), (ExitBootServices img k, x)]) = owned tr"
  by (simp add: owned_append own_step_def freed_base_def call_range_def)

lemma exited_map:
  assumes "honest_map fw" and "exited_with fw a calls out" and "all_loader_data calls"
  shows "map_wf out"
    and "rg \<in> set (owned calls) \<Longrightarrow> within x rg \<Longrightarrow> type_at out (unat x) \<noteq> Some SYPAS_MEM_USABLE"
proof -
  obtain tr r y m m1 where c: "calls = tr @ [(GetMemoryMap (xa_map_bytes a) (xa_efimap a), r),
        (ExitBootServices (xa_img a) (rp_key r), y)]"
    "fw tr m (GetMemoryMap (xa_map_bytes a) (xa_efimap a)) = (r, m1)" "\<not> EFI_ERROR (rp_status r)"
    and t: "sypas_translate_memory_map (xa_efimap a) (ram_bytes m1 (xa_efimap a) (unat (rp_size r))) (rp_size r)
       (rp_dsz r) (xa_plan a) (xa_cap a) = Some (Inr out)"
    using assms(2) unfolding exited_with_def by blast
  note T = translate_sound_aux [OF _ t, simplified]
  show "map_wf out" by (rule T(3))
  assume rg: "rg \<in> set (owned calls)" "within x rg"
  have "all_loader_data tr" using assms(3) by (simp add: all_loader_data_def c(1))
  moreover have "rg \<in> set (owned tr)" using rg(1) by (simp add: c(1) owned_exit)
  ultimately obtain d where
    d: "d \<in> set (input_descriptors (ram_bytes m1 (xa_efimap a) (unat (rp_size r))) (unat (rp_dsz r)))"
       "ed_Type d = EfiLoaderData" "covers d (unat x)"
    using assms(1) c(2,3) rg(2) unfolding honest_map_def by blast
  have ap: "sorted_wrt descs_apart (input_descriptors (ram_bytes m1 (xa_efimap a) (unat (rp_size r))) (unat (rp_dsz r)))"
    using T(1) by (simp add: valid_efi_map_def)
  have "type_at out (unat x) = Some (desc_class (segs (xa_plan a)) d (unat x))"
    unfolding T(4) by (rule class_at_covers [OF ap d(1,3)])
  then show "type_at out (unat x) \<noteq> Some SYPAS_MEM_USABLE"
    using d(2) by (simp add: desc_class_def efi_to_sypas_memtype_def sypas_mem_defs EfiLoaderData_def
      EfiConventionalMemory_def)
qed

text \<open>An address of a usable entry is usable.\<close>

lemma type_at_member:
  assumes "map_wf es" and "e \<in> set es" and "mm_lo e \<le> a" and "a < mm_hi e"
  shows "type_at es a = Some (mm_type e)"
proof -
  have "sorted_wrt (\<lambda>e f. mm_hi e \<le> mm_lo f) es" using assms(1) by (simp add: map_wf_def)
  then have "find (in_entry a) es = Some e" using assms(2-4)
    by (induction es) (fastforce simp: in_entry_def)+
  then show ?thesis by (simp add: type_at_def)
qed

lemma handoff_facts:
  assumes "efi_contract fw" and "honest_map fw"
    and run: "efi_main fw version img systab \<lparr>ld_calls = [], ld_mem = m\<rparr> = (Inr h, s)"
    and b: "b = decode_bootinfo (ram_bytes (ld_mem s) (ho_rdi h) SYPAS_BOOTINFO_V1_0_SIZE)"
  shows "\<exists>raw plan out. handed_over fw img systab h s raw plan out \<and>
    map_entries (ld_mem s) (bi_memmap b) (unat (bi_memmap_count b)) = out \<and> map_wf out \<and>
    region_ok (bi_memmap b) (unat (bi_memmap_count b) * sizeof_entry) \<and>
    (\<forall>rg\<in>set (handoff_ranges (ho_rdi h) b plan). \<forall>x. within x rg \<longrightarrow>
       type_at out (unat x) \<noteq> Some SYPAS_MEM_USABLE)"
proof -
  obtain raw plan out where h: "handed_over fw img systab h s raw plan out"
    and own: "\<forall>rg\<in>set (handoff_ranges (ho_rdi h) b plan). inside_owned (ld_calls s) rg"
    using handed_over_aux [OF assms(1) run] unfolding b by blast
  have es: "map_entries (ld_mem s) (bi_memmap b) (unat (bi_memmap_count b)) = out"
    and reg: "region_ok (bi_memmap b) (length out * sizeof_entry)"
    using h unfolding handed_over_def b Let_def by blast+
  obtain a where "exited_with fw a (ld_calls s) out" using h unfolding handed_over_def Let_def by blast
  note E = exited_map [OF assms(2) this efi_main_asks [OF run]]
  have "length out = unat (bi_memmap_count b)" using es by (auto simp: map_entries_def)
  moreover have "type_at out (unat x) \<noteq> Some SYPAS_MEM_USABLE"
    if "rg \<in> set (handoff_ranges (ho_rdi h) b plan)" "within x rg" for rg x
    using own that E(2) unfolding inside_owned_def by blast
  ultimately show ?thesis using h es reg E(1)
    by (intro exI [of _ raw] exI [of _ plan] exI [of _ out] conjI ballI allI impI) simp_all
qed

lemma handoff_map_ok:
  assumes "efi_contract fw" and "honest_map fw"
    and run: "efi_main fw version img systab \<lparr>ld_calls = [], ld_mem = m\<rparr> = (Inr h, s)"
    and b: "b = decode_bootinfo (ram_bytes (ld_mem s) (ho_rdi h) SYPAS_BOOTINFO_V1_0_SIZE)"
  shows "boot_map_ok (ld_mem s) (bi_memmap b) (unat (bi_memmap_count b))"
proof -
  let ?a = "bi_memmap b" and ?n = "unat (bi_memmap_count b) * sizeof_entry"
  obtain plan out where F: "map_entries (ld_mem s) (bi_memmap b) (unat (bi_memmap_count b)) = out" "map_wf out"
    "region_ok ?a ?n" "\<forall>rg\<in>set (handoff_ranges (ho_rdi h) b plan). \<forall>x. within x rg \<longrightarrow>
       type_at out (unat x) \<noteq> Some SYPAS_MEM_USABLE"
    using handoff_facts [OF assms] by blast
  have "unat ?a + ?n \<le> mm_lo e \<or> mm_hi e \<le> unat ?a" if e: "e \<in> set out" "mm_type e = SYPAS_MEM_USABLE" for e
  proof (rule ccontr)
    assume n: "\<not> ?thesis"
    define x where "x = max (unat ?a) (mm_lo e)"
    have lt: "mm_lo e < mm_hi e" using F(2) e(1) by (auto simp: map_wf_def entry_wf_def)
    have "0 < length out" using e(1) by auto
    then have "0 < ?n" using F(1) by (auto simp: map_entries_def sizeof_entry_def)
    have "x < unat ?a + ?n" "mm_lo e \<le> x" "x < mm_hi e" "unat ?a \<le> x"
      using n lt \<open>0 < ?n\<close> by (auto simp: x_def not_le)
    moreover from this(1) have "unat (of_nat x :: u64) = x" using F(3) by (simp add: region_ok_def unat_of_nat)
    ultimately have "within (of_nat x) (?a, ?n)" "type_at out (unat (of_nat x :: u64)) = Some SYPAS_MEM_USABLE"
      using type_at_member [OF F(2) e(1)] e(2) by (simp_all add: within_def in_range_def)
    moreover have "(?a, ?n) \<in> set (handoff_ranges (ho_rdi h) b plan)" by (simp add: handoff_ranges_def)
    ultimately show False using F(4) by blast
  qed
  with F show ?thesis by (simp add: boot_map_ok_def)
qed

section \<open>The allocator and the kernel's own memory\<close>

lemma usable_page_address:
  assumes "map_wf es" and "n \<in> usable_pages_of es" and "in_range x (of_nat n * PAGE_SIZE) 4096"
  shows "type_at es (unat x) = Some SYPAS_MEM_USABLE"
proof -
  obtain e where e: "e \<in> set es" "mm_type e = SYPAS_MEM_USABLE" "n \<in> entry_pages e"
    using assms(2) by (auto simp: usable_pages_of_def)
  have wf: "mm_lo e mod 4096 = 0" "mm_hi e mod 4096 = 0" "mm_hi e < 2 ^ 64"
    using assms(1) e(1) by (auto simp: map_wf_def entry_wf_def)
  obtain p q where "mm_lo e = 4096 * p" "mm_hi e = 4096 * q"
    using wf(1,2) by (auto simp: mod_eq_0_iff_dvd dvd_def)
  then have n: "mm_lo e \<le> n * 4096" "n * 4096 + 4096 \<le> mm_hi e"
    using e(3) by (auto simp: entry_pages_def)
  then have "unat (of_nat n * PAGE_SIZE :: u64) = n * 4096"
    using wf(3) by (simp add: PAGE_SIZE_def unat_word_ariths unat_of_nat)
  then show ?thesis using type_at_member [OF assms(1) e(1), of "unat x"] e(2) n assms(3)
    by (simp add: in_range_def)
qed

lemma bitmap_address:
  assumes "map_wf es" and "bitmap_placed st es" and "in_range x (bitmap st) (unat (bitmap_bytes st))"
  shows "type_at es (unat x) = Some SYPAS_MEM_USABLE"
proof -
  obtain e where e: "e \<in> set es" "mm_type e = SYPAS_MEM_USABLE" "mm_lo e \<le> unat (bitmap st)"
    "unat (bitmap st) + unat (bitmap_bytes st) \<le> mm_hi e"
    using assms(2) by (auto simp: bitmap_placed_def)
  then show ?thesis using type_at_member [OF assms(1) e(1), of "unat x"] assms(3) by (simp add: in_range_def)
qed

text \<open> C2: Under the firmware's contract and an honest memory map, whatever the loader hands to the
  kernel (the boot information, the memory map, the stack and every page of the kernel's segments)
  is left as it is when the allocator is initialised from that map, and no page the allocator may
  give away overlaps it.\<close>

theorem allocator_spares_handoff:
  assumes "efi_contract fw" and "honest_map fw"
    and "efi_main fw version img systab \<lparr>ld_calls = [], ld_mem = m\<rparr> = (Inr h, s)"
    and "b = decode_bootinfo (ram_bytes (ld_mem s) (ho_rdi h) SYPAS_BOOTINFO_V1_0_SIZE)"
    and "pmm_ram st0 = ld_mem s" and "pmm_init st0 b = Inr st"
  shows "\<exists>raw plan out. handed_over fw img systab h s raw plan out \<and>
    (\<forall>rg\<in>set (handoff_ranges (ho_rdi h) b plan). \<forall>x. within x rg \<longrightarrow>
       pmm_ram st x = ld_mem s x \<and> (\<forall>n\<in>free_set st. \<not> in_range x (of_nat n * PAGE_SIZE) 4096))"
proof -
  obtain raw plan out where F: "handed_over fw img systab h s raw plan out"
    "map_entries (ld_mem s) (bi_memmap b) (unat (bi_memmap_count b)) = out" "map_wf out"
    "\<forall>rg\<in>set (handoff_ranges (ho_rdi h) b plan). \<forall>x. within x rg \<longrightarrow>
       type_at out (unat x) \<noteq> Some SYPAS_MEM_USABLE"
    using handoff_facts [OF assms(1-4)] by blast
  have ok: "boot_map_ok (pmm_ram st0) (bi_memmap b) (unat (bi_memmap_count b))"
    unfolding assms(5) by (rule handoff_map_ok [OF assms(1-4)])
  note S = pmm_init_spec [OF ok assms(6), unfolded assms(5) F(2)]
  have "pmm_ram st x = ld_mem s x \<and> (\<forall>n\<in>free_set st. \<not> in_range x (of_nat n * PAGE_SIZE) 4096)"
    if "rg \<in> set (handoff_ranges (ho_rdi h) b plan)" "within x rg" for rg x
  proof -
    have u: "type_at out (unat x) \<noteq> Some SYPAS_MEM_USABLE" using F(4) that by blast
    then have "\<not> in_range x (bitmap st) (unat (bitmap_bytes st))" using bitmap_address [OF F(3) S(2)] by blast
    then have "pmm_ram st x = ld_mem s x" by (rule S(6))
    moreover have "\<not> in_range x (of_nat n * PAGE_SIZE) 4096" if "n \<in> free_set st" for n
      using usable_page_address [OF F(3), of n x] that S(3) u by blast
    ultimately show ?thesis by blast
  qed
  with F(1) show ?thesis by blast
qed

section \<open>The demonstration firmware\<close>

lemma demo_honest: "honest_map demo_firmware"
  unfolding honest_map_def
proof (intro allI impI)
  fix tr m n a r m1 rg x
  assume fw: "demo_firmware tr m (GetMemoryMap n a) = (r, m1)" "\<not> EFI_ERROR (rp_status r)"
    and rg: "rg \<in> set (owned tr)" "within x rg"
  from fw have r: "rp_size r = 80" "rp_dsz r = 40" "region_ok a 80" "list_all in_zone (owned tr)"
    "m1 = ram_store m a demo_map"
    by (auto simp: demo_firmware_def demo_reply_def demo_mem_def plain_reply_def EFI_NOT_FOUND_error split: if_splits)
  have bytes: "ram_bytes m1 a (unat (rp_size r)) = demo_map"
    using ram_bytes_store_same [of a demo_map m] r by (simp add: demo_map_length)
  have "in_zone rg" using r(4) rg(1) by (simp add: list_all_iff)
  with rg(2) have "0x400000 \<le> unat x" "unat x < 0x40000000"
    by (auto simp: in_zone_def within_def in_range_def split: prod.splits)
  then show "\<exists>d\<in>set (input_descriptors (ram_bytes m1 a (unat (rp_size r))) (unat (rp_dsz r))).
      ed_Type d = EfiLoaderData \<and> covers d (unat x)"
    by (simp add: bytes r(2) demo_descriptors covers_def d_lo_def d_hi_def EfiLoaderData_def)
qed

definition demo_entries :: "sypas_memmap_entry list" where
  "demo_entries = [usable_entry 0x100000 0x300000,
     \<lparr>mm_base = 0x400000, mm_length = 0x1000, mm_type = SYPAS_MEM_KERNEL, mm_reserved = 0\<rparr>,
     \<lparr>mm_base = 0x401000, mm_length = 0x3FBFF000, mm_type = SYPAS_MEM_LOADER, mm_reserved = 0\<rparr>]"

lemma demo_next:
  "next_kernel_segment (segs (image_plan example_image)) 0x400000 0x40000000 =
     Some (segment_of (decode_phdr example_phdr_bytes))"
  "next_kernel_segment (segs (image_plan example_image)) 0x401000 0x40000000 = None"
  by (simp_all add: next_kernel_segment_def example_plan_segs example_segment_values)

lemma demo_translated:
  assumes "translate_list efi_map 40 (segs (image_plan example_image)) cap 0 (input_descriptors demo_map 40) 0 0 [] =
    Some (Inr (out, t))"
  shows "out = demo_entries"
  using assms
  by (auto simp: demo_descriptors translate_descriptor_def mul_ok_def add_ok_def UINT64_MAX_def efi_to_sypas_memtype_def
      sypas_mem_defs EfiConventionalMemory_def EfiLoaderData_def append_entry_def Let_def demo_entries_def
      tag_ranges.simps [of _ _ _ "0x40000000"] demo_next example_segment_values usable_entry_def
      split: if_splits)

lemma demo_handoff:
  assumes "handed_over demo_firmware img systab h s raw plan out"
  shows "plan = image_plan example_image" and "out = demo_entries"
proof -
  have len: "length raw < 2 ^ 64" and pl: "elf_plan_load raw (of_nat (length raw)) = Some (Inr plan)"
    and fr: "file_read demo_firmware (ld_calls s) raw"
    using assms unfolding handed_over_def Let_def by blast+
  obtain tr1 m f a r m' where r: "demo_firmware tr1 m (FileRead f (of_nat (length raw)) a) = (r, m')"
    "rp_size r = of_nat (length raw)" "ram_bytes m' a (length raw) = raw"
    using fr unfolding file_read_def by blast
  have "length raw = 124"
  proof (rule ccontr)
    assume "length raw \<noteq> 124"
    then have "(of_nat (length raw) :: u64) \<noteq> 124" using len by (simp add: word_unat_eq_iff unat_of_nat)
    then have "(of_nat (length raw) :: u64) = 0"
      using r(1,2) by (auto simp: demo_firmware_def demo_reply_def plain_reply_def split: if_splits)
    then have "raw = []" using len by (simp add: word_unat_eq_iff unat_of_nat)
    then show False using pl by (simp add: elf_plan_load_def sizeof_Ehdr_def)
  qed
  moreover from this have "m' = ram_store m a example_image \<and> region_ok a 124"
    using r(1,2) by (auto simp: demo_firmware_def demo_reply_def demo_mem_def plain_reply_def split: if_splits)
  ultimately have "raw = example_image" using r(3) ram_bytes_store_same [of a example_image m]
    by (simp add: example_length)
  then show p: "plan = image_plan example_image" using pl example_accepted by (simp add: example_length)
  obtain a where a: "xa_plan a = plan" "exited_with demo_firmware a (ld_calls s) out"
    using assms unfolding handed_over_def Let_def by blast
  obtain tr r m m1 where g: "demo_firmware tr m (GetMemoryMap (xa_map_bytes a) (xa_efimap a)) = (r, m1)"
    "\<not> EFI_ERROR (rp_status r)" and t: "sypas_translate_memory_map (xa_efimap a)
      (ram_bytes m1 (xa_efimap a) (unat (rp_size r))) (rp_size r) (rp_dsz r) (xa_plan a) (xa_cap a) = Some (Inr out)"
    using a(2) unfolding exited_with_def by blast
  from g have r: "rp_size r = 80" "rp_dsz r = 40" "region_ok (xa_efimap a) 80"
    "m1 = ram_store m (xa_efimap a) demo_map"
    by (auto simp: demo_firmware_def demo_reply_def demo_mem_def plain_reply_def EFI_NOT_FOUND_error split: if_splits)
  have bytes: "ram_bytes m1 (xa_efimap a) 80 = demo_map"
    using ram_bytes_store_same [of "xa_efimap a" demo_map m] r(3,4) by (simp add: demo_map_length)
  have "sort_key ed_PhysicalStart (input_descriptors demo_map 40) = input_descriptors demo_map 40"
    by (simp add: demo_descriptors)
  then show "out = demo_entries"
    using translate_Inr_aux [OF _ t] demo_translated by (auto simp: r(1,2) bytes a(1) p demo_map_length)
qed

lemma demo_init:
  assumes "map_entries (pmm_ram s0) (bi_memmap bi) (unat (bi_memmap_count bi)) = demo_entries"
    and ok: "boot_map_ok (pmm_ram s0) (bi_memmap bi) (unat (bi_memmap_count bi))"
  shows "\<exists>st. pmm_init s0 bi = Inr st"
    and "pmm_init s0 bi = Inr st \<Longrightarrow> free_set st = {257..<1024} \<and> cursor st < highest_page st"
proof -
  let ?b = "bi_memmap bi"
  have len: "length (map_entries (pmm_ram s0) ?b (unat (bi_memmap_count bi))) = 3"
    by (simp only: assms(1)) (simp add: demo_entries_def)
  then have n: "unat (bi_memmap_count bi) = Suc (Suc (Suc 0))" by (simp add: map_entries_def)
  have e: "map_entry (pmm_ram s0) ?b 0 = usable_entry 0x100000 0x300000"
    "mm_type (map_entry (pmm_ram s0) ?b (Suc 0)) = SYPAS_MEM_KERNEL"
    "mm_type (map_entry (pmm_ram s0) ?b (Suc (Suc 0))) = SYPAS_MEM_LOADER"
    using assms(1) by (simp_all add: n map_entries_def demo_entries_def)
  have ext: "fst (pmm_extent (pmm_ram s0) ?b 0 (unat (bi_memmap_count bi)) 0 0 0 0) = 0x400000"
    by (simp add: n e usable_entry_def Let_def sypas_mem_defs)
  obtain mx u r mm where x: "pmm_extent (pmm_ram s0) ?b 0 (unat (bi_memmap_count bi)) 0 0 0 0 = (mx, u, r, mm)"
    by (metis prod_cases4)
  show "\<exists>st. pmm_init s0 bi = Inr st"
    by (rule pmm_init_returns [OF x]) (use ext x in \<open>simp_all add: n e usable_entry_def PAGE_SIZE_def
        example_bitmap_bytes Let_def\<close>)
  assume init: "pmm_init s0 bi = Inr st"
  note S = pmm_init_spec [OF ok init]
  have h: "highest_page st = 1024" using S(9) ext by (simp add: PAGE_SIZE_def)
  then have bytes: "unat (bitmap_bytes st) = 128" using S(1) by (simp add: counted_def bitmap_ok_def)
  then have "bitmap_bytes st = 128" by (simp add: word_unat_eq_iff)
  then have bm: "bitmap st = 0x100000" using S(11) by (simp add: n e usable_entry_def)
  have "usable_pages_of demo_entries = {256..<1024}"
    by (simp add: demo_entries_def usable_pages_of_Cons entry_pages_def usable_entry_def mm_lo_def mm_hi_def
        sypas_mem_defs)
  then have "free_set st = {257..<1024}"
    using S(3) bytes bm unfolding assms(1) by (auto simp: page_off_bitmap_def)
  moreover have "cursor st < highest_page st" using S(7,12) bytes bm h by (simp add: word_less_nat_alt)
  ultimately show "free_set st = {257..<1024} \<and> cursor st < highest_page st" by blast
qed

lemma demo_system:
  assumes "efi_main demo_firmware version img systab \<lparr>ld_calls = [], ld_mem = m\<rparr> = (Inr h, s)"
    and b: "b = decode_bootinfo (ram_bytes (ld_mem s) (ho_rdi h) SYPAS_BOOTINFO_V1_0_SIZE)"
    and "pmm_ram s0 = ld_mem s"
  shows "\<exists>st. pmm_init s0 b = Inr st \<and> free_set st = {257..<1024} \<and> cursor st < highest_page st"
proof -
  note H = demo_contract demo_honest assms(1) b
  have "map_entries (pmm_ram s0) (bi_memmap b) (unat (bi_memmap_count b)) = demo_entries"
    using handoff_facts [OF H] demo_handoff(2) assms(3) by auto
  from demo_init [OF this] handoff_map_ok [OF H] assms(3) show ?thesis by auto
qed

lemma demo_rdi:
  assumes "efi_main demo_firmware version img systab \<lparr>ld_calls = [], ld_mem = m\<rparr> = (Inr h, s)"
  shows "ho_rdi h \<noteq> 0"
proof -
  obtain raw plan out where H: "handed_over demo_firmware img systab h s raw plan out"
    and own: "inside_owned (ld_calls s) (ho_rdi h, SYPAS_BOOTINFO_V1_0_SIZE)"
    using handed_over_aux [OF demo_contract assms] by (auto simp: handoff_ranges_def)
  obtain a where "exited_with demo_firmware a (ld_calls s) out"
    using H unfolding handed_over_def Let_def by blast
  then obtain tr r y m m1 where "ld_calls s = tr @ [(GetMemoryMap (xa_map_bytes a) (xa_efimap a), r),
        (ExitBootServices (xa_img a) (rp_key r), y)]"
    "demo_firmware tr m (GetMemoryMap (xa_map_bytes a) (xa_efimap a)) = (r, m1)" "\<not> EFI_ERROR (rp_status r)"
    unfolding exited_with_def by blast
  then have "list_all in_zone (owned (ld_calls s))"
    by (auto simp: owned_exit demo_firmware_def demo_reply_def plain_reply_def EFI_NOT_FOUND_error split: if_splits)
  moreover obtain rg where "rg \<in> set (owned (ld_calls s))" "within (ho_rdi h) rg"
    using own by (auto simp: inside_owned_def within_def in_range_def SYPAS_BOOTINFO_V1_0_SIZE_def)
  ultimately have "0x400000 \<le> unat (ho_rdi h)"
    by (fastforce simp: list_all_iff in_zone_def within_def in_range_def split: prod.splits)
  then show ?thesis by auto
qed

theorem allocator_spares_handoff_witness:
  "\<exists>h s st. efi_main demo_firmware [] 1 2 \<lparr>ld_calls = [], ld_mem = (\<lambda>_. 0)\<rparr> = (Inr h, s) \<and>
     pmm_init (roomy_machine\<lparr>pmm_ram := ld_mem s\<rparr>)
       (decode_bootinfo (ram_bytes (ld_mem s) (ho_rdi h) SYPAS_BOOTINFO_V1_0_SIZE)) = Inr st \<and>
     300 \<in> free_set st \<and> pmm_ram st (ho_rdi h) = ld_mem s (ho_rdi h)"
proof -
  obtain h s where run: "efi_main demo_firmware [] 1 2 \<lparr>ld_calls = [], ld_mem = (\<lambda>_. 0)\<rparr> = (Inr h, s)"
    using demo_run by blast
  let ?st0 = "roomy_machine\<lparr>pmm_ram := ld_mem s\<rparr>"
  have ram: "pmm_ram ?st0 = ld_mem s" by simp
  obtain st where st: "pmm_init ?st0 (decode_bootinfo (ram_bytes (ld_mem s) (ho_rdi h) SYPAS_BOOTINFO_V1_0_SIZE)) = Inr st"
    "free_set st = {257..<1024}"
    using demo_system [OF run refl ram] by blast
  have "within (ho_rdi h) (ho_rdi h, SYPAS_BOOTINFO_V1_0_SIZE)"
    by (simp add: within_def in_range_def SYPAS_BOOTINFO_V1_0_SIZE_def)
  with allocator_spares_handoff [OF demo_contract demo_honest run refl ram st(1)]
  have "pmm_ram st (ho_rdi h) = ld_mem s (ho_rdi h)" by (auto simp: handoff_ranges_def)
  with run st show ?thesis by auto
qed

section \<open>From the firmware to the idle loop\<close>

lemma handed_over_info:
  assumes "handed_over fw img systab h s raw plan out"
    and "pmm_ram (k_pmm k) = ld_mem s" and "ho_rdi h \<noteq> 0"
  shows "boot_info_ok (ho_rdi h) (info_at (ho_rdi h) k)"
proof -
  let ?b = "info_at (ho_rdi h) k"
  have b: "?b = decode_bootinfo (ram_bytes (ld_mem s) (ho_rdi h) SYPAS_BOOTINFO_V1_0_SIZE)"
    by (simp add: info_at_def assms(2))
  have "bi_magic ?b = SYPAS_BOOT_MAGIC" "bi_version_major ?b = SYPAS_BOOT_VERSION_MAJOR"
    "unat (bi_size ?b) = SYPAS_BOOTINFO_V1_0_SIZE" "bi_cmdline ?b = replicate 256 0"
    using assms(1) unfolding b handed_over_def Let_def by blast+
  then show ?thesis using assms(3)
    by (simp add: boot_info_ok_def word_less_nat_alt SYPAS_BOOTINFO_V1_0_SIZE_def)
qed

text \<open> C1: The loader's hand-over is what the kernel needs.  Let the firmware keep its contract and its
  memory map tell the truth about allocated memory, let the kernel start on the memory the loader
  leaves with the pointer the loader passes, and let the rest of the machine be in order: the two
  interrupt controllers wired, the interrupt state cold (no handler, no tick), only interrupts the
  kernel handles, at least 25 timer ticks during its sleep, the version a terminated string, and the
  two arrays of the processor's strings as long as they are declared.  Then the boot is decided by
  what the allocator makes of the memory map.  If it refuses the map, kmain halts in the panic that
  says so; if it finds fewer than 512 free pages, in the panic of its self-test; otherwise kmain gets
  through its whole boot and every turn of its idle loop, and the allocator then holds exactly the
  pages its initialisation found.  Left out is the one state in which the allocator's bitmap ends
  with the last page it tracks (\<open>pmm_alloc_past_end\<close> shows what can happen there), and a loader that
  was given the page at address 0 for the structure ends in the kernel's refusal of a null
  pointer.\<close>

theorem system_boots:
  assumes "efi_contract fw" and "honest_map fw"
    and "efi_main fw version img systab \<lparr>ld_calls = [], ld_mem = m\<rparr> = (Inr h, s)"
    and "pmm_ram (k_pmm k) = ld_mem s"
    and "pic_wired (hw_pic hw) m0 s0" and "irq_handlers (k_irq k) = replicate 16 None"
    and "ticks (k_irq k) = 0" and "arrivals_ok ar"
    and "0 \<in> set kernel_version" and "length (vendor cpu0) = 13" and "length (brand cpu0) = 49"
    and "list_all (list_all event_ok) ws"
  shows "if ho_rdi h = 0
    then \<exists>k1. kmain hw ar kernel_version cpu0 (ho_rdi h) k =
      (Inl (Panic_halt (word_fmt ''boot: NULL bootinfo'') []), k1)
    else case pmm_init (k_pmm k) (info_at (ho_rdi h) k) of
      Inl p \<Rightarrow> \<exists>k1. kmain hw ar kernel_version cpu0 (ho_rdi h) k =
        (Inl (Panic_halt (fst (pmm_message p)) (snd (pmm_message p))), k1)
    | Inr st \<Rightarrow> cursor st \<noteq> highest_page st \<longrightarrow>
       (if card (free_set st) < 512
        then \<exists>k1. kmain hw ar kernel_version cpu0 (ho_rdi h) k =
          (Inl (Panic_halt (word_fmt ''pmm: self-test failed'') []), k1)
        else \<exists>beat k1 beat' k2. kmain hw ar kernel_version cpu0 (ho_rdi h) k = (Inr beat, k1) \<and>
          idle hw ws beat k1 = (Inr beat', k2) \<and> 25 \<le> unat beat \<and> timer_ready m0 s0 (k_irq k2) \<and>
          pmm_inv (free_set st) (k_pmm k2) \<and> free_set (k_pmm k2) = free_set st)"
proof (cases "ho_rdi h = 0")
  case True
  then have "boot_complaint (ho_rdi h) (info_at (ho_rdi h) k) = Some (word_fmt ''boot: NULL bootinfo'', [])"
    by (simp add: boot_complaint_def)
  from kmain_refuses_aux [OF assms(9) this, of hw ar cpu0] True show ?thesis by auto
next
  case False
  let ?i = "info_at (ho_rdi h) k"
  obtain raw plan out where H: "handed_over fw img systab h s raw plan out"
    using handed_over_aux [OF assms(1,3)] by blast
  note info = handed_over_info [OF H assms(4) False]
  have b: "?i = decode_bootinfo (ram_bytes (ld_mem s) (ho_rdi h) SYPAS_BOOTINFO_V1_0_SIZE)"
    by (simp add: info_at_def assms(4))
  have ok: "boot_map_ok (pmm_ram (k_pmm k)) (bi_memmap ?i) (unat (bi_memmap_count ?i))"
    unfolding assms(4) by (rule handoff_map_ok [OF assms(1-3) b])
  note stops = kmain_stops_in_memory [OF info assms(9-11)]
  show ?thesis
  proof (cases "pmm_init (k_pmm k) ?i")
    case (Inl p)
    with stops [of "fst (pmm_message p)" "snd (pmm_message p)" hw ar] False show ?thesis
      by (simp add: memory_complaint_def)
  next
    case (Inr st)
    have "\<exists>k1. kmain hw ar kernel_version cpu0 (ho_rdi h) k =
        (Inl (Panic_halt (word_fmt ''pmm: self-test failed'') []), k1)"
      if "pmm_inv (free_set st) st" "card (free_set st) < 512"
      by (rule stops) (use that Inr in \<open>simp_all add: memory_complaint_def\<close>)
    moreover have "memory_ok k ?i st" if "pmm_inv (free_set st) st" "\<not> card (free_set st) < 512"
      using that Inr by (simp add: memory_ok_def)
    note kmain_boots_aux [OF assms(5-8) info this assms(9-12)]
    moreover have "pmm_inv (free_set st) st" if "cursor st \<noteq> highest_page st"
      using that pmm_init_spec(8) [OF ok Inr]
      by (intro pmm_inv_init [OF ok Inr]) (simp add: word_less_nat_alt word_unat_eq_iff)
    ultimately show ?thesis using Inr False by auto
  qed
qed

theorem system_boots_witness:
  "\<exists>h s k beat k1. efi_main demo_firmware [] 1 2 \<lparr>ld_calls = [], ld_mem = (\<lambda>_. 0)\<rparr> = (Inr h, s) \<and>
     pmm_ram (k_pmm k) = ld_mem s \<and>
     kmain demo_hardware demo_arrivals (bytes_of ''0.2'' @ [0]) blank_info (ho_rdi h) k = (Inr beat, k1) \<and>
     25 \<le> unat beat \<and> free_set (k_pmm k1) = {257..<1024}"
proof -
  obtain h s where run: "efi_main demo_firmware [] 1 2 \<lparr>ld_calls = [], ld_mem = (\<lambda>_. 0)\<rparr> = (Inr h, s)"
    using demo_run by blast
  define k where "k = (demo_kernel one_entry_info)\<lparr>k_pmm := roomy_machine\<lparr>pmm_ram := ld_mem s\<rparr>\<rparr>"
  have ram: "pmm_ram (k_pmm k) = ld_mem s" by (simp add: k_def)
  have b: "info_at (ho_rdi h) k = decode_bootinfo (ram_bytes (ld_mem s) (ho_rdi h) SYPAS_BOOTINFO_V1_0_SIZE)"
    by (simp add: info_at_def ram)
  obtain st where st: "pmm_init (k_pmm k) (info_at (ho_rdi h) k) = Inr st" "free_set st = {257..<1024}"
    "cursor st < highest_page st"
    using demo_system [OF run b ram] by blast
  have pic: "pic_wired (hw_pic demo_hardware) reset_chip reset_chip"
    by (simp add: demo_hardware_def pic_device_wired)
  have cold: "irq_handlers (k_irq k) = replicate 16 None" "ticks (k_irq k) = 0"
    by (simp_all add: k_def demo_kernel_def cold_def)
  have v: "0 \<in> set (bytes_of ''0.2'' @ [0])" by simp
  have cpu: "length (vendor blank_info) = 13" "length (brand blank_info) = 49" by (simp_all add: blank_info_def)
  have cur: "cursor st \<noteq> highest_page st" using st(3) by auto
  have few: "\<not> card (free_set st) < 512" by (simp add: st(2))
  have quiet: "list_all (list_all event_ok) []" by simp
  from system_boots [OF demo_contract demo_honest run ram pic cold demo_arrivals_ok v cpu quiet,
      unfolded if_not_P [OF demo_rdi [OF run]] st(1) sum.case if_not_P [OF few], rule_format, OF cur]
  obtain beat k1 beat' k2 where
    "kmain demo_hardware demo_arrivals (bytes_of ''0.2'' @ [0]) blank_info (ho_rdi h) k = (Inr beat, k1)"
    "idle demo_hardware [] beat k1 = (Inr beat', k2)" "25 \<le> unat beat" "free_set (k_pmm k2) = free_set st" by blast
  moreover from this(2) have "k2 = k1" by (simp add: give_def)
  ultimately show ?thesis using run ram st(2) by blast
qed

end
