(* ===== verification/Spec2Isabelle.thy ===== *)
theory Spec2Isabelle
  imports Elf MemoryMap Reloc Acpi System
begin

text \<open>
  SYPAS: the UEFI loader (src/bootloader) and the kernel it starts (src/kernel).

  The program.  The firmware starts the loader, a UEFI application.  It relocates itself
  (\<^verbatim>\<open>sypas_reloc\<close>), reads the kernel file, has it validated (\<^verbatim>\<open>elf_plan_load\<close>), copies the accepted
  segments to their physical addresses, allocates a boot information page and a stack, and takes the
  firmware's memory map, which \<^verbatim>\<open>sypas_translate_memory_map\<close> sorts, classifies and coalesces for the
  kernel.  The key of that map ends the boot services; the loader then jumps to the kernel with the
  boot information in \<^verbatim>\<open>rdi\<close>.  The kernel's \<^verbatim>\<open>kmain\<close> brings up the serial line, checks the boot
  information, identifies the processor, loads its descriptor tables, remaps the interrupt
  controllers, builds a page allocator over the memory map, opens a console on the framebuffer,
  tests interrupts and the timer, and idles.

  Conventions.  Machine integers are words of their width and wrap as in C; indices and lengths that
  the code compares without wrapping are naturals behind \<open>unat\<close>.  Errors, panics and endless halts
  are values: \<open>Inl\<close> of a status or a reason to stop.  A read outside an object is \<open>None\<close> where the
  object is a byte list (\<open>Elf\<close>, \<open>MapSort\<close>, \<open>Kprintf\<close>) or a partial memory (\<open>Reloc\<close>, \<open>Acpi\<close>); physical
  memory behind the identity mapping is total (\<open>Ram\<close>), so that there staying inside an object is a
  theorem.

  Theories, in the order of the imports:

  \<^item> \<open>Prelude\<close>: word types, the checked additions and multiplications, little-endian bytes, partial
    memory.  \<open>Program\<close>: programs that thread a state and may stop, with their calculus \<open>runs\<close> (total
    correctness, as rewrite rules).  \<open>Ram\<close>: physical memory, map entries in memory, \<^verbatim>\<open>types.h\<close>.
  \<^item> \<open>BootProto\<close> (\<^verbatim>\<open>protocols/sypas_bootproto.h\<close>): the structures loader and kernel share, their
    layout, and the reading of them.  \<open>Efi\<close> (\<^verbatim>\<open>efi.h\<close>): status codes, GUIDs, layouts by the C rule.
  \<^item> \<open>Elf\<close> (\<^verbatim>\<open>elf.c\<close>): the validator accepts exactly the valid images and returns the plan their
    headers describe; the plan is well formed; each rejection names a real defect.
  \<^item> \<open>MapSort\<close> and \<open>MemoryMap\<close> (\<^verbatim>\<open>memory_map.c\<close>): the byte-level insertion sort is a stable sort; the
    translation succeeds exactly on valid maps and classifies every address as the firmware map and
    the kernel's segments do; the inputs on which its tagging loop never ends.
  \<^item> \<open>Reloc\<close> (\<^verbatim>\<open>reloc.c\<close>): relocation touches only the image and stores base plus addend.
    \<open>Acpi\<close> (\<^verbatim>\<open>acpi.c\<close>): the validator accepts exactly the valid root pointers.
  \<^item> \<open>Loader\<close> (\<^verbatim>\<open>uefi/main.c\<close>): \<^verbatim>\<open>efi_main\<close> and everything it calls, over the firmware as a parameter.
    \<open>LoaderTrace\<close>: the order of its firmware calls.  \<open>Blocks\<close>: the firmware's contract and
    assertions about owned memory; \<open>Staging\<close>, \<open>Handoff\<close>: what the stages of the loader do to them,
    and that an assignment in the loader is what the kernel reads, member by member, at the offsets
    the header asserts;
    \<open>Boot\<close>: the state at the jump.  \<open>DemoFirmware\<close>: a firmware that keeps the contract, and a run
    of the loader on it.
  \<^item> \<open>PortIo\<close> (\<^verbatim>\<open>io.h\<close>), \<open>Pic\<close> (\<^verbatim>\<open>pic.c\<close>), \<open>Interrupts\<close> (\<^verbatim>\<open>idt.c\<close>, \<^verbatim>\<open>pit.c\<close>), \<open>Serial\<close> (\<^verbatim>\<open>serial.c\<close>): drivers
    over a trace of port accesses; the chips are views of the trace.  \<open>irq_step\<close> and \<open>irq_run\<close> are the
    step relations of the machine under interrupts, with their invariant and their refinement of a
    tally of the events.
  \<^item> \<open>Kprintf\<close> (\<^verbatim>\<open>kprintf.c\<close>) and \<open>Formats\<close>: the formatter, what it prints, and a check by computation
    that a format and its arguments belong together.  \<open>Font\<close>, \<open>Fbcon\<close> (\<^verbatim>\<open>font8x8_basic.h\<close>,
    \<^verbatim>\<open>fbcon.c\<close>): the framebuffer console refines an abstract terminal.\<open>Console\<close>: both sinks behind
    \<^verbatim>\<open>kprintf\<close>, and what a text leaves on the line and on the screen.  \<open>Panic\<close> (\<^verbatim>\<open>panic.c\<close>): the dump
    puts the values it was given on both.
  \<^item> \<open>Cpu\<close> (\<^verbatim>\<open>cpu.c\<close>), \<open>Gdt\<close> (\<^verbatim>\<open>gdt.c\<close>), \<open>Pmm\<close> (\<^verbatim>\<open>pmm.c\<close>): identification, segments, and the page
    allocator with its self-test, against the set of free pages.
  \<^item> \<open>Kmain\<close> (\<^verbatim>\<open>kernel/main.c\<close>): the boot sequence and the idle loop over the state of all components.
    \<open>Bringup\<close>: every step returns, so the kernel boots; unusable boot information is refused; a memory
    map the allocator refuses, or too small for its self-test, ends the boot in the panic for it.
  \<^item> \<open>System\<close>: loader and kernel together.  With a firmware whose memory map tells the truth about the
    memory it has given, the allocator never owns what the loader handed over, and what becomes of a
    kernel that starts on the state the loader leaves is decided by the allocator: it boots, or it
    halts in the panic that names the lack of memory.  The one state left out is the cursor past the
    last page, the subject of \<open>pmm_alloc_past_end\<close>.

  Interfaces.  \<open>page_allocator\<close> (\<open>Pmm\<close>) is what the self-test asks of allocation, release and the
  pages' contents; \<open>emitter_map\<close> (\<open>Kprintf\<close>) is what formatting asks of the place its characters go;
  \<open>console_sinks\<close> (\<open>Kprintf\<close>) is what \<^verbatim>\<open>kprintf\<close> asks of its sinks.  Each is interpreted on the model's own
  definitions where they are provided.  The firmware is not code of the repository: \<open>efi_contract\<close>
  and \<open>honest_map\<close> state the parts of the UEFI specification the loader relies on, and
  \<open>demo_contract\<close> and \<open>demo_honest\<close> show a firmware that has them.

  Loops and bounds.  Loops over arrays recurse on what is left of them.  The tagging loop of the
  translator may not end and is a partial function, whose theorems say when it returns.  The
  allocator's scan is one too, and is shown to return always.  The loops with a bound in the source
  recurse on the attempts left: \<^verbatim>\<open>exit_loop\<close> from 3 (four attempts), \<^verbatim>\<open>size_buffers\<close> from 4,
  the transmitter poll from \<open>POLL_LIMIT\<close> (100000), the self-test over 512 pages.  \<^verbatim>\<open>sleep_ticks\<close> and
  the idle loop recurse on the interrupts that arrive, in the groups that end each halt.

  Not modelled.  The assembly (\<^verbatim>\<open>start.S\<close>, \<^verbatim>\<open>entry.S\<close>, \<^verbatim>\<open>isr.S\<close>, the BIOS stub) and the linker scripts:
  what they provide (the image base, stub addresses, the saved frame) is a parameter.  Page tables:
  the kernel runs on the firmware's identity mapping.  Time: the cycle counter of the allocator's
  self-test and what it prints of it is a parameter.  The build with \<^verbatim>\<open>SYPAS_TEST_FAULT\<close>.  The two
  groups of ports of \<open>Kmain\<close> (serial line, interrupt hardware) keep a trace each, so the order of
  accesses across the two is not recorded; the drivers never read one to decide about the other.
  The pixels of the framebuffer are a memory of their own, apart from the physical memory of \<open>Pmm\<close>:
  the write past the framebuffer that \<open>fbcon_init_inside_iff\<close> describes stays in that memory and
  cannot harm the allocator here, as it could on a machine.  The chips at the ports are views after
  their data sheets; the view of the UART puts every byte written on the line, so that the wait for
  the transmitter is a property of the trace (\<open>waited\<close>).  \<open>handed_over\<close> fixes the members of the boot
  information that are constant or come from the plan, the stack and the memory map; those the
  loader copies from firmware tables (\<^verbatim>\<open>fb_*\<close>, \<^verbatim>\<open>acpi_rsdp\<close>) are only modelled, in \<open>fill_framebuffer\<close> and
  \<open>find_acpi_rsdp\<close>.
  Interrupts arrive between the steps of \<open>Kmain\<close>, at the points its parameter \<open>arrivals\<close> names, and
  not inside a driver call; their handlers share only the tick counter with the code they interrupt.
\<close>

end
